(* ===== verification/Go_Prelude.thy ===== *)
theory Go_Prelude
  imports
    Complex_Main
    "HOL-Library.Word"
    "HOL-Library.Finite_Map"
    "HOL-Library.Monad_Syntax"
    "HOL-Library.Multiset"
begin

text \<open>
  The part of the Go language and of its standard library that the server uses, shared by
  every component theory:
  \<^item> fixed-width integers are words, so that \<open>+\<close>, \<open>-\<close> and \<open>*\<close> wrap as in Go;
  \<^item> \<open>math/big.Int\<close> is \<open>int\<close>, a nil pointer to it is \<open>None\<close>;
  \<^item> a run-time panic is the value \<open>None\<close> of \<open>'a go\<close>, composed with the option monad;
  \<^item> a Go map is a finite map; the order of a \<open>range\<close> loop over it, which Go leaves open, is an
    argument that must enumerate the keys (\<open>is_range_order\<close>, locale \<open>go_range\<close>);
  \<^item> a buffered channel is a queue with a capacity; its non-blocking send and receive are the
    \<open>select\<close> statements with a \<open>default\<close> branch of the source (locale \<open>bounded_queue\<close>).
\<close>

section \<open>Collections of facts\<close>

named_theorems go_simps \<open>rewrite rules for the Go primitives\<close>
named_theorems word_nat \<open>rules that move word arithmetic to natural numbers\<close>

section \<open>Integers and panics\<close>

type_synonym u64 = "64 word"
type_synonym u32 = "32 word"
type_synonym Hash = "256 word"
type_synonym Address = "160 word"

text \<open>An instant or a duration in nanoseconds; instants count from the Unix epoch.\<close>

type_synonym Time = int

type_synonym 'a go = "'a option"

abbreviation (input) panic :: "'a go" where
  "panic \<equiv> None"

abbreviation (input) ret :: "'a \<Rightarrow> 'a go" where
  "ret \<equiv> Some"

definition big_IsUint64 :: "int \<Rightarrow> bool" where
  "big_IsUint64 x \<longleftrightarrow> 0 \<le> x \<and> x < 2 ^ 64"

text \<open>\<open>(*big.Int).Uint64\<close> returns the low 64 bits of the absolute value.\<close>

definition big_Uint64 :: "int \<Rightarrow> u64" where
  "big_Uint64 x = word_of_int \<bar>x\<bar>"

lemma big_Uint64_exact [word_nat]: "big_IsUint64 x \<Longrightarrow> uint (big_Uint64 x) = x"
  by (simp add: big_IsUint64_def big_Uint64_def uint_word_of_int)

lemma unat_big_Uint64 [word_nat]: "big_IsUint64 x \<Longrightarrow> unat (big_Uint64 x) = nat x"
  by (metis big_Uint64_exact nat_uint_eq)

lemma big_IsUint64_uint [simp]: "big_IsUint64 (uint (w :: u64))"
  using uint_lt2p [of w] by (simp add: big_IsUint64_def)

lemma big_Uint64_uint [simp]: "big_Uint64 (uint w) = w"
  by (simp add: big_Uint64_def)

lemma unat_sub_le [word_nat]: "b \<le> (a :: 'a::len word) \<Longrightarrow> unat (a - b) = unat a - unat b"
  by (rule unat_sub)

lemma unat_add_no_wrap [word_nat]:
  "unat a + unat b < 2 ^ LENGTH('a) \<Longrightarrow> unat ((a :: 'a::len word) + b) = unat a + unat b"
  by (simp add: unat_word_ariths)

section \<open>Ranging over a map\<close>

definition is_range_order :: "('k fset \<Rightarrow> 'k list) \<Rightarrow> bool" where
  "is_range_order ord \<longleftrightarrow> (\<forall>S. distinct (ord S) \<and> set (ord S) = fset S)"

locale go_range =
  fixes ord :: "'k fset \<Rightarrow> 'k list"
  assumes range_order: "is_range_order ord"
begin

lemma ord_distinct [simp]: "distinct (ord S)"
  using range_order by (simp add: is_range_order_def)

lemma ord_set [simp]: "set (ord S) = fset S"
  using range_order by (simp add: is_range_order_def)

lemma ord_length: "length (ord S) = fcard S"
  by (metis distinct_card fcard.rep_eq ord_distinct ord_set)

lemma ord_empty [simp]: "ord {||} = []"
  using ord_set [of "{||}"] by (metis bot_fset.rep_eq set_empty)

end

interpretation sorted_range: go_range "sorted_list_of_fset :: 'k::linorder fset \<Rightarrow> 'k list"
  by unfold_locales (simp add: is_range_order_def sorted_list_of_fset.rep_eq)

lemma is_range_order_sorted: "is_range_order sorted_list_of_fset"
  by (rule sorted_range.range_order)

section \<open>Buffered channels\<close>

record 'a chan =
  chan_buf :: "'a list"
  chan_cap :: nat

definition make_chan :: "nat \<Rightarrow> 'a chan" where
  "make_chan n = \<lparr>chan_buf = [], chan_cap = n\<rparr>"

definition chan_full :: "'a chan \<Rightarrow> bool" where
  "chan_full c \<longleftrightarrow> chan_cap c \<le> length (chan_buf c)"

text \<open>\<open>select { case c <- x: ... default: ... }\<close>: the flag says which branch was taken.\<close>

definition chan_try_send :: "'a \<Rightarrow> 'a chan \<Rightarrow> bool \<times> 'a chan" where
  "chan_try_send x c =
     (if chan_full c then (False, c) else (True, c\<lparr>chan_buf := chan_buf c @ [x]\<rparr>))"

text \<open>\<open>select { case x := <-c: ... default: ... }\<close>.\<close>

definition chan_try_recv :: "'a chan \<Rightarrow> ('a \<times> 'a chan) option" where
  "chan_try_recv c = (case chan_buf c of
       [] \<Rightarrow> None
     | x # xs \<Rightarrow> Some (x, c\<lparr>chan_buf := xs\<rparr>))"

definition chan_ok :: "'a chan \<Rightarrow> bool" where
  "chan_ok c \<longleftrightarrow> length (chan_buf c) \<le> chan_cap c"

locale bounded_queue =
  fixes send :: "'a \<Rightarrow> 'q \<Rightarrow> bool \<times> 'q"
    and recv :: "'q \<Rightarrow> ('a \<times> 'q) option"
    and items :: "'q \<Rightarrow> 'a list"
    and cap :: "'q \<Rightarrow> nat"
    and ok :: "'q \<Rightarrow> bool"
  assumes ok_bound: "ok q \<Longrightarrow> length (items q) \<le> cap q"
    and send_room: "length (items q) < cap q \<Longrightarrow> fst (send x q) \<and> items (snd (send x q)) = items q @ [x]"
    and send_full: "cap q \<le> length (items q) \<Longrightarrow> send x q = (False, q)"
    and send_cap: "cap (snd (send x q)) = cap q"
    and send_ok: "ok q \<Longrightarrow> ok (snd (send x q))"
    and recv_empty: "items q = [] \<Longrightarrow> recv q = None"
    and recv_cons: "items q = y # ys \<Longrightarrow> \<exists>q'. recv q = Some (y, q') \<and> items q' = ys \<and> cap q' = cap q"
    and recv_ok: "ok q \<Longrightarrow> recv q = Some (y, q') \<Longrightarrow> ok q'"
begin

text \<open>Sending a whole list drops exactly the part that does not fit, at the end.\<close>

lemma send_list:
  "items (fold (\<lambda>x q. snd (send x q)) xs q) = items q @ take (cap q - length (items q)) xs"
proof (induction xs arbitrary: q)
  case Nil
  show ?case by simp
next
  case (Cons x xs)
  show ?case
  proof (cases "length (items q) < cap q")
    case True
    then have "items (snd (send x q)) = items q @ [x]" by (simp add: send_room)
    with True Cons.IH [of "snd (send x q)"] show ?thesis
      by (simp add: send_cap Suc_diff_le flip: Suc_diff_Suc)
  next
    case False
    then have "send x q = (False, q)" by (simp add: send_full)
    with False Cons.IH [of q] show ?thesis by simp
  qed
qed

lemma send_list_ok: "ok q \<Longrightarrow> ok (fold (\<lambda>x q. snd (send x q)) xs q)"
  by (induction xs arbitrary: q) (simp_all add: send_ok)

end

interpretation go_chan: bounded_queue chan_try_send chan_try_recv chan_buf chan_cap chan_ok
  by unfold_locales
    (auto simp: chan_try_send_def chan_try_recv_def chan_full_def chan_ok_def
      split: list.splits)

lemma make_chan_ok [simp]: "chan_ok (make_chan n)"
  by (simp add: make_chan_def chan_ok_def)

lemma make_chan_buf [simp]: "chan_buf (make_chan n) = []" "chan_cap (make_chan n) = n"
  by (simp_all add: make_chan_def)

end
