(* ===== verification/Go_Float64.thy ===== *)
theory Go_Float64
  imports Go_Prelude "HOL-Library.Log_Nat"
begin

text \<open>
  The type \<open>float64\<close> of Go: IEEE 754 binary64 with rounding to nearest, ties to even. A finite
  number is its exact rational value (the two zeros are one value: no operation of the server
  divides by a zero or inspects its sign). Every operation computes the exact result and rounds
  once, by \<open>rnd\<close>; subnormal numbers and the overflow to an infinity are included. No product is
  fused with a following sum (Go allows it on some architectures, not on its default amd64).

  The proofs about weights use only that rounding is monotone and keeps representable numbers:
  these laws are the locale \<open>rounding\<close>, interpreted on \<open>rnd\<close>.
\<close>

section \<open>Rounding\<close>

datatype float64 = Fin rat | PosInf | NegInf | NaN

definition ilog2 :: "rat \<Rightarrow> int" where
  "ilog2 q =
     (let (n, d) = quotient_of q; k = bitlen n - bitlen d
      in if 2 powi k \<le> q then k else k - 1)"

text \<open>Rounding to an integer, ties to even.\<close>

definition rne :: "rat \<Rightarrow> int" where
  "rne x =
     (let f = \<lfloor>x\<rfloor>; r = x - of_int f
      in if r < 1 / 2 then f else if r > 1 / 2 then f + 1 else if even f then f else f + 1)"

text \<open>The exponent of the unit in the last place: 53 bits, subnormal below \<open>2 powi (-1022)\<close>.\<close>

definition ulp_exp :: "rat \<Rightarrow> int" where
  "ulp_exp q = max (ilog2 \<bar>q\<bar> - 52) (-1074)"

definition rnd :: "rat \<Rightarrow> rat" where
  "rnd q = (if q = 0 then 0 else of_int (rne (q / 2 powi ulp_exp q)) * 2 powi ulp_exp q)"

definition f64_max :: rat where
  "f64_max = 2 ^ 1024"

definition f64 :: "rat \<Rightarrow> float64" where
  "f64 q =
     (let r = rnd q
      in if r \<ge> f64_max then PosInf else if r \<le> - f64_max then NegInf else Fin r)"

lemma f64_code [code]:
  "f64 q =
     (let r = rnd q
      in if - 36893488147419103232 < r \<and> r < 36893488147419103232 then Fin r
         else if r \<ge> f64_max then PosInf else if r \<le> - f64_max then NegInf else Fin r)"
proof -
  have "(36893488147419103232 :: rat) = 2 ^ 65" by simp
  also have "\<dots> \<le> f64_max" unfolding f64_max_def by (rule power_increasing) auto
  finally show ?thesis by (auto simp: f64_def Let_def)
qed

section \<open>Operations\<close>

fun f64_add :: "float64 \<Rightarrow> float64 \<Rightarrow> float64" where
  "f64_add (Fin a) (Fin b) = f64 (a + b)"
| "f64_add NaN _ = NaN"
| "f64_add _ NaN = NaN"
| "f64_add PosInf NegInf = NaN"
| "f64_add NegInf PosInf = NaN"
| "f64_add PosInf _ = PosInf"
| "f64_add _ PosInf = PosInf"
| "f64_add NegInf _ = NegInf"
| "f64_add _ NegInf = NegInf"

fun f64_neg :: "float64 \<Rightarrow> float64" where
  "f64_neg (Fin a) = Fin (- a)"
| "f64_neg PosInf = NegInf"
| "f64_neg NegInf = PosInf"
| "f64_neg NaN = NaN"

definition f64_sub :: "float64 \<Rightarrow> float64 \<Rightarrow> float64" where
  "f64_sub x y = f64_add x (f64_neg y)"

fun f64_mul :: "float64 \<Rightarrow> float64 \<Rightarrow> float64" where
  "f64_mul (Fin a) (Fin b) = f64 (a * b)"
| "f64_mul NaN _ = NaN"
| "f64_mul _ NaN = NaN"
| "f64_mul (Fin a) PosInf = (if a = 0 then NaN else if 0 < a then PosInf else NegInf)"
| "f64_mul PosInf (Fin a) = (if a = 0 then NaN else if 0 < a then PosInf else NegInf)"
| "f64_mul (Fin a) NegInf = (if a = 0 then NaN else if 0 < a then NegInf else PosInf)"
| "f64_mul NegInf (Fin a) = (if a = 0 then NaN else if 0 < a then NegInf else PosInf)"
| "f64_mul PosInf PosInf = PosInf"
| "f64_mul NegInf NegInf = PosInf"
| "f64_mul PosInf NegInf = NegInf"
| "f64_mul NegInf PosInf = NegInf"

fun f64_div :: "float64 \<Rightarrow> float64 \<Rightarrow> float64" where
  "f64_div (Fin a) (Fin b) =
     (if b = 0 then (if a = 0 then NaN else if 0 < a then PosInf else NegInf) else f64 (a / b))"
| "f64_div NaN _ = NaN"
| "f64_div _ NaN = NaN"
| "f64_div (Fin a) PosInf = Fin 0"
| "f64_div (Fin a) NegInf = Fin 0"
| "f64_div PosInf (Fin b) = (if b < 0 then NegInf else PosInf)"
| "f64_div NegInf (Fin b) = (if b < 0 then PosInf else NegInf)"
| "f64_div PosInf _ = NaN"
| "f64_div NegInf _ = NaN"

text \<open>Comparisons are false on \<open>NaN\<close>.\<close>

fun f64_le :: "float64 \<Rightarrow> float64 \<Rightarrow> bool" where
  "f64_le (Fin a) (Fin b) = (a \<le> b)"
| "f64_le NaN _ = False"
| "f64_le _ NaN = False"
| "f64_le NegInf _ = True"
| "f64_le _ PosInf = True"
| "f64_le _ _ = False"

definition f64_eq :: "float64 \<Rightarrow> float64 \<Rightarrow> bool" where
  "f64_eq x y \<longleftrightarrow> f64_le x y \<and> f64_le y x"

definition f64_lt :: "float64 \<Rightarrow> float64 \<Rightarrow> bool" where
  "f64_lt x y \<longleftrightarrow> f64_le x y \<and> \<not> f64_le y x"

definition f64_of_u64 :: "u64 \<Rightarrow> float64" where
  "f64_of_u64 w = f64 (of_nat (unat w))"

definition f64_of_u32 :: "u32 \<Rightarrow> float64" where
  "f64_of_u32 w = f64 (of_nat (unat w))"

text \<open>
  \<open>uint64(x)\<close> drops the fraction. Where the value does not fit, Go leaves the result to the
  implementation: that result is the argument \<open>oor\<close>.
\<close>

definition f64_to_u64 :: "(float64 \<Rightarrow> u64) \<Rightarrow> float64 \<Rightarrow> u64" where
  "f64_to_u64 oor x = (case x of
       Fin q \<Rightarrow> (if - 1 < q \<and> q < 2 ^ 64 then (if q < 0 then 0 else word_of_int \<lfloor>q\<rfloor>) else oor x)
     | _ \<Rightarrow> oor x)"

text \<open>\<open>math.Round\<close>: to the nearest integer, ties away from zero.\<close>

definition f64_Round :: "float64 \<Rightarrow> float64" where
  "f64_Round x = (case x of
       Fin q \<Rightarrow> Fin (if 0 \<le> q then of_int \<lfloor>q + 1 / 2\<rfloor> else - of_int \<lfloor>- q + 1 / 2\<rfloor>)
     | _ \<Rightarrow> x)"

text \<open>
  \<open>math.Sqrt\<close>, correctly rounded: the integer square root of the argument, scaled to at least 55
  bits, with a half unit added when it is not exact, rounds as the exact root does.
\<close>

fun isqrt_aux :: "nat \<Rightarrow> int \<Rightarrow> int \<Rightarrow> int" where
  "isqrt_aux 0 n r = r"
| "isqrt_aux (Suc k) n r =
     (let r' = r + 2 ^ k in isqrt_aux k n (if r' * r' \<le> n then r' else r))"

definition isqrt :: "int \<Rightarrow> int" where
  "isqrt n = isqrt_aux (nat (bitlen n)) n 0"

definition sqrt_scale :: "rat \<Rightarrow> int" where
  "sqrt_scale q = 56 - ilog2 q div 2"

definition sqrt_point :: "rat \<Rightarrow> rat" where
  "sqrt_point q =
     (let s = sqrt_scale q; t = q * 4 powi s; m = isqrt \<lfloor>t\<rfloor>
      in (of_int m + (if of_int (m * m) = t then 0 else 1 / 2)) / 2 powi s)"

fun f64_Sqrt :: "float64 \<Rightarrow> float64" where
  "f64_Sqrt (Fin q) = (if q < 0 then NaN else if q = 0 then Fin 0 else f64 (sqrt_point q))"
| "f64_Sqrt PosInf = PosInf"
| "f64_Sqrt NegInf = NaN"
| "f64_Sqrt NaN = NaN"

section \<open>Rounding is monotone and keeps representable numbers\<close>

lemma powi_add2: "(2::rat) powi (a + b) = 2 powi a * 2 powi b"
  by (simp add: power_int_add)

lemma powi_pos [simp]: "0 < (2::rat) powi k"
  by (simp add: zero_less_power_int)

lemma powi_not_neg [simp]: "\<not> (2::rat) powi k < 0"
  using powi_pos [of k] by linarith

lemma powi_nat: "0 \<le> k \<Longrightarrow> (2::rat) powi k = of_int (2 ^ nat k)"
  by (simp add: power_int_def)

lemma powi_split:
  assumes "u \<le> e"
  shows "(2::rat) powi e = of_int (2 ^ nat (e - u)) * 2 powi u"
  using assms powi_add2 [of "e - u" u] powi_nat [of "e - u"] by simp

lemma powi_mono2: "a \<le> b \<Longrightarrow> (2::rat) powi a \<le> 2 powi b"
  by (rule power_int_increasing) auto

lemma powi_strict2: "(2::rat) powi a < 2 powi b \<Longrightarrow> a < b"
  by (metis linorder_not_le powi_mono2)

text \<open>Code equations with powers of two as shifts, for the evaluation of concrete numbers.\<close>

lemma powi_code: "(2::rat) powi k = (if 0 \<le> k then of_int (push_bit (nat k) 1) else 1 / of_int (push_bit (nat (- k)) 1))"
  by (simp add: power_int_def push_bit_eq_mult inverse_eq_divide power_one_over)

lemma rnd_code [code]:
  "rnd q = (if q = 0 then 0
     else let e = ulp_exp q
       in if 0 \<le> e then let p = of_int (push_bit (nat e) 1) in of_int (rne (q / p)) * p
          else let p = of_int (push_bit (nat (- e)) 1) in of_int (rne (q * p)) / p)"
  by (simp add: rnd_def Let_def powi_code)

lemma ilog2_code [code]:
  "ilog2 q =
     (let (n, d) = quotient_of q; k = bitlen n - bitlen d
      in if (if 0 \<le> k then push_bit (nat k) d \<le> n else d \<le> push_bit (nat (- k)) n) then k else k - 1)"
proof -
  obtain n d where nd: "quotient_of q = (n, d)" by fastforce
  then have d: "0 < d" and q: "q = of_int n / of_int d" 
    using quotient_of_denom_pos quotient_of_div by blast+
  have "(2::rat) powi k \<le> q \<longleftrightarrow> (if 0 \<le> k then push_bit (nat k) d \<le> n else d \<le> push_bit (nat (- k)) n)" for k
  proof (cases "0 \<le> k")
    case True
    have "(2::rat) powi k \<le> q \<longleftrightarrow> (of_int (2 ^ nat k * d) :: rat) \<le> of_int n"
      using d True by (simp add: q powi_code push_bit_eq_mult field_simps)
    with True show ?thesis by (simp only: of_int_le_iff push_bit_eq_mult mult.commute if_True)
  next
    case False
    have "(2::rat) powi k \<le> q \<longleftrightarrow> (of_int d :: rat) \<le> of_int (n * 2 ^ nat (- k))"
      using d False by (simp add: q powi_code push_bit_eq_mult field_simps)
    with False show ?thesis by (simp only: of_int_le_iff push_bit_eq_mult mult.commute if_False)
  qed
  then show ?thesis by (simp add: ilog2_def nd Let_def)
qed

lemma powi_bitlen:
  assumes "0 < n"
  shows "(2::rat) powi (bitlen n - 1) \<le> of_int n" "of_int n < (2::rat) powi bitlen n"
proof -
  have b: "0 < bitlen n" using assms by (simp add: bitlen_nonneg order_less_le bitlen_eq_zero_iff)
  from bitlen_bounds [OF assms] have
    "2 ^ nat (bitlen n - 1) \<le> n" "n < 2 ^ nat (bitlen n)" by auto
  then have "of_int (2 ^ nat (bitlen n - 1)) \<le> (of_int n :: rat)"
    "(of_int n :: rat) < of_int (2 ^ nat (bitlen n))"
    by (simp_all only: of_int_le_iff of_int_less_iff)
  with b show "(2::rat) powi (bitlen n - 1) \<le> of_int n" "of_int n < (2::rat) powi bitlen n"
    by (simp_all add: powi_nat)
qed

lemma ilog2_bounds:
  assumes "0 < q"
  shows "2 powi ilog2 q \<le> q" and "q < 2 powi (ilog2 q + 1)"
proof -
  obtain n d where nd: "quotient_of q = (n, d)" by (cases "quotient_of q")
  then have d: "0 < d" and q: "q = of_int n / of_int d"
    using quotient_of_denom_pos quotient_of_div by blast+
  with assms have n: "0 < n" by (simp add: zero_less_divide_iff)
  define k where "k = bitlen n - bitlen d"
  have "q < 2 powi bitlen n / 2 powi (bitlen d - 1)"
    unfolding q using powi_bitlen [OF n] powi_bitlen [OF d] d n
    by (intro frac_less) auto
  also have "\<dots> = 2 powi (k + 1)"
    by (simp add: k_def flip: power_int_diff) (simp add: algebra_simps)
  finally have up: "q < 2 powi (k + 1)" .
  have "2 powi (k - 1) = 2 powi (bitlen n - 1) / (2::rat) powi bitlen d"
    by (simp add: k_def flip: power_int_diff) (simp add: algebra_simps)
  also have "\<dots> \<le> q"
    unfolding q using powi_bitlen [OF n] powi_bitlen [OF d] d n
    by (intro frac_le) auto
  finally have lo: "2 powi (k - 1) \<le> q" .
  have "ilog2 q = (if 2 powi k \<le> q then k else k - 1)"
    by (simp add: ilog2_def nd k_def)
  with up lo show "2 powi ilog2 q \<le> q" "q < 2 powi (ilog2 q + 1)"
    by (auto split: if_splits)
qed

lemma ilog2_mono:
  assumes "0 < p" "p \<le> q"
  shows "ilog2 p \<le> ilog2 q"
proof -
  have "(2::rat) powi ilog2 p < 2 powi (ilog2 q + 1)"
    using ilog2_bounds [OF assms(1)] ilog2_bounds [of q] assms by linarith
  then show ?thesis using powi_strict2 by fastforce
qed

lemma rne_of_int [simp]: "rne (of_int z) = z"
  by (simp add: rne_def)

lemma rne_floor: "\<lfloor>x\<rfloor> \<le> rne x" "rne x \<le> \<lfloor>x\<rfloor> + 1"
  by (simp_all add: rne_def Let_def)

lemma rne_mono:
  assumes "x \<le> y"
  shows "rne x \<le> rne y"
proof (cases "\<lfloor>x\<rfloor> = \<lfloor>y\<rfloor>")
  case True
  with assms show ?thesis by (auto simp: rne_def Let_def)
next
  case False
  with floor_mono [OF assms] have "\<lfloor>x\<rfloor> + 1 \<le> \<lfloor>y\<rfloor>" by simp
  then show ?thesis using rne_floor [of x] rne_floor [of y] by linarith
qed

lemma ulp_exp_min: "- 1074 \<le> ulp_exp q"
  by (simp add: ulp_exp_def)

lemma rnd_0 [simp]: "rnd 0 = 0"
  by (simp add: rnd_def)

lemma rnd_nonneg: "0 \<le> q \<Longrightarrow> 0 \<le> rnd q"
  using rne_mono [of 0 "q / 2 powi ulp_exp q"] rne_of_int [of 0]
  by (simp add: rnd_def)

text \<open>A multiple of a power of two, on either side, is a bound for the rounded value.\<close>

lemma rnd_le_grid:
  assumes "0 < x" "x \<le> of_int m * 2 powi e" "ulp_exp x \<le> e"
  shows "rnd x \<le> of_int m * 2 powi e"
proof -
  define u where "u = ulp_exp x"
  have e: "(2::rat) powi e = of_int (2 ^ nat (e - u)) * 2 powi u"
    using assms(3) by (simp only: u_def powi_split)
  have "x / 2 powi u \<le> of_int (m * 2 ^ nat (e - u))"
    using assms(2) by (simp add: e pos_divide_le_eq mult.assoc)
  from rne_mono [OF this] have "rne (x / 2 powi u) \<le> m * 2 ^ nat (e - u)"
    by (simp only: rne_of_int)
  then have "of_int (rne (x / 2 powi u)) \<le> (of_int (m * 2 ^ nat (e - u)) :: rat)"
    by (simp only: of_int_le_iff)
  then have "of_int (rne (x / 2 powi u)) * 2 powi u \<le> (of_int (m * 2 ^ nat (e - u)) :: rat) * 2 powi u"
    by (rule mult_right_mono) (simp add: less_imp_le)
  with assms(1) show ?thesis by (simp add: rnd_def e u_def mult.assoc)
qed

lemma rnd_ge_grid:
  assumes "0 < x" "of_int m * 2 powi e \<le> x" "ulp_exp x \<le> e"
  shows "of_int m * 2 powi e \<le> rnd x"
proof -
  define u where "u = ulp_exp x"
  have e: "(2::rat) powi e = of_int (2 ^ nat (e - u)) * 2 powi u"
    using assms(3) by (simp only: u_def powi_split)
  have "of_int (m * 2 ^ nat (e - u)) \<le> x / 2 powi u"
    using assms(2) by (simp add: e pos_le_divide_eq mult.assoc)
  from rne_mono [OF this] have "m * 2 ^ nat (e - u) \<le> rne (x / 2 powi u)"
    by (simp only: rne_of_int)
  then have "(of_int (m * 2 ^ nat (e - u)) :: rat) \<le> of_int (rne (x / 2 powi u))"
    by (simp only: of_int_le_iff)
  then have "(of_int (m * 2 ^ nat (e - u)) :: rat) * 2 powi u \<le> of_int (rne (x / 2 powi u)) * 2 powi u"
    by (rule mult_right_mono) (simp add: less_imp_le)
  with assms(1) show ?thesis by (simp add: rnd_def e u_def mult.assoc)
qed

lemma rnd_mono:
  assumes "0 \<le> x" "x \<le> y"
  shows "rnd x \<le> rnd y"
proof (cases "x = 0")
  case True
  with assms show ?thesis by (simp add: rnd_nonneg)
next
  case False
  with assms have x: "0 < x" and y: "0 < y" by auto
  have le: "ulp_exp x \<le> ulp_exp y"
    using ilog2_mono [OF x assms(2)] x y by (simp add: ulp_exp_def)
  show ?thesis
  proof (cases "ulp_exp x = ulp_exp y")
    case True
    have "rne (x / 2 powi ulp_exp x) \<le> rne (y / 2 powi ulp_exp x)"
      using assms(2) by (intro rne_mono divide_right_mono) (auto simp: less_imp_le)
    then show ?thesis using x y True by (simp add: rnd_def less_imp_le mult_right_mono)
  next
    case False
    define e where "e = ulp_exp y"
    have ey: "ilog2 y = e + 52" using le False ulp_exp_min [of x] y
      by (auto simp: ulp_exp_def e_def max_def split: if_splits)
    have "ilog2 x + 1 \<le> e + 52" using le False x by (auto simp: ulp_exp_def e_def)
    then have "x < of_int (2 ^ 52) * 2 powi e"
      using ilog2_bounds(2) [OF x] powi_mono2 [of "ilog2 x + 1" "e + 52"]
      by (simp add: powi_add2 mult.commute)
    then have "rnd x \<le> of_int (2 ^ 52) * 2 powi e"
      using le x by (intro rnd_le_grid) (auto simp: e_def)
    also have "\<dots> \<le> rnd y"
      using ilog2_bounds(1) [OF y] y
      by (intro rnd_ge_grid) (auto simp: e_def [symmetric] ey powi_add2 mult.commute)
    finally show ?thesis .
  qed
qed

lemma rnd_exact:
  assumes "0 \<le> m" "m < 2 ^ 53" "- 1074 \<le> e"
  shows "rnd (of_int m * 2 powi e) = of_int m * 2 powi e"
proof (cases "m = 0")
  case False
  define x where "x = (of_int m :: rat) * 2 powi e"
  have x: "0 < x" using assms(1) False by (simp add: x_def)
  have "(of_int m :: rat) < of_int (2 ^ 53)" using assms(2) by (simp only: of_int_less_iff)
  then have "x < 2 powi (e + 53)"
    by (simp add: x_def powi_add2 mult.commute)
  with ilog2_bounds(1) [OF x] have "(2::rat) powi ilog2 x < 2 powi (e + 53)" by linarith
  then have "ilog2 x < e + 53" by (rule powi_strict2)
  then have "ulp_exp x \<le> e" using x assms(3) by (simp add: ulp_exp_def)
  with x rnd_le_grid [of x m e] rnd_ge_grid [of x m e] show ?thesis
    by (simp add: x_def)
qed simp

lemma rnd_grid:
  assumes "0 \<le> q"
  obtains m e where "rnd q = of_int m * 2 powi e" "0 \<le> m" "m < 2 ^ 53" "- 1074 \<le> e"
proof (cases "q = 0")
  case True
  with that [of 0 0] show ?thesis by simp
next
  case False
  with assms have q: "0 < q" by simp
  define u m where "u = ulp_exp q" and "m = rne (q / 2 powi u)"
  have r: "rnd q = of_int m * 2 powi u" using q by (simp add: rnd_def u_def m_def)
  have m0: "0 \<le> m" using rne_mono [of 0 "q / 2 powi u"] rne_of_int [of 0] q by (simp add: m_def)
  have "ilog2 q + 1 \<le> 53 + u" using q by (simp add: u_def ulp_exp_def)
  then have "q < of_int (2 ^ 53) * 2 powi u"
    using ilog2_bounds(2) [OF q] powi_mono2 [of "ilog2 q + 1" "53 + u"] by (simp add: powi_add2)
  then have "q / 2 powi u \<le> of_int (2 ^ 53)" by (simp add: pos_divide_le_eq less_imp_le)
  from rne_mono [OF this] have m53: "m \<le> 2 ^ 53" by (simp only: m_def rne_of_int)
  show ?thesis
  proof (cases "m = 2 ^ 53")
    case True
    have "rnd q = of_int (2 ^ 52) * 2 powi (u + 1)" by (simp add: r True powi_add2)
    with that [of "2 ^ 52" "u + 1"] ulp_exp_min [of q] show ?thesis by (simp add: u_def)
  next
    case False
    with m53 that [OF r m0] ulp_exp_min [of q] show ?thesis by (simp add: u_def)
  qed
qed

lemma rnd_idem:
  assumes "0 \<le> q"
  shows "rnd (rnd q) = rnd q"
proof -
  from rnd_grid [OF assms] obtain m e where
    "rnd q = of_int m * 2 powi e" "0 \<le> m" "m < 2 ^ 53" "- 1074 \<le> e" .
  then show ?thesis by (simp add: rnd_exact)
qed

lemma rnd_int: "0 \<le> n \<Longrightarrow> n < 2 ^ 53 \<Longrightarrow> rnd (of_int n) = of_int n"
  using rnd_exact [of n 0] by simp

lemma rnd_nat: "n < 2 ^ 53 \<Longrightarrow> rnd (of_nat n) = of_nat n"
  using rnd_int [of "int n"] by simp

locale rounding =
  fixes r :: "rat \<Rightarrow> rat"
  assumes r_zero: "r 0 = 0"
    and r_mono: "0 \<le> x \<Longrightarrow> x \<le> y \<Longrightarrow> r x \<le> r y"
    and r_idem: "0 \<le> x \<Longrightarrow> r (r x) = r x"
begin

lemma r_nonneg: "0 \<le> x \<Longrightarrow> 0 \<le> r x"
  using r_mono [of 0 x] by (simp add: r_zero)

text \<open>Rounding never crosses a representable number.\<close>

lemma r_le_fix: "0 \<le> x \<Longrightarrow> x \<le> y \<Longrightarrow> r y = y \<Longrightarrow> r x \<le> y"
  using r_mono by metis

lemma r_ge_fix: "0 \<le> y \<Longrightarrow> y \<le> x \<Longrightarrow> r y = y \<Longrightarrow> y \<le> r x"
  using r_mono by metis

lemma r_add_ge: "0 \<le> t \<Longrightarrow> 0 \<le> b \<Longrightarrow> r t = t \<Longrightarrow> t \<le> r (t + b)"
  by (rule r_ge_fix) auto

lemma r_scale_le: "0 \<le> c \<Longrightarrow> c \<le> 1 \<Longrightarrow> 0 \<le> t \<Longrightarrow> r t = t \<Longrightarrow> r (c * t) \<le> t"
  by (rule r_le_fix) (auto simp: mult_left_le_one_le)

lemma r_scale_mono: "0 \<le> c \<Longrightarrow> c \<le> d \<Longrightarrow> 0 \<le> t \<Longrightarrow> r (c * t) \<le> r (d * t)"
  by (rule r_mono) (auto intro: mult_right_mono)

end

interpretation f64_rounding: rounding rnd
  by unfold_locales (simp_all add: rnd_mono rnd_idem)

section \<open>Non-negative numbers\<close>

definition f64_nonneg :: "float64 \<Rightarrow> bool" where
  "f64_nonneg x = (case x of Fin q \<Rightarrow> 0 \<le> q \<and> rnd q = q \<and> q < f64_max | PosInf \<Rightarrow> True | _ \<Rightarrow> False)"

lemma f64_nonneg_cases [consumes 1, case_names Fin PosInf]:
  assumes "f64_nonneg x"
  obtains q where "x = Fin q" "0 \<le> q" "rnd q = q" "q < f64_max" | "x = PosInf"
  using assms by (cases x) (auto simp: f64_nonneg_def)

lemma f64_max_pos: "0 < f64_max"
  by (simp add: f64_max_def)

lemma f64_pos: "0 \<le> q \<Longrightarrow> f64 q = (if f64_max \<le> rnd q then PosInf else Fin (rnd q))"
  using rnd_nonneg [of q] f64_max_pos by (auto simp: f64_def Let_def)

lemma f64_nonneg_f64 [simp]: "0 \<le> q \<Longrightarrow> f64_nonneg (f64 q)"
  by (auto simp: f64_pos f64_nonneg_def rnd_nonneg rnd_idem)

lemma f64_nonneg_0 [simp]: "f64_nonneg (Fin 0)"
  by (simp add: f64_nonneg_def f64_max_pos)

lemma f64_mono: "0 \<le> x \<Longrightarrow> x \<le> y \<Longrightarrow> f64_le (f64 x) (f64 y)"
  using rnd_mono [of x y] by (auto simp: f64_pos)

lemma f64_le_refl: "f64_nonneg x \<Longrightarrow> f64_le x x"
  by (cases x) (auto simp: f64_nonneg_def)

lemma f64_le_trans: "f64_le x y \<Longrightarrow> f64_le y z \<Longrightarrow> f64_le x z"
  by (cases x; cases y; cases z) auto

lemma f64_le_total: "f64_nonneg x \<Longrightarrow> f64_nonneg y \<Longrightarrow> f64_le x y \<or> f64_le y x"
  by (cases x; cases y) (auto simp: f64_nonneg_def)

lemma f64_nonneg_ge_0: "f64_nonneg x \<Longrightarrow> f64_le (Fin 0) x"
  by (cases x) (auto simp: f64_nonneg_def)

lemma f64_nonneg_add [simp]: "f64_nonneg x \<Longrightarrow> f64_nonneg y \<Longrightarrow> f64_nonneg (f64_add x y)"
  by (elim f64_nonneg_cases) (auto simp: f64_nonneg_def [of PosInf])

lemma f64_add_ge:
  assumes "f64_nonneg x" "f64_nonneg y"
  shows "f64_le x (f64_add x y)"
  using assms by (elim f64_nonneg_cases) (auto simp: f64_pos f64_rounding.r_add_ge)

lemma f64_mul_commute: "f64_mul x y = f64_mul y x"
  by (cases x; cases y) (simp_all add: mult.commute)

lemma f64_nonneg_mul_pos [simp]: "0 < c \<Longrightarrow> f64_nonneg x \<Longrightarrow> f64_nonneg (f64_mul (Fin c) x)"
  by (elim f64_nonneg_cases) (auto simp: f64_nonneg_def [of PosInf])

lemma f64_mul_le_self:
  assumes "0 < c" "c \<le> 1" "f64_nonneg x"
  shows "f64_le (f64_mul (Fin c) x) x"
  using assms(3)
proof (cases rule: f64_nonneg_cases)
  case (Fin q)
  then have "rnd (c * q) \<le> q" using assms by (intro f64_rounding.r_scale_le) auto
  with Fin assms show ?thesis by (auto simp: f64_pos)
qed (use assms in auto)

lemma f64_mul_mono:
  assumes "0 < c" "c \<le> d" "f64_nonneg x"
  shows "f64_le (f64_mul (Fin c) x) (f64_mul (Fin d) x)"
  using assms(3)
proof (cases rule: f64_nonneg_cases)
  case (Fin q)
  with assms show ?thesis by (auto intro!: f64_mono mult_right_mono)
qed (use assms in auto)

lemma f64_of_u64_nonneg [simp]: "f64_nonneg (f64_of_u64 w)"
  unfolding f64_of_u64_def by (rule f64_nonneg_f64) (rule of_nat_0_le_iff)

lemma f64_of_u64_exact: "unat w < 2 ^ 53 \<Longrightarrow> f64_of_u64 w = Fin (of_nat (unat w))"
proof -
  assume w: "unat w < 2 ^ 53"
  have "(of_nat (unat w) :: rat) < of_nat (2 ^ 53)" by (simp only: of_nat_less_iff w)
  also have "\<dots> = 2 ^ 53" by (simp only: of_nat_power of_nat_numeral)
  also have "\<dots> \<le> (2 :: rat) ^ 1024" by (rule power_increasing) auto
  finally have "(of_nat (unat w) :: rat) < f64_max" by (simp only: f64_max_def)
  then show ?thesis
    using rnd_nat [OF w] f64_pos [of "of_nat (unat w)"] by (simp add: f64_of_u64_def del: of_nat_unat)
qed

section \<open>Square roots\<close>

lemma isqrt_aux_correct:
  "0 \<le> r \<Longrightarrow> r * r \<le> n \<Longrightarrow> n < (r + 2 ^ k) * (r + 2 ^ k) \<Longrightarrow>
   0 \<le> isqrt_aux k n r \<and> isqrt_aux k n r * isqrt_aux k n r \<le> n \<and>
   n < (isqrt_aux k n r + 1) * (isqrt_aux k n r + 1)"
proof (induction k arbitrary: r)
  case (Suc k)
  show ?case
  proof (cases "(r + 2 ^ k) * (r + 2 ^ k) \<le> n")
    case True
    with Suc.prems Suc.IH [of "r + 2 ^ k"] show ?thesis by (simp add: Let_def add.assoc)
  next
    case False
    with Suc.prems Suc.IH [of r] show ?thesis by (simp add: Let_def)
  qed
qed simp

lemma isqrt_correct:
  assumes "0 \<le> n"
  shows "0 \<le> isqrt n" "isqrt n * isqrt n \<le> n" "n < (isqrt n + 1) * (isqrt n + 1)"
proof -
  have "n < 2 ^ nat (bitlen n)" using bitlen_bounds [of n] assms by (cases "n = 0") auto
  also have "\<dots> \<le> 2 ^ nat (bitlen n) * 2 ^ nat (bitlen n)"
    by (simp add: mult_le_cancel_left1)
  finally have "n < (0 + 2 ^ nat (bitlen n)) * (0 + 2 ^ nat (bitlen n))" by simp
  with assms isqrt_aux_correct [of 0 n "nat (bitlen n)"]
  show "0 \<le> isqrt n" "isqrt n * isqrt n \<le> n" "n < (isqrt n + 1) * (isqrt n + 1)"
    by (simp_all add: isqrt_def)
qed

text \<open>
  \<open>sqrt_point\<close> compares with every number of its grid as the exact square root does. The
  53-bit numbers next to the root and the midpoints between them are numbers of the grid, so
  rounding \<open>sqrt_point\<close> is rounding the root.
\<close>

lemma sqrt_point_le_grid:
  assumes "0 < q" "0 \<le> k" and b: "b = of_int k / 2 powi sqrt_scale q"
  shows "sqrt_point q \<le> b \<longleftrightarrow> q \<le> b * b"
proof -
  define s t m where "s = sqrt_scale q" and "t = q * 4 powi s" and "m = isqrt \<lfloor>t\<rfloor>"
  have p4: "(4::rat) powi s = 2 powi s * 2 powi s"
    by (simp flip: power_int_mult_distrib)
  have t0: "0 \<le> t" using assms(1) by (simp add: t_def p4)
  note m = isqrt_correct [of "\<lfloor>t\<rfloor>"]
  have m0: "0 \<le> m" and m1: "m * m \<le> \<lfloor>t\<rfloor>" and m2: "\<lfloor>t\<rfloor> < (m + 1) * (m + 1)"
    using m t0 by (simp_all add: m_def)
  have lo: "of_int (m * m) \<le> t" using m1 by (simp only: le_floor_iff)
  have hi: "t < of_int ((m + 1) * (m + 1))" using m2 by (simp only: floor_less_iff)
  have "q \<le> b * b \<longleftrightarrow> t \<le> of_int (k * k)"
    by (simp add: b t_def p4 s_def [symmetric] field_simps)
  moreover have "sqrt_point q \<le> b \<longleftrightarrow> of_int m + (if of_int (m * m) = t then 0 else 1 / 2) \<le> (of_int k :: rat)"
    by (simp add: sqrt_point_def Let_def b s_def [symmetric] t_def [symmetric] m_def [symmetric]
        divide_le_cancel)
  moreover have "(of_int m + (if of_int (m * m) = t then 0 else 1 / 2) \<le> (of_int k :: rat)) \<longleftrightarrow>
     t \<le> of_int (k * k)"
  proof (cases "of_int (m * m) = t")
    case True
    have "m \<le> k \<longleftrightarrow> m * m \<le> k * k"
      using power_mono_iff [of m k 2] m0 assms(2) by (simp add: power2_eq_square)
    moreover have "t \<le> of_int (k * k) \<longleftrightarrow> m * m \<le> k * k"
      unfolding True [symmetric] by (simp only: of_int_le_iff)
    ultimately show ?thesis using True by simp
  next
    case False
    have "(of_int m + 1 / 2 \<le> (of_int k :: rat)) \<longleftrightarrow> m + 1 \<le> k"
    proof (cases "m + 1 \<le> k")
      case True
      then have "of_int (m + 1) \<le> (of_int k :: rat)" by (simp only: of_int_le_iff)
      with True show ?thesis by simp
    next
      case False
      then have "(of_int k :: rat) \<le> of_int m" by simp
      with False show ?thesis by simp
    qed
    moreover have "m + 1 \<le> k \<longleftrightarrow> t \<le> of_int (k * k)"
    proof
      assume "m + 1 \<le> k"
      then have "(m + 1) * (m + 1) \<le> k * k" using m0 by (intro mult_mono) auto
      with hi show "t \<le> of_int (k * k)" by (meson less_le_trans less_imp_le of_int_le_iff)
    next
      assume tk: "t \<le> of_int (k * k)"
      show "m + 1 \<le> k"
      proof (rule ccontr)
        assume "\<not> m + 1 \<le> k"
        then have "k * k \<le> m * m" using assms(2) by (intro mult_mono) auto
        then have "(of_int (k * k) :: rat) \<le> of_int (m * m)" by (simp only: of_int_le_iff)
        with tk lo False show False by linarith
      qed
    qed
    ultimately show ?thesis using False by simp
  qed
  ultimately show ?thesis by blast
qed

lemma sqrt_point_nonneg:
  assumes "0 < q"
  shows "0 \<le> sqrt_point q"
proof -
  have "0 \<le> isqrt \<lfloor>q * 4 powi sqrt_scale q\<rfloor>"
    using assms by (intro isqrt_correct) (simp add: zero_le_power_int)
  then show ?thesis by (simp add: sqrt_point_def Let_def less_imp_le)
qed

lemma f64_Sqrt_nonneg [simp]: "f64_nonneg x \<Longrightarrow> f64_nonneg (f64_Sqrt x)"
  by (elim f64_nonneg_cases) (auto simp: sqrt_point_nonneg f64_nonneg_def [of PosInf])

lemma f64_Sqrt_le_1:
  assumes "0 \<le> q" "q \<le> 1"
  shows "f64_le (f64_Sqrt (Fin q)) (Fin 1)"
proof (cases "q = 0")
  case False
  with assms(1) have q: "0 < q" by simp
  have "ilog2 q \<le> 0" using ilog2_mono [OF q assms(2)] by (simp add: ilog2_def)
  then have s: "0 \<le> sqrt_scale q" by (simp add: sqrt_scale_def)
  have "sqrt_point q \<le> 1"
    using sqrt_point_le_grid [OF q, of "2 ^ nat (sqrt_scale q)" 1] assms(2) s
    by (simp add: powi_nat)
  then have "rnd (sqrt_point q) \<le> 1"
    using rnd_int [of 1] sqrt_point_nonneg [OF q] by (intro f64_rounding.r_le_fix) auto
  then show ?thesis using q sqrt_point_nonneg [OF q]
    by (auto simp: f64_pos f64_max_def)
qed simp

end
