(* ===== verification/Gas_Fee.thy ===== *)
theory Gas_Fee
  imports Go_Float64
begin

text \<open>
  The fee arithmetic of the analyzer (\<open>internal/gasanalyzer/fee.go\<close>): the effective tip of a
  transaction under a base fee, the base fee of the next block, and the weight of a transaction
  by its share of the block gas. A result with an \<open>ok\<close> flag is a pair; a nil \<open>*big.Int\<close> is
  \<open>None\<close>; the division by a zero \<open>big.Int\<close> is a panic.
\<close>

section \<open>Definitions\<close>

definition EffectiveTip :: "u64 \<Rightarrow> u64 \<Rightarrow> u64 \<Rightarrow> u64 \<times> bool" where
  "EffectiveTip feeCap tipCap baseFee =
     (if feeCap \<le> baseFee then (0, False)
      else
        let diff = feeCap - baseFee
        in if diff > tipCap then (tipCap, True) else (diff, True))"

definition EffectiveTipFromReceipt :: "int option \<Rightarrow> int option \<Rightarrow> u64 \<times> bool" where
  "EffectiveTipFromReceipt effectiveGasPrice baseFee =
     (case (effectiveGasPrice, baseFee) of
        (Some price, Some base) \<Rightarrow>
          let tip = price - base
          in if sgn tip \<le> 0 then (0, False)
             else if \<not> big_IsUint64 tip then (0, False)
             else (big_Uint64 tip, True)
      | _ \<Rightarrow> (0, False))"

text \<open>\<open>(*big.Int).Div\<close> is Euclidean; for a positive divisor it is \<open>div\<close>.\<close>

definition big_Div :: "int \<Rightarrow> int \<Rightarrow> int go" where
  "big_Div x y =
     (if y = 0 then panic else if y < 0 then ret (- (x div - y)) else ret (x div y))"

definition CalculateNextBaseFee :: "int option \<Rightarrow> u64 \<Rightarrow> u64 \<Rightarrow> int go" where
  "CalculateNextBaseFee baseFee gasUsed gasLimit =
     (case baseFee of
        None \<Rightarrow> ret 1000000000
      | Some fee \<Rightarrow>
          let targetGas = gasLimit div 2
          in if gasUsed = targetGas then ret fee
             else do {
               nextBaseFee \<leftarrow>
                 (if gasUsed > targetGas then do {
                    diff \<leftarrow> big_Div (fee * uint (gasUsed - targetGas)) (uint targetGas);
                    diff \<leftarrow> big_Div diff 8;
                    ret (fee + (if sgn diff = 0 then 1 else diff))
                  }
                  else do {
                    diff \<leftarrow> big_Div (fee * uint (targetGas - gasUsed)) (uint targetGas);
                    diff \<leftarrow> big_Div diff 8;
                    ret (fee - diff)
                  });
               ret (if sgn nextBaseFee < 0 then 0 else nextBaseFee)
             })"

definition CalculateWeightForGasUsed :: "u64 \<Rightarrow> u64 \<Rightarrow> float64" where
  "CalculateWeightForGasUsed gasUsed gasLimit =
     (if gasLimit = 0 then Fin 0
      else f64_Sqrt (f64_div (f64_of_u64 gasUsed) (f64_of_u64 gasLimit)))"

section \<open>Effective tips\<close>

lemma EffectiveTip_ok:
  assumes "EffectiveTip feeCap tipCap baseFee = (tip, True)"
  shows "baseFee < feeCap" "tip = min tipCap (feeCap - baseFee)"
    "unat baseFee + unat tip \<le> unat feeCap"
proof -
  from assms show lt: "baseFee < feeCap" and tip: "tip = min tipCap (feeCap - baseFee)"
    by (auto simp: EffectiveTip_def Let_def min_def split: if_splits)
  have "unat tip \<le> unat (feeCap - baseFee)" by (simp add: tip word_le_nat_alt [symmetric])
  also have "\<dots> = unat feeCap - unat baseFee" using lt by (simp add: unat_sub)
  finally show "unat baseFee + unat tip \<le> unat feeCap"
    using lt by (simp add: word_less_nat_alt)
qed

text \<open>
  Effective tip. A transaction has a tip exactly when its fee cap exceeds the base fee; the
  tip is then the smaller of the tip cap and what the fee cap leaves over the base fee, computed
  with no wrap-around, so base fee plus tip never exceeds the fee cap.
\<close>

theorem EffectiveTip_spec:
  "EffectiveTip feeCap tipCap baseFee =
     (if unat feeCap \<le> unat baseFee then (0, False)
      else (of_nat (min (unat tipCap) (unat feeCap - unat baseFee)), True)) \<and>
   unat (fst (EffectiveTip feeCap tipCap baseFee)) \<le> unat feeCap - unat baseFee"
proof (cases "feeCap \<le> baseFee")
  case True
  then show ?thesis by (simp add: EffectiveTip_def word_le_nat_alt)
next
  case False
  then have d: "unat (feeCap - baseFee) = unat feeCap - unat baseFee"
    by (intro unat_sub) simp
  show ?thesis
  proof (cases "tipCap < feeCap - baseFee")
    case True
    then have "unat tipCap < unat feeCap - unat baseFee" by (simp add: word_less_nat_alt d)
    with True False show ?thesis by (simp add: EffectiveTip_def word_le_nat_alt min_def)
  next
    case tip: False
    then have le: "unat feeCap - unat baseFee \<le> unat tipCap" by (simp add: word_less_nat_alt d)
    have "of_nat (unat feeCap - unat baseFee) = feeCap - baseFee"
      by (simp flip: d)
    with tip False le d show ?thesis by (simp add: EffectiveTip_def word_le_nat_alt min_absorb2)
  qed
qed

text \<open>
  Tip of a receipt. The tip is reported exactly when both numbers are there and their
  difference is positive and fits 64 bits, and then it is that difference.
\<close>

theorem EffectiveTipFromReceipt_spec:
  "EffectiveTipFromReceipt p b = (tip, ok) \<longleftrightarrow>
     (if \<exists>price base. p = Some price \<and> b = Some base \<and> base < price \<and> price - base < 2 ^ 64
      then ok \<and> uint tip = the p - the b else \<not> ok \<and> tip = 0)"
proof (cases p; cases b)
  fix price base assume pb: "p = Some price" "b = Some base"
  show ?thesis
  proof (cases "base < price \<and> price - base < 2 ^ 64")
    case True
    then have fits: "big_IsUint64 (price - base)" by (simp add: big_IsUint64_def)
    have "big_Uint64 (price - base) = tip \<longleftrightarrow> uint tip = price - base"
      using big_Uint64_exact [OF fits] big_Uint64_uint by metis
    with True fits pb show ?thesis by (auto simp: EffectiveTipFromReceipt_def Let_def)
  next
    case False
    with pb show ?thesis
      by (auto simp: EffectiveTipFromReceipt_def big_IsUint64_def Let_def)
  qed
qed (auto simp: EffectiveTipFromReceipt_def)

section \<open>The base fee of the next block\<close>

text \<open>The update rule of EIP-1559 on integers.\<close>

definition eip1559 :: "int \<Rightarrow> int \<Rightarrow> int \<Rightarrow> int" where
  "eip1559 fee used limit =
     (let target = limit div 2
      in if used = target then fee
         else if used > target then fee + max 1 (fee * (used - target) div target div 8)
         else fee - fee * (target - used) div target div 8)"

lemma uint_half: "uint (g div 2) = uint (g :: u64) div 2"
  by (simp add: uint_div_distrib)

lemma CalculateNextBaseFee_eq:
  assumes "0 \<le> fee" "2 \<le> gasLimit"
  shows "CalculateNextBaseFee (Some fee) gasUsed gasLimit = Some (eip1559 fee (uint gasUsed) (uint gasLimit))"
proof -
  let ?t = "gasLimit div 2"
  have "2 \<le> uint gasLimit" using assms(2) by (simp add: word_le_def)
  then have t: "0 < uint ?t" by (simp add: uint_half)
  have eq: "gasUsed = ?t \<longleftrightarrow> uint gasUsed = uint ?t" by (simp add: word_uint_eq_iff)
  have lt: "?t < gasUsed \<longleftrightarrow> uint ?t < uint gasUsed" by (simp add: word_less_def)
  have gap: "uint (gasUsed - ?t) = uint gasUsed - uint ?t" if "uint ?t < uint gasUsed"
    using that by (simp add: uint_sub_if_size)
  have gap2: "uint (?t - gasUsed) = uint ?t - uint gasUsed" if "\<not> uint ?t < uint gasUsed"
    using that by (simp add: uint_sub_if_size)
  have up: "0 \<le> fee * g div uint ?t div 8" if "0 \<le> g" for g
    using assms(1) t that by (simp add: pos_imp_zdiv_nonneg_iff)
  have down: "fee * g div uint ?t div 8 \<le> fee" if "0 \<le> g" "g \<le> uint ?t" for g
  proof -
    have "fee * g div uint ?t \<le> fee * uint ?t div uint ?t"
      using assms(1) that t by (intro zdiv_mono1 mult_left_mono) auto
    with t assms(1) show ?thesis by simp
  qed
  show ?thesis
    using t up [of "uint gasUsed - uint ?t"] down [of "uint ?t - uint gasUsed"] assms(1)
    by (auto simp: CalculateNextBaseFee_def eip1559_def big_Div_def Let_def eq lt gap gap2 sgn_if
        uint_half [symmetric] max_def)
qed



text \<open>
  The one panic of the base fee rule. The code divides by zero exactly for a present base fee
  and a block with gas limit 0 or 1 that used gas; a missing base fee is one Gwei.
\<close>

theorem CalculateNextBaseFee_panics_iff:
  "(CalculateNextBaseFee baseFee gasUsed gasLimit = None \<longleftrightarrow>
      baseFee \<noteq> None \<and> gasLimit \<le> 1 \<and> gasUsed \<noteq> 0) \<and>
   CalculateNextBaseFee None gasUsed gasLimit = Some 1000000000"
proof -
  have zero: "gasLimit div 2 = 0 \<longleftrightarrow> gasLimit \<le> 1"
  proof -
    have "x div 2 = 0 \<longleftrightarrow> x \<le> 1" if "0 \<le> x" for x :: int using that by presburger
    from this [OF uint_ge_0 [of gasLimit]] show ?thesis
      by (simp add: word_uint_eq_iff [of "gasLimit div 2"] uint_half word_le_def)
  qed
  have "uint (gasLimit div 2) = 0 \<longleftrightarrow> gasLimit \<le> 1"
    using zero by (simp add: word_uint_eq_iff)
  with zero show ?thesis
    by (auto simp: CalculateNextBaseFee_def big_Div_def Let_def bind_eq_None_conv split: option.splits)
qed

section \<open>Weights\<close>

lemma f64_div_nonneg:
  assumes "f64_nonneg x" "f64_nonneg y" "x \<noteq> PosInf \<or> y \<noteq> PosInf" "y \<noteq> Fin 0"
  shows "f64_nonneg (f64_div x y)"
  using assms by (elim f64_nonneg_cases) (auto simp: f64_nonneg_def [of PosInf])

lemma f64_of_u64_finite:
  "\<exists>q. f64_of_u64 w = Fin q \<and> 0 \<le> q \<and> (w \<noteq> 0 \<longrightarrow> 1 \<le> q) \<and> rnd q = q"
proof -
  have "rnd (of_nat (unat w)) \<le> 2 ^ 64"
  proof (rule f64_rounding.r_le_fix)
    have "unat w < 2 ^ 64" using unsigned_less [of w] by simp
    then have "(of_nat (unat w) :: rat) \<le> of_nat (2 ^ 64)" by (simp only: of_nat_le_iff)
    then show "(of_nat (unat w) :: rat) \<le> 2 ^ 64" by simp
    show "rnd (2 ^ 64) = 2 ^ 64" using rnd_exact [of 1 64] by (simp add: power_int_def)
  qed (rule of_nat_0_le_iff)
  moreover have "(2::rat) ^ 64 < f64_max" by (simp add: f64_max_def)
  ultimately have f: "f64_of_u64 w = Fin (rnd (of_nat (unat w)))"
    by (simp add: f64_of_u64_def f64_pos del: of_nat_unat)
  have "1 \<le> rnd (of_nat (unat w))" if "w \<noteq> 0"
  proof (rule f64_rounding.r_ge_fix)
    have "1 \<le> unat w" using that by (simp add: unat_gt_0 Suc_leI)
    then show "(1::rat) \<le> of_nat (unat w)" by (metis of_nat_1 of_nat_le_iff)
    show "rnd 1 = 1" using rnd_int [of 1] by simp
  qed simp
  with f show ?thesis by (auto simp: rnd_nonneg rnd_idem simp del: of_nat_unat)
qed

lemma f64_of_u64_mono: "v \<le> w \<Longrightarrow> f64_le (f64_of_u64 v) (f64_of_u64 w)"
  unfolding f64_of_u64_def by (rule f64_mono) (auto simp: word_le_nat_alt simp del: of_nat_unat)

lemma weight_nonneg [simp]: "f64_nonneg (CalculateWeightForGasUsed gasUsed gasLimit)"
proof (cases "gasLimit = 0")
  case False
  obtain p q where "f64_of_u64 gasUsed = Fin p" "f64_of_u64 gasLimit = Fin q" "1 \<le> q"
    using f64_of_u64_finite [of gasUsed] f64_of_u64_finite [of gasLimit] False by blast
  then have "f64_nonneg (f64_div (f64_of_u64 gasUsed) (f64_of_u64 gasLimit))"
    by (intro f64_div_nonneg f64_of_u64_nonneg) auto
  with False show ?thesis by (simp add: CalculateWeightForGasUsed_def)
qed (simp add: CalculateWeightForGasUsed_def)

text \<open>
  Weight of a transaction. For gas within the block's gas limit the weight is a number of
  \<open>float64\<close> between 0 and 1: no NaN, no infinity, no negative number.
\<close>

theorem weight_in_unit_interval:
  assumes "gasUsed \<le> gasLimit"
  shows "\<exists>q. CalculateWeightForGasUsed gasUsed gasLimit = Fin q \<and> 0 \<le> q \<and> q \<le> 1"
proof (cases "gasLimit = 0")
  case False
  obtain p q where p: "f64_of_u64 gasUsed = Fin p" "0 \<le> p" and q: "f64_of_u64 gasLimit = Fin q" "1 \<le> q"
    using f64_of_u64_finite [of gasUsed] f64_of_u64_finite [of gasLimit] False by blast
  have "p \<le> q" using f64_of_u64_mono [OF assms] by (simp add: p q)
  then have pq: "0 \<le> p / q" "p / q \<le> 1" using p q by auto
  then have r: "rnd (p / q) \<le> 1" using rnd_int [of 1] by (intro f64_rounding.r_le_fix) auto
  then have "f64 (p / q) = Fin (rnd (p / q))" using pq by (simp add: f64_pos f64_max_def)
  then have w: "CalculateWeightForGasUsed gasUsed gasLimit = f64_Sqrt (Fin (rnd (p / q)))"
    using False p q by (simp add: CalculateWeightForGasUsed_def)
  have "f64_le (f64_Sqrt (Fin (rnd (p / q)))) (Fin 1)"
    using r pq by (intro f64_Sqrt_le_1 rnd_nonneg) auto
  then have "f64_le (CalculateWeightForGasUsed gasUsed gasLimit) (Fin 1)" unfolding w .
  moreover note weight_nonneg [of gasUsed gasLimit]
  ultimately show ?thesis
    by (cases "CalculateWeightForGasUsed gasUsed gasLimit") (simp_all add: f64_nonneg_def)
qed (simp add: CalculateWeightForGasUsed_def)

theorem weight_in_unit_interval_witness:
  "\<exists>q. CalculateWeightForGasUsed 300000 30000000 = Fin q \<and> 0 \<le> q \<and> q \<le> 1"
  by (rule weight_in_unit_interval) simp

end
