(* ===== verification/Gas_Percentile.thy ===== *)
theory Gas_Percentile
  imports Gas_Fee
begin

text \<open>
  Weighted percentiles of tips (\<open>internal/gasanalyzer/util.go\<close>, the tables of \<open>type.go\<close> and the
  two percentile methods of \<open>analyzer.go\<close>). A nil slice is the empty list. \<open>slices.SortFunc\<close> is
  not stable: the sorting routine is an argument that must return a permutation sorted by tip
  (\<open>is_tip_sort\<close>, locale \<open>tip_sort\<close>). The conversion of an out-of-range \<open>float64\<close> to \<open>uint64\<close>
  is left open by Go; its value is the argument \<open>oor\<close>.
\<close>

section \<open>Tables\<close>

definition GasAnalysisTargets :: "float64 list" where
  "GasAnalysisTargets =
     map (\<lambda>n. f64 (of_int n / 100)) [20, 40, 45, 50, 55, 60, 65, 70, 75, 80, 85, 90, 95]"

record WeightPoint =
  wp_Index :: int
  wp_Weight :: float64

record TargetPercentile =
  tp_Name :: string
  tp_Percentile :: float64
  tp_Index :: int
  tp_GroupKey :: string

definition P20 :: int where "P20 = 0"
definition P40 :: int where "P40 = 1"
definition P45 :: int where "P45 = 2"
definition P50 :: int where "P50 = 3"
definition P55 :: int where "P55 = 4"
definition P60 :: int where "P60 = 5"
definition P65 :: int where "P65 = 6"
definition P70 :: int where "P70 = 7"
definition P75 :: int where "P75 = 8"
definition P80 :: int where "P80 = 9"
definition P85 :: int where "P85 = 10"
definition P90 :: int where "P90 = 11"
definition P95 :: int where "P95 = 12"

lemmas P_defs = P20_def P40_def P45_def P50_def P55_def P60_def P65_def P70_def P75_def P80_def
  P85_def P90_def P95_def

definition GasPredictionTargets :: "TargetPercentile list" where
  "GasPredictionTargets =
     [\<lparr>tp_Name = ''market'', tp_Percentile = f64 (50 / 100), tp_Index = P50, tp_GroupKey = ''p50''\<rparr>,
      \<lparr>tp_Name = ''fast'', tp_Percentile = f64 (75 / 100), tp_Index = P75, tp_GroupKey = ''p75''\<rparr>,
      \<lparr>tp_Name = ''urgent'', tp_Percentile = f64 (90 / 100), tp_Index = P90, tp_GroupKey = ''p90''\<rparr>]"

definition wpoint :: "int \<times> int \<Rightarrow> WeightPoint" where
  "wpoint iw = \<lparr>wp_Index = fst iw, wp_Weight = Fin (of_int (snd iw))\<rparr>"

definition PredictionGroups :: "(string \<times> WeightPoint list) list" where
  "PredictionGroups =
     [(''p50'', map wpoint [(P40, 1), (P45, 1), (P50, 4), (P55, 1), (P60, 1)]),
      (''p75'', map wpoint [(P65, 1), (P70, 5), (P75, 10), (P80, 5), (P85, 1)]),
      (''p90'', map wpoint [(P85, 1), (P90, 3), (P95, 1)])]"

record WeightedTip =
  wt_Tip :: u64
  wt_Weight :: float64

record OuterInfo =
  oi_Count :: nat
  oi_UpperBound :: u64

type_synonym levels = "(string, u64) fmap"

section \<open>Percentiles of a sorted list\<close>

definition totalWeight :: "WeightedTip list \<Rightarrow> float64" where
  "totalWeight poolData = fold (\<lambda>tx t. f64_add t (wt_Weight tx)) poolData (Fin 0)"

text \<open>The inner loop of \<open>calculateWeightedPercentiles\<close>: the targets that \<open>cumulative\<close> has reached.\<close>

function fillTargets :: "float64 \<Rightarrow> float64 \<Rightarrow> u64 \<Rightarrow> u64 list \<Rightarrow> nat \<Rightarrow> u64 list \<times> nat" where
  "fillTargets cumulative totalW tip results index =
     (if index < length GasAnalysisTargets \<and>
         f64_le (f64_mul (GasAnalysisTargets ! index) totalW) cumulative
      then fillTargets cumulative totalW tip (results[index := tip]) (index + 1)
      else (results, index))"
  by pat_completeness auto
termination
  by (relation "measure (\<lambda>(_, _, _, _, index). length GasAnalysisTargets - index)") auto

declare fillTargets.simps [simp del]

fun percentileLoop ::
  "float64 \<Rightarrow> WeightedTip list \<Rightarrow> float64 \<Rightarrow> u64 list \<Rightarrow> nat \<Rightarrow> u64 list \<times> nat" where
  "percentileLoop totalW [] cumulative results index = (results, index)"
| "percentileLoop totalW (tx # txs) cumulative results index =
     (let cumulative' = f64_add cumulative (wt_Weight tx);
          (results', index') = fillTargets cumulative' totalW (wt_Tip tx) results index
      in if index' \<ge> length results' then (results', index')
         else percentileLoop totalW txs cumulative' results' index')"

function fillLast :: "u64 \<Rightarrow> u64 list \<Rightarrow> nat \<Rightarrow> u64 list" where
  "fillLast lastTip results index =
     (if index < length results then fillLast lastTip (results[index := lastTip]) (index + 1) else results)"
  by pat_completeness auto
termination
  by (relation "measure (\<lambda>(_, results, index). length results - index)") auto

declare fillLast.simps [simp del]

definition calculateWeightedPercentiles :: "WeightedTip list \<Rightarrow> u64 list" where
  "calculateWeightedPercentiles poolData =
     (let totalW = totalWeight poolData
      in if f64_eq totalW (Fin 0) then []
         else
           let (results, index) =
                 percentileLoop totalW poolData (Fin 0) (replicate (length GasAnalysisTargets) 0) 0
           in fillLast (wt_Tip (last poolData)) results index)"

section \<open>Predictions\<close>

fun weightedSum :: "u64 list \<Rightarrow> WeightPoint list \<Rightarrow> float64 \<Rightarrow> float64 \<Rightarrow> float64 \<times> float64" where
  "weightedSum vals [] s w = (s, w)"
| "weightedSum vals (wp # grp) s w =
     (if wp_Index wp < 0 \<or> wp_Index wp \<ge> int (length vals) then weightedSum vals grp s w
      else weightedSum vals grp
        (f64_add s (f64_mul (f64_of_u64 (vals ! nat (wp_Index wp))) (wp_Weight wp)))
        (f64_add w (wp_Weight wp)))"

definition calculateWeightedValue :: "(float64 \<Rightarrow> u64) \<Rightarrow> u64 list \<Rightarrow> WeightPoint list \<Rightarrow> u64" where
  "calculateWeightedValue oor vals grp =
     (let (s, w) = weightedSum vals grp (Fin 0) (Fin 0)
      in if f64_eq w (Fin 0) then 0 else f64_to_u64 oor (f64_div s w))"

definition buildPrediction :: "(float64 \<Rightarrow> u64) \<Rightarrow> u64 list \<Rightarrow> levels" where
  "buildPrediction oor percentiles =
     fold (\<lambda>target result.
         let grp = (case map_of PredictionGroups (tp_GroupKey target) of None \<Rightarrow> [] | Some g \<Rightarrow> g)
         in if grp = [] then result
            else fmupd (tp_Name target) (calculateWeightedValue oor percentiles grp) result)
       GasPredictionTargets fmempty"

definition defaultValue :: "levels \<times> u64" where
  "defaultValue =
     (fmap_of_list [(''low'', 500000000), (''market'', 750000000), (''fast'', 1000000000),
        (''urgent'', 1500000000)], 1000000)"

section \<open>The cap on outliers\<close>

text \<open>\<open>sort.Search\<close> of the standard library.\<close>

function sort_Search :: "(nat \<Rightarrow> bool) \<Rightarrow> nat \<Rightarrow> nat \<Rightarrow> nat" where
  "sort_Search f i j =
     (if i < j then
        let h = (i + j) div 2
        in if \<not> f h then sort_Search f (h + 1) j else sort_Search f i h
      else i)"
  by pat_completeness auto
termination
  by (relation "measure (\<lambda>(_, i, j). j - i)") auto

declare sort_Search.simps [simp del]

fun p95Loop :: "float64 \<Rightarrow> WeightedTip list \<Rightarrow> float64 \<Rightarrow> u64" where
  "p95Loop limit [] sumWeight = 0"
| "p95Loop limit (tx # txs) sumWeight =
     (let sumWeight' = f64_add sumWeight (wt_Weight tx)
      in if f64_le limit sumWeight' then wt_Tip tx else p95Loop limit txs sumWeight')"

definition calculateOuterBound :: "WeightedTip list \<Rightarrow> OuterInfo" where
  "calculateOuterBound poolData =
     (if poolData = [] then \<lparr>oi_Count = 0, oi_UpperBound = 0\<rparr>
      else
        let totalSum = totalWeight poolData
        in if f64_eq totalSum (Fin 0) then \<lparr>oi_Count = 0, oi_UpperBound = 0\<rparr>
           else
             let p95 = p95Loop (f64_mul totalSum (f64 (95 / 100))) poolData (Fin 0)
             in if p95 = 0 then \<lparr>oi_Count = 0, oi_UpperBound = 0\<rparr>
                else
                  let upperBound = (if p95 * 2 < p95 then - 1 else p95 * 2);
                      idx = sort_Search (\<lambda>i. wt_Tip (poolData ! i) > upperBound) 0 (length poolData)
                  in \<lparr>oi_Count = length poolData - idx, oi_UpperBound = upperBound\<rparr>)"

definition PendingPercentiles ::
  "(WeightedTip list \<Rightarrow> WeightedTip list) \<Rightarrow> (float64 \<Rightarrow> u64) \<Rightarrow> WeightedTip list \<Rightarrow> levels" where
  "PendingPercentiles srt oor poolData =
     (if poolData = [] then fst defaultValue
      else
        let poolData = srt poolData;
            outer = calculateOuterBound poolData;
            start = length poolData - oi_Count outer;
            poolData = (if oi_Count outer > 0
              then take start poolData @
                   map (\<lambda>tx. tx\<lparr>wt_Tip := oi_UpperBound outer\<rparr>) (drop start poolData)
              else poolData)
        in buildPrediction oor (calculateWeightedPercentiles poolData))"

text \<open>\<open>percentiles[P20]\<close> of a nil slice is a panic.\<close>

definition BlockPercentiles ::
  "(WeightedTip list \<Rightarrow> WeightedTip list) \<Rightarrow> (float64 \<Rightarrow> u64) \<Rightarrow> WeightedTip list \<Rightarrow> (levels \<times> u64) go" where
  "BlockPercentiles srt oor poolData =
     (if poolData = [] then ret defaultValue
      else
        let percentiles = calculateWeightedPercentiles (srt poolData);
            result = buildPrediction oor percentiles
        in if nat P20 < length percentiles then ret (result, percentiles ! nat P20) else panic)"

end
