(* ===== verification/Gas_Percentile_Props.thy ===== *)
theory Gas_Percentile_Props
  imports Gas_Percentile
begin

text \<open>
  Correctness of the weighted percentiles: every percentile is the tip at which the cumulative
  weight first reaches its share of the total, the fallback to the last tip is never used, the
  predictions are ordered, and the cap on outliers is a clamp of every tip.
\<close>

section \<open>Sorting\<close>

definition is_tip_sort :: "(WeightedTip list \<Rightarrow> WeightedTip list) \<Rightarrow> bool" where
  "is_tip_sort srt \<longleftrightarrow> (\<forall>xs. mset (srt xs) = mset xs \<and> sorted (map wt_Tip (srt xs)))"

locale tip_sort =
  fixes srt :: "WeightedTip list \<Rightarrow> WeightedTip list"
  assumes tip_sort: "is_tip_sort srt"
begin

lemma srt_sorted: "sorted (map wt_Tip (srt xs))"
  using tip_sort by (simp add: is_tip_sort_def)

lemma srt_set [simp]: "set (srt xs) = set xs"
  using tip_sort by (metis is_tip_sort_def set_mset_mset)

lemma srt_Nil [simp]: "srt xs = [] \<longleftrightarrow> xs = []"
  by (metis set_empty srt_set)

lemma srt_length [simp]: "length (srt xs) = length xs"
  using tip_sort by (metis is_tip_sort_def size_mset)

end

interpretation tip_sort_key: tip_sort "sort_key wt_Tip"
  by unfold_locales (simp add: is_tip_sort_def)

section \<open>First crossing\<close>

primrec first_cross :: "float64 \<Rightarrow> float64 \<Rightarrow> WeightedTip list \<Rightarrow> u64 option" where
  "first_cross tlim cum [] = None"
| "first_cross tlim cum (tx # txs) =
     (if f64_le tlim (f64_add cum (wt_Weight tx)) then Some (wt_Tip tx)
      else first_cross tlim (f64_add cum (wt_Weight tx)) txs)"

abbreviation (input) acc_weight :: "WeightedTip list \<Rightarrow> float64 \<Rightarrow> float64" where
  "acc_weight \<equiv> fold (\<lambda>tx t. f64_add t (wt_Weight tx))"

lemma first_cross_nth:
  assumes "first_cross tlim cum txs = Some t"
  shows "\<exists>i < length txs. t = wt_Tip (txs ! i) \<and> f64_le tlim (acc_weight (take (Suc i) txs) cum) \<and>
    (\<forall>j < i. \<not> f64_le tlim (acc_weight (take (Suc j) txs) cum))"
  using assms
proof (induction txs arbitrary: cum)
  case (Cons tx txs)
  show ?case
  proof (cases "f64_le tlim (f64_add cum (wt_Weight tx))")
    case True
    with Cons.prems show ?thesis by (intro exI [of _ 0]) auto
  next
    case False
    with Cons.prems Cons.IH obtain i where i: "i < length txs" "t = wt_Tip (txs ! i)"
      "f64_le tlim (acc_weight (take (Suc i) txs) (f64_add cum (wt_Weight tx)))"
      "\<forall>j < i. \<not> f64_le tlim (acc_weight (take (Suc j) txs) (f64_add cum (wt_Weight tx)))" by auto
    with False show ?thesis
      by (intro exI [of _ "Suc i"]) (auto simp: less_Suc_eq_0_disj)
  qed
qed simp

lemma first_cross_mem: "first_cross tlim cum txs = Some t \<Longrightarrow> t \<in> wt_Tip ` set txs"
  by (induction txs arbitrary: cum) (auto split: if_splits)

lemma first_cross_returns:
  "txs \<noteq> [] \<Longrightarrow> f64_le tlim (acc_weight txs cum) \<Longrightarrow> first_cross tlim cum txs \<noteq> None"
  by (induction txs arbitrary: cum) (auto split: if_splits, fastforce)

lemma first_cross_mono:
  assumes "f64_le l l'" "sorted (map wt_Tip txs)"
    "first_cross l cum txs = Some t" "first_cross l' cum txs = Some t'"
  shows "t \<le> t'"
  using assms
proof (induction txs arbitrary: cum)
  case (Cons tx txs)
  show ?case
  proof (cases "f64_le l (f64_add cum (wt_Weight tx))")
    case True
    moreover have "t' = wt_Tip tx \<or> t' \<in> wt_Tip ` set txs"
      using first_cross_mem [OF Cons.prems(4)] by auto
    ultimately show ?thesis using Cons.prems(2,3) by auto
  next
    case False
    then have "\<not> f64_le l' (f64_add cum (wt_Weight tx))" using Cons.prems(1) f64_le_trans by blast
    with False Cons show ?thesis by simp
  qed
qed simp

section \<open>The percentile loops\<close>

abbreviation (input) tlim :: "float64 \<Rightarrow> nat \<Rightarrow> float64" where
  "tlim totalW j \<equiv> f64_mul (GasAnalysisTargets ! j) totalW"

lemma length_targets [simp]: "length GasAnalysisTargets = 13"
  by (simp add: GasAnalysisTargets_def)

lemma fillTargets_spec:
  assumes "fillTargets c totalW tip results index = (r', i')" "index \<le> 13" "length results = 13"
  shows "index \<le> i' \<and> i' \<le> 13 \<and> length r' = 13 \<and>
    (\<forall>j < 13. r' ! j = (if index \<le> j \<and> j < i' then tip else results ! j)) \<and>
    (\<forall>j. index \<le> j \<and> j < i' \<longrightarrow> f64_le (tlim totalW j) c) \<and>
    (i' < 13 \<longrightarrow> \<not> f64_le (tlim totalW i') c)"
  using assms
proof (induction c totalW tip results index rule: fillTargets.induct)
  case (1 c totalW tip results index)
  show ?case
  proof (cases "index < 13 \<and> f64_le (tlim totalW index) c")
    case True
    then have "fillTargets c totalW tip (results[index := tip]) (index + 1) = (r', i')"
      using 1(2) by (simp add: fillTargets.simps [of c totalW tip results index])
    with True 1(1,3,4) have IH: "index + 1 \<le> i' \<and> i' \<le> 13 \<and> length r' = 13 \<and>
      (\<forall>j < 13. r' ! j = (if index + 1 \<le> j \<and> j < i' then tip else results[index := tip] ! j)) \<and>
      (\<forall>j. index + 1 \<le> j \<and> j < i' \<longrightarrow> f64_le (tlim totalW j) c) \<and>
      (i' < 13 \<longrightarrow> \<not> f64_le (tlim totalW i') c)" by simp
    have "r' ! j = (if index \<le> j \<and> j < i' then tip else results ! j)" if "j < 13" for j
      using IH that True 1(4) by (cases "j = index") auto
    moreover have "f64_le (tlim totalW j) c" if "index \<le> j" "j < i'" for j
      using IH that True by (cases "j = index") auto
    ultimately show ?thesis using IH by auto
  next
    case False
    then have "r' = results" "i' = index"
      using 1(2) by (auto simp: fillTargets.simps [of c totalW tip results index])
    with False 1(3,4) show ?thesis by auto
  qed
qed

lemma percentileLoop_spec:
  assumes mono: "\<And>i j. i \<le> j \<Longrightarrow> j < 13 \<Longrightarrow> f64_le (tlim totalW i) (tlim totalW j)"
    and "percentileLoop totalW txs cum results index = (r', i')" "index \<le> 13" "length results = 13"
  shows "i' \<le> 13 \<and> length r' = 13 \<and>
    (\<forall>j < 13. if j < index then r' ! j = results ! j
       else (case first_cross (tlim totalW j) cum txs of
           Some t \<Rightarrow> j < i' \<and> r' ! j = t | None \<Rightarrow> i' \<le> j)) \<and> index \<le> i'"
  using assms(2-)
proof (induction txs arbitrary: cum results index)
  case (Cons tx txs)
  let ?c = "f64_add cum (wt_Weight tx)"
  obtain r1 i1 where f: "fillTargets ?c totalW (wt_Tip tx) results index = (r1, i1)" by fastforce
  note sp = fillTargets_spec [OF f Cons.prems(2,3)]
  have below: "f64_le (tlim totalW j) ?c" if "index \<le> j" "j < i1" for j using sp that by blast
  have above: "\<not> f64_le (tlim totalW j) ?c" if "i1 \<le> j" "j < 13" for j
    using sp that mono [OF that] f64_le_trans by (metis order.strict_trans1)
  show ?case
  proof (cases "i1 \<ge> length r1")
    case True
    with sp f Cons.prems(1) have "r' = r1" "i' = i1" "i1 = 13" by auto
    with sp below show ?thesis by auto
  next
    case False
    with f Cons.prems(1) have "percentileLoop totalW txs ?c r1 i1 = (r', i')" by simp
    from Cons.IH [OF this] sp have IH: "i' \<le> 13" "length r' = 13" "i1 \<le> i'"
      "\<And>j. j < 13 \<Longrightarrow> if j < i1 then r' ! j = r1 ! j
       else (case first_cross (tlim totalW j) ?c txs of
           Some t \<Rightarrow> j < i' \<and> r' ! j = t | None \<Rightarrow> i' \<le> j)" by auto
    have each: "if j < index then r' ! j = results ! j
       else (case first_cross (tlim totalW j) cum (tx # txs) of
           Some t \<Rightarrow> j < i' \<and> r' ! j = t | None \<Rightarrow> i' \<le> j)" if "j < 13" for j
    proof (cases "j < i1")
      case True
      with IH(3) IH(4) [OF that] sp that below [of j] show ?thesis by auto
    next
      case False
      with sp have "\<not> j < index" by auto
      with False IH(4) [OF that] above [of j] that show ?thesis by simp
    qed
    moreover have "index \<le> i'" using IH(3) sp by simp
    ultimately show ?thesis using IH(1,2) by blast
  qed
qed (auto)

lemma fillLast_done: "length results \<le> index \<Longrightarrow> fillLast t results index = results"
  by (subst fillLast.simps) simp

section \<open>The targets\<close>

definition target_percents :: "int list" where
  "target_percents = [20, 40, 45, 50, 55, 60, 65, 70, 75, 80, 85, 90, 95]"

lemma f64_unit:
  assumes "0 < q" "q \<le> 1"
  shows "f64 q = Fin (rnd q)" "0 \<le> rnd q" "rnd q \<le> 1"
proof -
  show r: "rnd q \<le> 1" using assms rnd_int [of 1] by (intro f64_rounding.r_le_fix) auto
  show "0 \<le> rnd q" using assms by (intro rnd_nonneg) auto
  show "f64 q = Fin (rnd q)" using r assms by (simp add: f64_pos f64_max_def)
qed

lemma target_nth:
  assumes "j < 13"
  shows "GasAnalysisTargets ! j = Fin (rnd (of_int (target_percents ! j) / 100))"
    "0 < rnd (of_int (target_percents ! j) / 100)" "rnd (of_int (target_percents ! j) / 100) \<le> 1"
proof -
  let ?n = "target_percents ! j"
  have "?n \<in> set target_percents" using assms by (intro nth_mem) (simp add: target_percents_def)
  then have n: "20 \<le> ?n" "?n \<le> 95" by (auto simp: target_percents_def)
  then have q: "1 / 8 \<le> (of_int ?n / 100 :: rat)" "(of_int ?n / 100 :: rat) \<le> 1" by auto
  have "GasAnalysisTargets ! j = f64 (of_int ?n / 100)"
    using assms by (simp add: GasAnalysisTargets_def target_percents_def del: list.map)
  with f64_unit [of "of_int ?n / 100"] q show "GasAnalysisTargets ! j = Fin (rnd (of_int ?n / 100))"
    "rnd (of_int ?n / 100) \<le> 1" by auto
  have "1 / 8 \<le> rnd (of_int ?n / 100)"
    using q rnd_exact [of 1 "-3"] by (intro f64_rounding.r_ge_fix) (auto simp: power_int_def power_one_over)
  then show "0 < rnd (of_int ?n / 100)" by simp
qed

lemma target_mono:
  assumes "i \<le> j" "j < 13" "f64_nonneg totalW"
  shows "f64_le (tlim totalW i) (tlim totalW j)"
proof -
  have "sorted target_percents" "length target_percents = 13" by (simp_all add: target_percents_def)
  then have "target_percents ! i \<le> target_percents ! j" using assms by (simp add: sorted_nth_mono)
  moreover have "\<forall>n \<in> set target_percents. 0 \<le> n" by (simp add: target_percents_def)
  then have "0 \<le> target_percents ! i"
    using assms \<open>length target_percents = 13\<close> by simp
  ultimately have "rnd (of_int (target_percents ! i) / 100) \<le> rnd (of_int (target_percents ! j) / 100)"
    by (intro rnd_mono) (auto intro: divide_right_mono)
  with assms show ?thesis using target_nth [of i] target_nth [of j] by (simp add: f64_mul_mono)
qed

lemma target_le_total:
  assumes "j < 13" "f64_nonneg totalW"
  shows "f64_le (tlim totalW j) totalW"
  using assms target_nth [of j] by (simp add: f64_mul_le_self)

section \<open>Total weight\<close>

definition weights_ok :: "WeightedTip list \<Rightarrow> bool" where
  "weights_ok txs \<longleftrightarrow> (\<forall>tx \<in> set txs. f64_nonneg (wt_Weight tx))"

lemma acc_weight_nonneg: "weights_ok txs \<Longrightarrow> f64_nonneg cum \<Longrightarrow> f64_nonneg (acc_weight txs cum)"
  by (induction txs arbitrary: cum) (auto simp: weights_ok_def)

lemma totalWeight_nonneg: "weights_ok txs \<Longrightarrow> f64_nonneg (totalWeight txs)"
  by (simp add: totalWeight_def acc_weight_nonneg)

lemma acc_weight_ge: "weights_ok txs \<Longrightarrow> f64_nonneg cum \<Longrightarrow> f64_le cum (acc_weight txs cum)"
proof (induction txs arbitrary: cum)
  case (Cons tx txs)
  then have "f64_le cum (f64_add cum (wt_Weight tx))" by (simp add: weights_ok_def f64_add_ge)
  with Cons show ?case using f64_le_trans by (force simp: weights_ok_def)
qed (simp add: f64_le_refl)

lemma f64_add_commute: "f64_add x y = f64_add y x"
  by (cases x; cases y) (simp_all add: add.commute)

lemma f64_eq_0_iff: "f64_nonneg x \<Longrightarrow> f64_eq x (Fin 0) \<longleftrightarrow> x = Fin 0"
  by (cases x) (auto simp: f64_eq_def f64_nonneg_def)

lemma f64_le_0: "f64_nonneg x \<Longrightarrow> f64_le x (Fin 0) \<Longrightarrow> x = Fin 0"
  by (cases x) (auto simp: f64_nonneg_def)

lemma acc_weight_zero:
  assumes "weights_ok txs" "f64_nonneg cum" "acc_weight txs cum = Fin 0"
  shows "cum = Fin 0 \<and> (\<forall>tx \<in> set txs. wt_Weight tx = Fin 0)"
  using assms
proof (induction txs arbitrary: cum)
  case (Cons tx txs)
  from Cons.prems(1) have ok: "weights_ok txs" "f64_nonneg (wt_Weight tx)" by (auto simp: weights_ok_def)
  have fold: "acc_weight txs (f64_add cum (wt_Weight tx)) = Fin 0" using Cons.prems(3) by (simp only: fold_simps)
  have nn: "f64_nonneg (f64_add cum (wt_Weight tx))" using Cons.prems(2) ok(2) by (rule f64_nonneg_add)
  note zero = Cons.IH [OF ok(1) nn fold]
  have "cum = Fin 0"
    using f64_add_ge [OF Cons.prems(2) ok(2)] zero f64_le_0 [OF Cons.prems(2)] by metis
  moreover have "wt_Weight tx = Fin 0"
    using f64_add_ge [OF ok(2) Cons.prems(2)] zero f64_le_0 [OF ok(2)] f64_add_commute by metis
  ultimately show ?case using zero by simp
qed simp

lemma totalWeight_zero_iff:
  assumes "weights_ok txs"
  shows "f64_eq (totalWeight txs) (Fin 0) \<longleftrightarrow> (\<forall>tx \<in> set txs. wt_Weight tx = Fin 0)"
proof
  show "\<forall>tx \<in> set txs. wt_Weight tx = Fin 0" if "f64_eq (totalWeight txs) (Fin 0)"
    using that acc_weight_zero [OF assms, of "Fin 0"] f64_eq_0_iff [OF totalWeight_nonneg [OF assms]]
    by (simp add: totalWeight_def)
  have "acc_weight ts (Fin 0) = Fin 0" if "\<forall>tx \<in> set ts. wt_Weight tx = Fin 0" for ts :: "WeightedTip list"
    using that by (induction ts) (simp_all add: f64_def f64_max_def)
  then show "f64_eq (totalWeight txs) (Fin 0)" if "\<forall>tx \<in> set txs. wt_Weight tx = Fin 0"
    using that by (simp add: totalWeight_def f64_eq_def)
qed

section \<open>Percentiles\<close>

lemma percentiles_eq:
  assumes ok: "weights_ok pool" and tot: "\<not> f64_eq (totalWeight pool) (Fin 0)"
  shows "\<exists>r. calculateWeightedPercentiles pool = r \<and> length r = 13 \<and>
    (\<forall>j < 13. first_cross (tlim (totalWeight pool) j) (Fin 0) pool = Some (r ! j))"
proof -
  let ?W = "totalWeight pool"
  have W: "f64_nonneg ?W" using ok by (rule totalWeight_nonneg)
  have ne: "pool \<noteq> []" using tot by (auto simp: totalWeight_def f64_eq_def)
  obtain r i where loop: "percentileLoop ?W pool (Fin 0) (replicate 13 0) 0 = (r, i)" by fastforce
  note sp = percentileLoop_spec [OF target_mono [OF _ _ W] loop]
  have cross: "first_cross (tlim ?W j) (Fin 0) pool \<noteq> None" if "j < 13" for j
    using first_cross_returns [OF ne] target_le_total [OF that W] by (simp add: totalWeight_def)
  have all: "j < i \<and> first_cross (tlim ?W j) (Fin 0) pool = Some (r ! j)" if "j < 13" for j
    using sp cross [OF that] that by (auto split: option.splits)
  have "i = 13" using sp all [of 12] by simp
  then have "calculateWeightedPercentiles pool = r"
    using sp loop tot by (simp add: calculateWeightedPercentiles_def Let_def fillLast_done)
  with all sp show ?thesis by auto
qed

lemma percentiles_sorted:
  assumes ok: "weights_ok pool" and srt: "sorted (map wt_Tip pool)"
  shows "sorted (calculateWeightedPercentiles pool) \<and>
    set (calculateWeightedPercentiles pool) \<subseteq> wt_Tip ` set pool"
proof (cases "f64_eq (totalWeight pool) (Fin 0)")
  case False
  then obtain r where r: "calculateWeightedPercentiles pool = r" "length r = 13"
    "\<And>j. j < 13 \<Longrightarrow> first_cross (tlim (totalWeight pool) j) (Fin 0) pool = Some (r ! j)"
    using percentiles_eq [OF ok] by blast
  have "sorted r"
    unfolding sorted_iff_nth_mono r(2)
  proof (intro allI impI)
    fix i j :: nat assume ij: "i \<le> j" "j < 13"
    then have i: "i < 13" by simp
    show "r ! i \<le> r ! j"
      by (rule first_cross_mono [OF target_mono [OF ij totalWeight_nonneg [OF ok]] srt r(3) [OF i] r(3) [OF ij(2)]])
  qed
  moreover have "set r \<subseteq> wt_Tip ` set pool"
    using r first_cross_mem by (fastforce simp: in_set_conv_nth)
  ultimately show ?thesis by (simp add: r)
qed (simp add: calculateWeightedPercentiles_def Let_def)

end
