(* ===== verification/Gas_Prediction.thy ===== *)
theory Gas_Prediction
  imports Gas_Percentile_Props
begin

text \<open>
  The predictions made from the percentiles: weighted means over groups of percentiles, the
  binary search for the outliers, and the two methods that put the steps together. Tips are
  assumed below \<open>2 ^ 48\<close> wei (281,474 Gwei) where a mean is bounded: then every sum of a group,
  whose weights add up to at most 22, is a whole number below \<open>2 ^ 53\<close> and exact in \<open>float64\<close>.
\<close>

section \<open>Weighted means\<close>

lemma f64_int: "0 \<le> n \<Longrightarrow> n < 2 ^ 53 \<Longrightarrow> f64 (of_int n) = Fin (of_int n)"
proof -
  assume n: "0 \<le> n" "n < 2 ^ 53"
  have "(of_int n :: rat) < of_int (2 ^ 53)" using n by (simp only: of_int_less_iff)
  also have "\<dots> \<le> (2 :: rat) ^ 1024" by simp
  finally have "(of_int n :: rat) < f64_max" by (simp only: f64_max_def)
  with n rnd_int [OF n] show ?thesis by (simp add: f64_pos)
qed

definition group_sum :: "u64 list \<Rightarrow> (int \<times> int) list \<Rightarrow> int" where
  "group_sum vals iws = (\<Sum>(i, w) \<leftarrow> iws. uint (vals ! nat i) * w)"

definition group_weight :: "(int \<times> int) list \<Rightarrow> int" where
  "group_weight iws = (\<Sum>(i, w) \<leftarrow> iws. w)"

definition group_ok :: "nat \<Rightarrow> (int \<times> int) list \<Rightarrow> bool" where
  "group_ok n iws \<longleftrightarrow> (\<forall>(i, w) \<in> set iws. 0 \<le> i \<and> i < int n \<and> 0 < w)"

lemma group_sum_nonneg: "group_ok n iws \<Longrightarrow> 0 \<le> group_sum vals iws"
  by (induction iws) (auto simp: group_ok_def group_sum_def)

lemma group_weight_nonneg: "group_ok n iws \<Longrightarrow> 0 \<le> group_weight iws"
  by (induction iws) (auto simp: group_ok_def group_weight_def)

lemma weightedSum_exact:
  assumes "group_ok (length vals) iws" "0 \<le> s" "0 \<le> t"
    and "s + group_sum vals iws < 2 ^ 53" "t + group_weight iws < 2 ^ 53"
    and "\<And>i. i < length vals \<Longrightarrow> uint (vals ! i) < 2 ^ 53"
  shows "weightedSum vals (map wpoint iws) (Fin (of_int s)) (Fin (of_int t)) =
    (Fin (of_int (s + group_sum vals iws)), Fin (of_int (t + group_weight iws)))"
  using assms
proof (induction iws arbitrary: s t)
  case (Cons iw iws)
  obtain i w where iw: "iw = (i, w)" by fastforce
  let ?v = "uint (vals ! nat i)"
  have ok: "group_ok (length vals) iws" "0 \<le> i" "i < int (length vals)" "0 < w"
    using Cons.prems(1) by (auto simp: group_ok_def iw)
  have cons: "group_sum vals (iw # iws) = ?v * w + group_sum vals iws"
    "group_weight (iw # iws) = w + group_weight iws" by (simp_all add: group_sum_def group_weight_def iw)
  note nn = group_sum_nonneg [OF ok(1), of vals] group_weight_nonneg [OF ok(1)]
  have pos: "0 \<le> ?v * w" using ok by simp
  have v53: "?v < 2 ^ 53" using Cons.prems(6) [of "nat i"] ok by simp
  have conv: "f64_of_u64 (vals ! nat i) = Fin (of_int ?v)"
  proof -
    have "of_nat (unat (vals ! nat i)) = (of_int ?v :: rat)" by (metis of_int_of_nat_eq int_nat_eq uint_ge_0 nat_uint_eq)
    then show ?thesis using f64_int [of ?v] v53 by (simp add: f64_of_u64_def del: of_nat_unat of_int_uint)
  qed
  have mul: "f64_mul (Fin (of_int ?v)) (Fin (of_int w)) = Fin (of_int (?v * w))"
    using f64_int [of "?v * w"] pos Cons.prems(2,4) nn cons by (simp del: of_int_uint)
  have add: "f64_add (Fin (of_int s)) (Fin (of_int (?v * w))) = Fin (of_int (s + ?v * w))"
    using f64_int [of "s + ?v * w"] pos Cons.prems(2,4) nn cons by (simp del: of_int_uint of_int_mult)
  have addw: "f64_add (Fin (of_int t)) (Fin (of_int w)) = Fin (of_int (t + w))"
    using f64_int [of "t + w"] ok Cons.prems(3,5) nn cons by simp
  have "weightedSum vals (map wpoint (iw # iws)) (Fin (of_int s)) (Fin (of_int t)) =
     weightedSum vals (map wpoint iws) (Fin (of_int (s + ?v * w))) (Fin (of_int (t + w)))"
    using ok by (simp add: iw wpoint_def conv mul add addw
        del: of_int_uint of_int_add of_int_mult f64_mul.simps f64_add.simps)
  also have "\<dots> = (Fin (of_int (s + ?v * w + group_sum vals iws)), Fin (of_int (t + w + group_weight iws)))"
    using Cons.IH [OF ok(1), of "s + ?v * w" "t + w"] Cons.prems(2,3,4,5,6) pos ok cons by (simp add: add.assoc)
  finally show ?case by (simp only: cons add.assoc)
qed (simp add: group_sum_def group_weight_def)

lemma group_sum_bounds:
  assumes "group_ok n iws" "\<forall>(i, w) \<in> set iws. lo \<le> uint (vals ! nat i) \<and> uint (vals ! nat i) \<le> hi"
  shows "lo * group_weight iws \<le> group_sum vals iws" "group_sum vals iws \<le> hi * group_weight iws"
  using assms
  by (induction iws)
    (auto simp: group_ok_def group_sum_def group_weight_def distrib_left intro!: add_mono mult_right_mono)

lemma f64_to_u64_between:
  assumes "0 \<le> lo" "of_int lo \<le> q" "q \<le> of_int hi" "hi < 2 ^ 53"
  shows "lo \<le> uint (f64_to_u64 oor (f64 q)) \<and> uint (f64_to_u64 oor (f64 q)) \<le> hi"
proof -
  have q: "0 \<le> q" using assms by (meson of_int_0_le_iff order.trans)
  have "of_int lo \<le> (of_int hi :: rat)" using assms(2,3) by (rule order.trans)
  then have "lo \<le> hi" by (simp only: of_int_le_iff)
  then have r: "of_int lo \<le> rnd q" "rnd q \<le> of_int hi"
    using assms rnd_int [of lo] rnd_int [of hi] q
    by (auto intro: f64_rounding.r_ge_fix f64_rounding.r_le_fix)
  have "(of_int hi :: rat) < of_int (2 ^ 53)" using assms(4) by (simp only: of_int_less_iff)
  then have hi53: "(of_int hi :: rat) < 2 ^ 53" by simp
  then have fin: "rnd q < 2 ^ 53" using r(2) by linarith
  moreover have "(2::rat) ^ 53 \<le> f64_max" unfolding f64_max_def by (rule power_increasing) auto
  ultimately have "f64 q = Fin (rnd q)" using q by (simp add: f64_pos)
  moreover have "\<lfloor>rnd q\<rfloor> \<le> hi" "lo \<le> \<lfloor>rnd q\<rfloor>" using r by (simp_all add: floor_le_iff le_floor_iff)
  moreover have "rnd q < 2 ^ 64" "0 \<le> rnd q" using fin rnd_nonneg [OF q] by auto
  moreover have "uint (word_of_int \<lfloor>rnd q\<rfloor> :: u64) = \<lfloor>rnd q\<rfloor>"
    using calculation assms(1,4) by (simp add: uint_word_of_int)
  ultimately show ?thesis by (simp add: f64_to_u64_def)
qed

lemma weighted_value_between:
  assumes grp: "group_ok (length vals) iws" "iws \<noteq> []" "group_weight iws \<le> 32"
    and small: "\<And>i. i < length vals \<Longrightarrow> uint (vals ! i) < 2 ^ 48"
    and bounds: "\<forall>(i, w) \<in> set iws. lo \<le> uint (vals ! nat i) \<and> uint (vals ! nat i) \<le> hi"
    and lohi: "0 \<le> lo" "hi < 2 ^ 48"
  shows "lo \<le> uint (calculateWeightedValue oor vals (map wpoint iws)) \<and>
    uint (calculateWeightedValue oor vals (map wpoint iws)) \<le> hi"
proof -
  let ?S = "group_sum vals iws" and ?W = "group_weight iws"
  obtain i w iws' where "iws = (i, w) # iws'" using grp(2) by (metis list.exhaust surj_pair)
  then have W: "0 < ?W"
    using grp(1) group_weight_nonneg [of "length vals" iws'] by (auto simp: group_ok_def group_weight_def)
  note b = group_sum_bounds [OF grp(1) bounds]
  have "hi * ?W \<le> (2 ^ 48 - 1) * ?W" using lohi(2) W by (intro mult_right_mono) auto
  also have "\<dots> \<le> (2 ^ 48 - 1) * 32" using grp(3) by (intro mult_left_mono) auto
  finally have S: "?S < 2 ^ 53" using b(2) by simp
  have "weightedSum vals (map wpoint iws) (Fin (of_int 0)) (Fin (of_int 0)) =
    (Fin (of_int (0 + ?S)), Fin (of_int (0 + ?W)))"
    by (rule weightedSum_exact [OF grp(1)]) (use S grp(3) small in \<open>auto intro: less_trans [OF small]\<close>)
  then have ws: "weightedSum vals (map wpoint iws) (Fin 0) (Fin 0) = (Fin (of_int ?S), Fin (of_int ?W))"
    by simp
  have Wr: "(0::rat) < of_int ?W" using W by simp
  have "of_int lo \<le> (of_int ?S / of_int ?W :: rat)" "(of_int ?S / of_int ?W :: rat) \<le> of_int hi"
    using b Wr by (simp_all add: pos_le_divide_eq pos_divide_le_eq flip: of_int_mult)
  from f64_to_u64_between [OF lohi(1) this, of oor] lohi(2) W show ?thesis
    by (simp add: calculateWeightedValue_def ws f64_eq_def)
qed

section \<open>The three predictions\<close>

lemma buildPrediction_eq:
  "buildPrediction oor ps = fmap_of_list
     [(''market'', calculateWeightedValue oor ps (map wpoint [(P40, 1), (P45, 1), (P50, 4), (P55, 1), (P60, 1)])),
      (''fast'', calculateWeightedValue oor ps (map wpoint [(P65, 1), (P70, 5), (P75, 10), (P80, 5), (P85, 1)])),
      (''urgent'', calculateWeightedValue oor ps (map wpoint [(P85, 1), (P90, 3), (P95, 1)]))]"
  by (rule fmap_ext) (auto simp: buildPrediction_def GasPredictionTargets_def PredictionGroups_def)

lemma nth_sorted_bounds:
  assumes "sorted (ps :: u64 list)" "i \<le> j" "j < length ps"
  shows "uint (ps ! i) \<le> uint (ps ! j)"
  using sorted_nth_mono [OF assms] by (simp add: word_le_def)

definition ordered_levels :: "levels \<Rightarrow> u64 \<Rightarrow> u64 \<Rightarrow> bool" where
  "ordered_levels result lo hi \<longleftrightarrow>
     (\<exists>market fast urgent. result = fmap_of_list [(''market'', market), (''fast'', fast), (''urgent'', urgent)] \<and>
        lo \<le> market \<and> market \<le> fast \<and> fast \<le> urgent \<and> urgent \<le> hi)"

lemma buildPrediction_ordered:
  assumes len: "length ps = 13" and srt: "sorted ps" and small: "\<forall>p \<in> set ps. uint p < 2 ^ 48"
  shows "ordered_levels (buildPrediction oor ps) (ps ! 1) (ps ! 12)"
proof -
  have sm: "uint (ps ! i) < 2 ^ 48" if "i < length ps" for i using small that by simp
  have le: "uint (ps ! i) \<le> uint (ps ! j)" if "i \<le> j" "j < 13" for i j
    using nth_sorted_bounds [OF srt] that len by simp
  have mean: "uint (ps ! a) \<le> uint (calculateWeightedValue oor ps (map wpoint iws)) \<and>
      uint (calculateWeightedValue oor ps (map wpoint iws)) \<le> uint (ps ! b)"
    if "group_ok 13 iws" "iws \<noteq> []" "group_weight iws \<le> 32" "\<forall>(i, w) \<in> set iws. int a \<le> i \<and> i \<le> int b"
      "b < 13" for a b iws
  proof (rule weighted_value_between)
    show "\<forall>(i, w) \<in> set iws. uint (ps ! a) \<le> uint (ps ! nat i) \<and> uint (ps ! nat i) \<le> uint (ps ! b)"
      using that le by fastforce
  qed (use that len sm in auto)
  let ?m = "calculateWeightedValue oor ps (map wpoint [(P40, 1), (P45, 1), (P50, 4), (P55, 1), (P60, 1)])"
  let ?f = "calculateWeightedValue oor ps (map wpoint [(P65, 1), (P70, 5), (P75, 10), (P80, 5), (P85, 1)])"
  let ?u = "calculateWeightedValue oor ps (map wpoint [(P85, 1), (P90, 3), (P95, 1)])"
  have "uint (ps ! 1) \<le> uint ?m \<and> uint ?m \<le> uint (ps ! 5)"
    by (rule mean) (simp_all add: group_ok_def group_weight_def P_defs)
  moreover have "uint (ps ! 6) \<le> uint ?f \<and> uint ?f \<le> uint (ps ! 10)"
    by (rule mean) (simp_all add: group_ok_def group_weight_def P_defs)
  moreover have "uint (ps ! 10) \<le> uint ?u \<and> uint ?u \<le> uint (ps ! 12)"
    by (rule mean) (simp_all add: group_ok_def group_weight_def P_defs)
  moreover note le [of 5 6]
  ultimately have "ps ! 1 \<le> ?m \<and> ?m \<le> ?f \<and> ?f \<le> ?u \<and> ?u \<le> ps ! 12"
    unfolding word_le_def by linarith
  then show ?thesis unfolding ordered_levels_def buildPrediction_eq by blast
qed

lemma buildPrediction_empty: "ordered_levels (buildPrediction oor []) 0 0"
proof -
  have "calculateWeightedValue oor [] grp = 0" for grp
  proof -
    have "weightedSum [] grp (Fin 0) (Fin 0) = (Fin 0, Fin 0)" by (induction grp) auto
    then show ?thesis by (simp add: calculateWeightedValue_def f64_eq_def)
  qed
  then show ?thesis unfolding ordered_levels_def buildPrediction_eq by auto
qed

section \<open>The binary search\<close>

lemma sort_Search_spec:
  assumes "i \<le> j" "\<And>a b. i \<le> a \<Longrightarrow> a \<le> b \<Longrightarrow> b < j \<Longrightarrow> f a \<Longrightarrow> f b"
  shows "i \<le> sort_Search f i j \<and> sort_Search f i j \<le> j \<and>
    (\<forall>k. i \<le> k \<and> k < sort_Search f i j \<longrightarrow> \<not> f k) \<and> (\<forall>k. sort_Search f i j \<le> k \<and> k < j \<longrightarrow> f k)"
  using assms
proof (induction f i j rule: sort_Search.induct)
  case (1 f i j)
  let ?h = "(i + j) div 2"
  show ?case
  proof (cases "i < j")
    case True
    then have h: "i \<le> ?h" "?h < j" by auto
    show ?thesis
    proof (cases "f ?h")
      case fh: True
      have up: "f k" if "?h \<le> k" "k < j" for k using 1(4) [OF h(1) that] fh by blast
      have "sort_Search f i j = sort_Search f i ?h"
        using True fh by (subst sort_Search.simps) simp
      moreover have "i \<le> sort_Search f i ?h \<and> sort_Search f i ?h \<le> ?h \<and>
          (\<forall>k. i \<le> k \<and> k < sort_Search f i ?h \<longrightarrow> \<not> f k) \<and> (\<forall>k. sort_Search f i ?h \<le> k \<and> k < ?h \<longrightarrow> f k)"
        using fh h by (intro 1(2) [OF True refl]) (auto intro: 1(4))
      ultimately show ?thesis using up h(2) by (metis le_less_linear less_imp_le order.trans)
    next
      case fh: False
      have low: "\<not> f k" if "i \<le> k" "k \<le> ?h" for k using 1(4) [OF that h(2)] fh by blast
      have "sort_Search f i j = sort_Search f (?h + 1) j"
        using True fh by (subst sort_Search.simps) simp
      moreover have "?h + 1 \<le> sort_Search f (?h + 1) j \<and> sort_Search f (?h + 1) j \<le> j \<and>
          (\<forall>k. ?h + 1 \<le> k \<and> k < sort_Search f (?h + 1) j \<longrightarrow> \<not> f k) \<and>
          (\<forall>k. sort_Search f (?h + 1) j \<le> k \<and> k < j \<longrightarrow> f k)"
      proof (rule 1(1) [OF True refl fh])
        show "f b" if "?h + 1 \<le> a" "a \<le> b" "b < j" "f a" for a b using 1(4) [of a b] that h(1) by simp
      qed (use h in simp)
      ultimately show ?thesis using low h(1)
        by (metis Suc_eq_plus1 not_less_eq_eq le_SucI order.trans)
    qed
  next
    case False
    then have "sort_Search f i j = i" by (subst sort_Search.simps) simp
    with False 1(3) show ?thesis by auto
  qed
qed

lemma filter_above:
  assumes "sorted (map wt_Tip pool)"
  shows "sort_Search (\<lambda>i. ub < wt_Tip (pool ! i)) 0 (length pool) = length (filter (\<lambda>t. wt_Tip t \<le> ub) pool)"
    "take (length (filter (\<lambda>t. wt_Tip t \<le> ub) pool)) pool = filter (\<lambda>t. wt_Tip t \<le> ub) pool"
    "drop (length (filter (\<lambda>t. wt_Tip t \<le> ub) pool)) pool = filter (\<lambda>t. ub < wt_Tip t) pool"
proof -
  let ?f = "\<lambda>i. ub < wt_Tip (pool ! i)" and ?r = "sort_Search (\<lambda>i. ub < wt_Tip (pool ! i)) 0 (length pool)"
  have mono: "?f b" if "a \<le> b" "b < length pool" "?f a" for a b
    using sorted_nth_mono [OF assms, of a b] that by auto
  have "0 \<le> ?r \<and> ?r \<le> length pool \<and> (\<forall>k. 0 \<le> k \<and> k < ?r \<longrightarrow> \<not> ?f k) \<and> (\<forall>k. ?r \<le> k \<and> k < length pool \<longrightarrow> ?f k)"
    by (rule sort_Search_spec) (simp, rule mono)
  then have sp: "?r \<le> length pool" "\<And>k. k < ?r \<Longrightarrow> \<not> ?f k" "\<And>k. ?r \<le> k \<Longrightarrow> k < length pool \<Longrightarrow> ?f k"
    by blast+
  have lo: "\<forall>t \<in> set (take ?r pool). wt_Tip t \<le> ub"
  proof
    fix t assume "t \<in> set (take ?r pool)"
    then obtain k where "k < ?r" "t = pool ! k" by (auto simp: in_set_conv_nth)
    then show "wt_Tip t \<le> ub" using sp(2) [of k] by (simp add: not_less)
  qed
  have hi: "\<forall>t \<in> set (drop ?r pool). ub < wt_Tip t"
  proof
    fix t assume "t \<in> set (drop ?r pool)"
    then obtain k where "k < length pool - ?r" "t = pool ! (?r + k)" by (auto simp: in_set_conv_nth)
    then show "ub < wt_Tip t" using sp(1) sp(3) [of "?r + k"] by simp
  qed
  have fl: "filter (\<lambda>t. wt_Tip t \<le> ub) pool = take ?r pool" "filter (\<lambda>t. ub < wt_Tip t) pool = drop ?r pool"
  proof -
    have "filter P pool = filter P (take ?r pool) @ filter P (drop ?r pool)" for P
      by (metis append_take_drop_id filter_append)
    moreover have "filter (\<lambda>t. wt_Tip t \<le> ub) (take ?r pool) = take ?r pool"
      "filter (\<lambda>t. ub < wt_Tip t) (drop ?r pool) = drop ?r pool"
      by (rule filter_True [OF lo]) (rule filter_True [OF hi])
    moreover have "filter (\<lambda>t. wt_Tip t \<le> ub) (drop ?r pool) = []"
      using hi by (intro filter_False) (simp only: not_le)
    moreover have "filter (\<lambda>t. ub < wt_Tip t) (take ?r pool) = []"
      using lo by (intro filter_False) (simp only: not_less)
    ultimately show "filter (\<lambda>t. wt_Tip t \<le> ub) pool = take ?r pool"
      "filter (\<lambda>t. ub < wt_Tip t) pool = drop ?r pool" by (simp_all only: append_Nil append_Nil2)
  qed
  from sp(1) fl show "?r = length (filter (\<lambda>t. wt_Tip t \<le> ub) pool)"
    "take (length (filter (\<lambda>t. wt_Tip t \<le> ub) pool)) pool = filter (\<lambda>t. wt_Tip t \<le> ub) pool"
    "drop (length (filter (\<lambda>t. wt_Tip t \<le> ub) pool)) pool = filter (\<lambda>t. ub < wt_Tip t) pool" by auto
qed

section \<open>The cap\<close>

definition clamp :: "u64 \<Rightarrow> WeightedTip \<Rightarrow> WeightedTip" where
  "clamp ub tx = tx\<lparr>wt_Tip := min (wt_Tip tx) ub\<rparr>"

definition p95_of :: "WeightedTip list \<Rightarrow> u64" where
  "p95_of pool = (case first_cross (f64_mul (GasAnalysisTargets ! 12) (totalWeight pool)) (Fin 0) pool of
     None \<Rightarrow> 0 | Some t \<Rightarrow> t)"

definition doubled :: "u64 \<Rightarrow> u64" where
  "doubled x = (if x * 2 < x then - 1 else x * 2)"

lemma p95Loop_cross: "p95Loop l txs s = (case first_cross l s txs of None \<Rightarrow> 0 | Some t \<Rightarrow> t)"
  by (induction txs arbitrary: s) (simp_all add: Let_def)

lemma calculateOuterBound_eq:
  "calculateOuterBound pool =
     (if f64_eq (totalWeight pool) (Fin 0) \<or> p95_of pool = 0 then \<lparr>oi_Count = 0, oi_UpperBound = 0\<rparr>
      else \<lparr>oi_Count = length pool - sort_Search (\<lambda>i. wt_Tip (pool ! i) > doubled (p95_of pool)) 0 (length pool),
            oi_UpperBound = doubled (p95_of pool)\<rparr>)"
proof -
  have "f64_mul (totalWeight pool) (f64 (95 / 100)) = f64_mul (GasAnalysisTargets ! 12) (totalWeight pool)"
    unfolding GasAnalysisTargets_def by (subst f64_mul_commute) simp
  moreover have "pool = [] \<Longrightarrow> f64_eq (totalWeight pool) (Fin 0)" by (simp add: totalWeight_def f64_eq_def)
  ultimately show ?thesis
    by (auto simp: calculateOuterBound_def p95Loop_cross p95_of_def [symmetric] doubled_def Let_def)
qed

lemma uint_double: "uint (doubled x) = min (2 * uint x) (2 ^ 64 - 1)"
proof (cases "2 * uint x < 2 ^ 64")
  case True
  then have m: "uint (x * 2) = 2 * uint x" by (simp add: uint_word_ariths)
  then have "\<not> x * 2 < x" by (simp add: word_less_def)
  with m True show ?thesis by (simp add: doubled_def)
next
  case False
  have "uint x < 2 ^ 64" using uint_lt2p [of x] by simp
  have "uint (x * 2) = (2 * uint x) mod 2 ^ 64" by (simp add: uint_word_ariths mult.commute)
  also have "\<dots> = (2 * uint x - 2 ^ 64) mod 2 ^ 64" by (rule minus_mod_self2 [symmetric])
  also have "\<dots> = 2 * uint x - 2 ^ 64"
    using False \<open>uint x < 2 ^ 64\<close> by (intro mod_pos_pos_trivial) auto
  finally have "uint (x * 2) = 2 * uint x - 2 ^ 64" .
  then have "x * 2 < x" using \<open>uint x < 2 ^ 64\<close> by (simp add: word_less_def)
  then have "doubled x = - 1" by (simp add: doubled_def)
  with False show ?thesis by (simp add: unsigned_minus_1_eq_mask mask_eq_exp_minus_1 min_def)
qed

lemma clamp_split:
  assumes "sorted (map wt_Tip pool)"
  shows "filter (\<lambda>t. wt_Tip t \<le> ub) pool @ map (\<lambda>tx. tx\<lparr>wt_Tip := ub\<rparr>) (filter (\<lambda>t. ub < wt_Tip t) pool) =
    map (clamp ub) pool"
proof -
  let ?n = "length (filter (\<lambda>t. wt_Tip t \<le> ub) pool)"
  have "map (clamp ub) pool = map (clamp ub) (take ?n pool) @ map (clamp ub) (drop ?n pool)"
    by (metis append_take_drop_id map_append)
  also have "\<dots> = map (clamp ub) (filter (\<lambda>t. wt_Tip t \<le> ub) pool) @ map (clamp ub) (filter (\<lambda>t. ub < wt_Tip t) pool)"
    by (simp only: filter_above(2,3) [OF assms])
  also have "\<dots> = filter (\<lambda>t. wt_Tip t \<le> ub) pool @ map (\<lambda>tx. tx\<lparr>wt_Tip := ub\<rparr>) (filter (\<lambda>t. ub < wt_Tip t) pool)"
    by (auto simp: clamp_def min_def intro!: map_idI)
  finally show ?thesis by simp
qed

lemma clamp_pool:
  shows "totalWeight (map (clamp ub) pool) = totalWeight pool"
    "weights_ok pool \<Longrightarrow> weights_ok (map (clamp ub) pool)"
    "sorted (map wt_Tip pool) \<Longrightarrow> sorted (map wt_Tip (map (clamp ub) pool))"
proof -
  have "acc_weight (map (clamp ub) pool) c = acc_weight pool c" for c
    by (induction pool arbitrary: c) (simp_all add: clamp_def)
  then show "totalWeight (map (clamp ub) pool) = totalWeight pool" by (simp add: totalWeight_def)
  show "weights_ok pool \<Longrightarrow> weights_ok (map (clamp ub) pool)" by (simp add: weights_ok_def clamp_def)
  show "sorted (map wt_Tip (map (clamp ub) pool))" if "sorted (map wt_Tip pool)"
    using that by (induction pool) (auto simp: clamp_def min_le_iff_disj)
qed

definition cap_of :: "WeightedTip list \<Rightarrow> WeightedTip list" where
  "cap_of pool =
     (if f64_eq (totalWeight pool) (Fin 0) \<or> p95_of pool = 0 then pool
      else map (clamp (doubled (p95_of pool))) pool)"

lemma PendingPercentiles_eq:
  assumes "is_tip_sort srt" "pool \<noteq> []"
  shows "PendingPercentiles srt oor pool =
    buildPrediction oor (calculateWeightedPercentiles (cap_of (srt pool)))"
proof (cases "f64_eq (totalWeight (srt pool)) (Fin 0) \<or> p95_of (srt pool) = 0")
  case True
  with assms(2) show ?thesis
    by (simp add: PendingPercentiles_def calculateOuterBound_eq cap_of_def Let_def)
next
  case False
  let ?p = "srt pool" and ?ub = "doubled (p95_of (srt pool))"
  let ?n = "length (filter (\<lambda>t. wt_Tip t \<le> ?ub) ?p)"
  have srt: "sorted (map wt_Tip ?p)" using assms(1) by (simp add: is_tip_sort_def)
  have out: "oi_Count (calculateOuterBound ?p) = length ?p - ?n" "oi_UpperBound (calculateOuterBound ?p) = ?ub"
    using False by (simp_all add: calculateOuterBound_eq filter_above(1) [OF srt])
  have n: "length ?p - (length ?p - ?n) = ?n" by simp
  have capped: "take ?n ?p @ map (\<lambda>tx. tx\<lparr>wt_Tip := ?ub\<rparr>) (drop ?n ?p) = cap_of ?p"
    using False by (simp add: filter_above(2,3) [OF srt] clamp_split [OF srt] cap_of_def)
  have "cap_of ?p = ?p" if "length ?p - ?n = 0"
    using capped that by simp
  then show ?thesis
    using assms(2) capped by (simp add: PendingPercentiles_def Let_def out n)
qed

lemma percentiles_length:
  "weights_ok pool \<Longrightarrow> length (calculateWeightedPercentiles pool) =
     (if f64_eq (totalWeight pool) (Fin 0) then 0 else 13)"
  using percentiles_eq [of pool] by (auto simp: calculateWeightedPercentiles_def)

lemma percentiles_ordered:
  assumes "weights_ok pool" "sorted (map wt_Tip pool)" "\<forall>t \<in> set pool. uint (wt_Tip t) < 2 ^ 48"
    and "\<forall>t \<in> set pool. wt_Tip t \<le> hi"
  shows "ordered_levels (buildPrediction oor (calculateWeightedPercentiles pool)) 0 hi"
proof -
  let ?ps = "calculateWeightedPercentiles pool"
  have ps: "sorted ?ps" "set ?ps \<subseteq> wt_Tip ` set pool" using percentiles_sorted [OF assms(1,2)] by auto
  show ?thesis
  proof (cases "f64_eq (totalWeight pool) (Fin 0)")
    case True
    then have "?ps = []" by (simp add: calculateWeightedPercentiles_def)
    with buildPrediction_empty [of oor] show ?thesis by (force simp: ordered_levels_def)
  next
    case False
    then have len: "length ?ps = 13" using percentiles_length [OF assms(1)] by simp
    have "\<forall>p \<in> set ?ps. uint p < 2 ^ 48" using ps(2) assms(3) by auto
    from buildPrediction_ordered [OF len ps(1) this, of oor] obtain m f u where
      r: "buildPrediction oor ?ps = fmap_of_list [(''market'', m), (''fast'', f), (''urgent'', u)]"
      "m \<le> f" "f \<le> u" "u \<le> ?ps ! 12" by (auto simp: ordered_levels_def)
    have "?ps ! 12 \<in> wt_Tip ` set pool" using ps(2) len nth_mem [of 12 ?ps] by auto
    with assms(4) r(4) have "u \<le> hi" by force
    with r(1-3) show ?thesis unfolding ordered_levels_def by (metis word_zero_le)
  qed
qed

lemma pending_ordered:
  assumes "is_tip_sort srt" "pool \<noteq> []" "weights_ok pool"
    and "\<forall>t \<in> set pool. uint (wt_Tip t) < 2 ^ 48" "\<forall>t \<in> set pool. wt_Tip t \<le> hi"
  shows "ordered_levels (PendingPercentiles srt oor pool) 0 hi"
proof -
  let ?p = "srt pool"
  have set: "set ?p = set pool" using assms(1) by (metis is_tip_sort_def set_mset_mset)
  have srt: "sorted (map wt_Tip ?p)" using assms(1) by (simp add: is_tip_sort_def)
  have ok: "weights_ok ?p" using assms(3) by (simp add: weights_ok_def set)
  have cap: "cap_of ?p = ?p \<or> (\<exists>ub. cap_of ?p = map (clamp ub) ?p)" by (auto simp: cap_of_def)
  then have "weights_ok (cap_of ?p)" "sorted (map wt_Tip (cap_of ?p))"
    using clamp_pool(2,3) ok srt by metis+
  moreover have le: "\<exists>u \<in> set pool. wt_Tip t \<le> wt_Tip u" if t: "t \<in> set (cap_of ?p)" for t
    using cap
  proof
    assume "\<exists>ub. cap_of ?p = map (clamp ub) ?p"
    then obtain ub u where "u \<in> set pool" "t = clamp ub u" using t set by auto
    then show ?thesis by (intro bexI [of _ u]) (simp_all add: clamp_def)
  qed (use t set in auto)
  then have "\<forall>t \<in> set (cap_of ?p). wt_Tip t \<le> hi" using assms(5) by (meson order.trans)
  moreover have "\<forall>t \<in> set (cap_of ?p). uint (wt_Tip t) < 2 ^ 48"
    using le assms(4) by (meson order.strict_trans1 word_le_def)
  ultimately show ?thesis
    using percentiles_ordered [of "cap_of ?p" hi oor] unfolding PendingPercentiles_eq [OF assms(1,2)] by blast
qed

end
