(* ===== verification/Gas_Claims.thy ===== *)
theory Gas_Claims
  imports Gas_Prediction
begin

text \<open>The properties of the percentile analysis, with applications to a small pool of tips.\<close>

definition sample_tips :: "WeightedTip list" where
  "sample_tips =
     [\<lparr>wt_Tip = 5, wt_Weight = Fin 1\<rparr>, \<lparr>wt_Tip = 7, wt_Weight = Fin 1\<rparr>,
      \<lparr>wt_Tip = 9, wt_Weight = Fin 2\<rparr>, \<lparr>wt_Tip = 900, wt_Weight = Fin (1 / 8)\<rparr>]"

lemma sample_tips_ok: "weights_ok sample_tips" "sample_tips \<noteq> []"
  "\<not> f64_eq (totalWeight sample_tips) (Fin 0)" "\<forall>t \<in> set sample_tips. uint (wt_Tip t) < 2 ^ 48"
  "sorted (map wt_Tip sample_tips)"
proof -
  have "rnd 1 = 1" "rnd 2 = 2" "rnd (1 / 8) = 1 / 8"
    using rnd_int [of 1] rnd_int [of 2] rnd_exact [of 1 "-3"] by (simp_all add: power_int_def power_one_over)
  moreover have "(2 :: rat) < f64_max" by (simp add: f64_max_def)
  ultimately show ok: "weights_ok sample_tips"
    by (auto simp: weights_ok_def sample_tips_def f64_nonneg_def)
  show "\<not> f64_eq (totalWeight sample_tips) (Fin 0)"
    unfolding totalWeight_zero_iff [OF ok] by (simp add: sample_tips_def)
qed (auto simp: sample_tips_def)

text \<open>
  C21. Weighted percentiles. On a pool with non-negative weights and a total that is not zero the
  code returns the thirteen percentiles, and each is the tip of the first transaction at which
  the cumulative weight reaches the target share of the total; the fallback to the last tip is
  not needed.
\<close>

theorem percentile_first_crossing:
  assumes "weights_ok pool" "\<not> f64_eq (totalWeight pool) (Fin 0)"
  shows "length (calculateWeightedPercentiles pool) = length GasAnalysisTargets \<and>
    (\<forall>j < length GasAnalysisTargets. \<exists>i < length pool.
       calculateWeightedPercentiles pool ! j = wt_Tip (pool ! i) \<and>
       f64_le (f64_mul (GasAnalysisTargets ! j) (totalWeight pool)) (totalWeight (take (Suc i) pool)) \<and>
       (\<forall>k < i. \<not> f64_le (f64_mul (GasAnalysisTargets ! j) (totalWeight pool))
          (totalWeight (take (Suc k) pool))))"
proof -
  obtain r where r: "calculateWeightedPercentiles pool = r" "length r = 13"
    "\<forall>j < 13. first_cross (f64_mul (GasAnalysisTargets ! j) (totalWeight pool)) (Fin 0) pool = Some (r ! j)"
    using percentiles_eq [OF assms] by blast
  show ?thesis
    unfolding r(1) length_targets
    using r(2) first_cross_nth [OF r(3) [rule_format], folded totalWeight_def] by blast
qed

theorem percentile_first_crossing_witness:
  "\<exists>i < length sample_tips. calculateWeightedPercentiles sample_tips ! 3 = wt_Tip (sample_tips ! i) \<and>
     f64_le (f64_mul (GasAnalysisTargets ! 3) (totalWeight sample_tips)) (totalWeight (take (Suc i) sample_tips))"
proof -
  have "3 < length GasAnalysisTargets" by simp
  with percentile_first_crossing [OF sample_tips_ok(1,3)] show ?thesis by blast
qed

text \<open>
  C32. Cap on outliers. On a sorted pool whose 95th percentile is not zero the upper bound is twice
  that percentile, saturated at the largest 64-bit number when the product would wrap around, and
  the count found by the binary search is the number of tips above the bound.
\<close>

theorem outer_bound_spec:
  assumes "weights_ok pool" "sorted (map wt_Tip pool)" "\<not> f64_eq (totalWeight pool) (Fin 0)"
    and "p95 = calculateWeightedPercentiles pool ! nat P95" "p95 \<noteq> 0"
  shows "uint (oi_UpperBound (calculateOuterBound pool)) = min (2 * uint p95) (2 ^ 64 - 1) \<and>
    oi_Count (calculateOuterBound pool) =
      length (filter (\<lambda>t. oi_UpperBound (calculateOuterBound pool) < wt_Tip t) pool)"
proof -
  from percentiles_eq [OF assms(1,3)] have "p95_of pool = p95"
    by (auto simp: p95_of_def assms(4) P95_def)
  then have out: "oi_UpperBound (calculateOuterBound pool) = doubled p95"
    "oi_Count (calculateOuterBound pool) = length pool - length (filter (\<lambda>t. wt_Tip t \<le> doubled p95) pool)"
    using assms(3,5) by (simp_all add: calculateOuterBound_eq filter_above(1) [OF assms(2)])
  have "length (filter (\<lambda>t. doubled p95 < wt_Tip t) pool) = length (drop (length (filter (\<lambda>t. wt_Tip t \<le> doubled p95) pool)) pool)"
    by (simp only: filter_above(3) [OF assms(2)])
  with out show ?thesis by (simp add: uint_double)
qed

theorem outer_bound_spec_witness:
  "\<exists>p95 :: u64. p95 \<noteq> 0 \<and> uint (oi_UpperBound (calculateOuterBound sample_tips)) = min (2 * uint p95) (2 ^ 64 - 1)"
proof -
  let ?ps = "calculateWeightedPercentiles sample_tips"
  have "length ?ps = 13" using percentiles_length [OF sample_tips_ok(1)] sample_tips_ok(3) by simp
  then have "?ps ! nat P95 \<in> set ?ps" by (intro nth_mem) (simp add: P95_def)
  then have "?ps ! nat P95 \<in> wt_Tip ` set sample_tips"
    using percentiles_sorted [OF sample_tips_ok(1,5)] by blast
  moreover have "0 \<notin> wt_Tip ` set sample_tips" by (simp add: sample_tips_def)
  ultimately have nz: "?ps ! nat P95 \<noteq> 0" by metis
  show ?thesis
    by (rule exI, rule conjI [OF nz conjunct1 [OF outer_bound_spec [OF sample_tips_ok(1,5,3) refl nz]]])
qed

text \<open>
  C22. Pending predictions. Whatever permutation the sort returns for equal tips, a non-empty pool
  of tips below \<open>2 ^ 48\<close> with non-negative weights gives exactly the three levels, in the order
  market, fast, urgent, none above the largest tip of the pool.
\<close>

theorem pending_prediction_ordered:
  assumes "is_tip_sort srt" "pool \<noteq> []" "weights_ok pool"
    and "\<forall>t \<in> set pool. uint (wt_Tip t) < 2 ^ 48" "\<forall>t \<in> set pool. wt_Tip t \<le> hi"
  shows "\<exists>market fast urgent.
    PendingPercentiles srt oor pool =
      fmap_of_list [(''market'', market), (''fast'', fast), (''urgent'', urgent)] \<and>
    market \<le> fast \<and> fast \<le> urgent \<and> urgent \<le> hi"
  using pending_ordered [OF assms, of oor] by (auto simp: ordered_levels_def)

theorem pending_prediction_ordered_witness:
  "\<exists>market fast urgent.
    PendingPercentiles (sort_key wt_Tip) (\<lambda>_. 0) sample_tips =
      fmap_of_list [(''market'', market), (''fast'', fast), (''urgent'', urgent)] \<and>
    market \<le> fast \<and> fast \<le> urgent \<and> urgent \<le> 900"
  by (rule pending_prediction_ordered [OF tip_sort_key.tip_sort sample_tips_ok(2,1,4)])
    (auto simp: sample_tips_def)

text \<open>
  C35. Block predictions. For non-negative weights \<open>BlockPercentiles\<close> fails exactly on a non-empty
  pool whose weights are all zero (it indexes the nil slice of percentiles); an empty pool gives
  the default levels, and otherwise the cutoff returned beside the levels is the 20th percentile.
\<close>

theorem BlockPercentiles_spec:
  assumes "is_tip_sort srt" "weights_ok pool"
  shows "(BlockPercentiles srt oor pool = None \<longleftrightarrow> pool \<noteq> [] \<and> (\<forall>t \<in> set pool. wt_Weight t = Fin 0)) \<and>
    BlockPercentiles srt oor [] = Some defaultValue \<and>
    (\<forall>result cutoff. BlockPercentiles srt oor pool = Some (result, cutoff) \<longrightarrow> pool \<noteq> [] \<longrightarrow>
      result = buildPrediction oor (calculateWeightedPercentiles (srt pool)) \<and>
      cutoff = calculateWeightedPercentiles (srt pool) ! nat P20 \<and> cutoff \<in> wt_Tip ` set pool)"
proof -
  let ?p = "srt pool"
  have set: "set ?p = set pool" using assms(1) by (metis is_tip_sort_def set_mset_mset)
  have srt: "sorted (map wt_Tip ?p)" using assms(1) by (simp add: is_tip_sort_def)
  have ok: "weights_ok ?p" using assms(2) by (simp add: weights_ok_def set)
  have zero: "f64_eq (totalWeight ?p) (Fin 0) \<longleftrightarrow> (\<forall>t \<in> set pool. wt_Weight t = Fin 0)"
    by (simp add: totalWeight_zero_iff [OF ok] set)
  have "cutoff \<in> wt_Tip ` set pool"
    if "cutoff = calculateWeightedPercentiles ?p ! 0" "0 < length (calculateWeightedPercentiles ?p)" for cutoff
    using that percentiles_sorted [OF ok srt] nth_mem by (metis set subsetD)
  then show ?thesis
    using percentiles_length [OF ok] zero
    by (auto simp: BlockPercentiles_def Let_def P20_def split: if_splits)
qed

theorem BlockPercentiles_spec_witness:
  "BlockPercentiles (sort_key wt_Tip) (\<lambda>_. 0) [\<lparr>wt_Tip = 5, wt_Weight = Fin 0\<rparr>] = None \<and>
   BlockPercentiles (sort_key wt_Tip) (\<lambda>_. 0) sample_tips \<noteq> None"
proof
  have "weights_ok [\<lparr>wt_Tip = 5, wt_Weight = Fin 0\<rparr>]" by (simp add: weights_ok_def)
  from BlockPercentiles_spec [OF tip_sort_key.tip_sort this, of "\<lambda>_. 0"]
  show "BlockPercentiles (sort_key wt_Tip) (\<lambda>_. 0) [\<lparr>wt_Tip = 5, wt_Weight = Fin 0\<rparr>] = None" by simp
  have "\<not> (\<forall>t \<in> set sample_tips. wt_Weight t = Fin 0)" by (simp add: sample_tips_def)
  with BlockPercentiles_spec [OF tip_sort_key.tip_sort sample_tips_ok(1), of "\<lambda>_. 0"]
  show "BlockPercentiles (sort_key wt_Tip) (\<lambda>_. 0) sample_tips \<noteq> None" by blast
qed

end
