(* ===== verification/Block_Store.thy ===== *)
theory Block_Store
  imports Go_Float64
begin

text \<open>
  The block store (\<open>internal/blockstore\<close>): the data types that the processor, the mempool and the
  gas analyzer exchange, and the store of the most recent blocks. The lock of the store makes
  each operation one atomic step, so an operation is a function from the store to the new store.
  The store refines an unbounded history of blocks of which only the newest \<open>max\<close> are visible.
\<close>

section \<open>Data\<close>

text \<open>\<open>ti_Hash\<close> is the hash whose hexadecimal text the code stores; nothing reads it back.\<close>

definition FeeBucketSize :: int where
  "FeeBucketSize = 500000000"

definition TxStoreBlockTTL :: u64 where
  "TxStoreBlockTTL = 20"

definition MaxBlockCount :: int where
  "MaxBlockCount = 10"

record TxInfo =
  ti_Hash :: Hash
  ti_Tip :: u64
  ti_GasUsed :: u64
  ti_GasWeight :: float64

record FeeBucketStat =
  fb_Bucket :: u32
  fb_TxCount :: u32
  fb_TotalWaitBlocks :: u64
  fb_TotalWaitSeconds :: u64
  fb_WaitBlockCount :: "u32 list"

text \<open>The composite literal \<open>FeeBucketStat{Bucket: b}\<close>: every other field has its zero value.\<close>

definition zero_stat :: "u32 \<Rightarrow> FeeBucketStat" where
  "zero_stat b =
     \<lparr>fb_Bucket = b, fb_TxCount = 0, fb_TotalWaitBlocks = 0, fb_TotalWaitSeconds = 0,
      fb_WaitBlockCount = replicate 16 0\<rparr>"

record BlockData =
  bd_Number :: u64
  bd_BaseFee :: "int option"
  bd_GasLimit :: u64
  bd_Txs :: "TxInfo list"
  bd_FeeBuckets :: "FeeBucketStat list"

section \<open>The store\<close>

record Store =
  st_blocks :: "BlockData list"
  st_max :: int

text \<open>\<open>make\<close> with a negative capacity panics.\<close>

definition NewBlockStore :: "int \<Rightarrow> Store go" where
  "NewBlockStore maxSize =
     (if maxSize < 0 then panic else ret \<lparr>st_blocks = [], st_max = maxSize\<rparr>)"

definition Store_Clear :: "Store \<Rightarrow> Store" where
  "Store_Clear s = s\<lparr>st_blocks := []\<rparr>"

definition AddBlock :: "BlockData \<Rightarrow> Store \<Rightarrow> Store" where
  "AddBlock blockData s =
     (let blocks = blockData # st_blocks s
      in s\<lparr>st_blocks :=
            (if int (length blocks) > st_max s then take (nat (st_max s)) blocks else blocks)\<rparr>)"

definition GetBlockData :: "Store \<Rightarrow> BlockData list" where
  "GetBlockData s = st_blocks s"

section \<open>The bounded-history contract\<close>

definition store_inv :: "Store \<Rightarrow> bool" where
  "store_inv s \<longleftrightarrow> 0 \<le> st_max s \<and> int (length (st_blocks s)) \<le> st_max s"

locale bounded_history =
  fixes add :: "'b \<Rightarrow> 's \<Rightarrow> 's"
    and clear :: "'s \<Rightarrow> 's"
    and view :: "'s \<Rightarrow> 'b list"
    and bound :: "'s \<Rightarrow> nat"
    and inv :: "'s \<Rightarrow> bool"
  assumes view_bound: "inv s \<Longrightarrow> length (view s) \<le> bound s"
    and add_view: "inv s \<Longrightarrow> view (add b s) = take (bound s) (b # view s)"
    and add_bound: "bound (add b s) = bound s"
    and add_inv: "inv s \<Longrightarrow> inv (add b s)"
    and clear_view: "view (clear s) = []"
    and clear_bound: "bound (clear s) = bound s"
    and clear_inv: "inv s \<Longrightarrow> inv (clear s)"
begin

lemma add_list_inv: "inv s \<Longrightarrow> inv (fold add bs s)"
  by (induction bs arbitrary: s) (simp_all add: add_inv)

lemma add_list_view: "inv s \<Longrightarrow> view (fold add bs s) = take (bound s) (rev bs @ view s)"
proof (induction bs arbitrary: s)
  case Nil
  then show ?case by (simp add: view_bound)
next
  case (Cons b bs)
  have "view (fold add (b # bs) s) = take (bound s) (rev bs @ take (bound s) (b # view s))"
    using Cons.IH [OF add_inv [OF Cons.prems]] Cons.prems by (simp add: add_bound add_view)
  then show ?case by (simp add: min_def)
qed

lemma resync_view: "inv s \<Longrightarrow> 0 < bound s \<Longrightarrow> view (add b (clear s)) = [b]"
  by (simp add: add_view clear_view clear_inv clear_bound)

end

lemma AddBlock_max [simp]: "st_max (AddBlock b s) = st_max s"
  by (simp add: AddBlock_def Let_def)

lemma AddBlock_blocks:
  "store_inv s \<Longrightarrow> st_blocks (AddBlock b s) = take (nat (st_max s)) (b # st_blocks s)"
  by (auto simp: AddBlock_def Let_def store_inv_def)

interpretation block_history: bounded_history AddBlock Store_Clear GetBlockData
  "\<lambda>s. nat (st_max s)" store_inv
  by unfold_locales
    (auto simp: GetBlockData_def Store_Clear_def store_inv_def AddBlock_blocks
      AddBlock_def Let_def)

lemma NewBlockStore_inv: "NewBlockStore n = Some s \<Longrightarrow> store_inv s"
  by (auto simp: NewBlockStore_def store_inv_def split: if_splits)

text \<open>
  C38. Block history. From a store made with a non-negative size, adding the blocks \<open>bs\<close> in order
  makes exactly the newest \<open>maxSize\<close> of them visible, newest first.
\<close>

theorem block_history_refines:
  assumes "NewBlockStore maxSize = Some s"
  shows "GetBlockData (fold AddBlock bs s) = take (nat maxSize) (rev bs)"
proof -
  have "store_inv s" using assms by (rule NewBlockStore_inv)
  moreover have "GetBlockData s = []" "st_max s = maxSize"
    using assms by (auto simp: NewBlockStore_def GetBlockData_def split: if_splits)
  ultimately show ?thesis by (simp add: block_history.add_list_view)
qed

definition sample_block :: "u64 \<Rightarrow> BlockData" where
  "sample_block n =
     \<lparr>bd_Number = n, bd_BaseFee = Some 7, bd_GasLimit = 30000000, bd_Txs = [], bd_FeeBuckets = []\<rparr>"

theorem block_history_refines_witness:
  "GetBlockData (fold AddBlock [sample_block 1, sample_block 2, sample_block 3]
     \<lparr>st_blocks = [], st_max = 2\<rparr>) = [sample_block 3, sample_block 2]"
proof -
  have "NewBlockStore 2 = Some \<lparr>st_blocks = [], st_max = 2\<rparr>"
    by (simp add: NewBlockStore_def)
  from block_history_refines [OF this, of "[sample_block 1, sample_block 2, sample_block 3]"] show ?thesis by simp
qed

end
