(* ===== verification/Mempool.thy ===== *)
theory Mempool
  imports Block_Store
begin

text \<open>
  The pending transaction pool (\<open>internal/mempool\<close>). The code keeps one \<open>PendingTx\<close> object per
  transaction and shares the pointer to it between three indexes: the nonce map of the sender's
  account, the hash index and the expiry bucket of a block. \<open>ExpireIndex\<close> is written through the
  pointer, so the model has an explicit store: a pointer is a number, \<open>pp_heap\<close> gives the object,
  \<open>pp_next\<close> is the next unused pointer. An operation holds the lock of the pool from its first to
  its last access to the indexes and is one step of the model.

  The types of go-ethereum are records of what their accessors return. \<open>types.Sender\<close> with the
  signer of the pool is a function of the pool; a \<open>None\<close> of it is the error.
\<close>

section \<open>Data\<close>

definition MaxWaitBlock :: u64 where
  "MaxWaitBlock = 10"

record PendingTx =
  pt_Hash :: Hash
  pt_From :: Address
  pt_Nonce :: u64
  pt_TipCap :: u64
  pt_FeeCap :: u64
  pt_GasLimit :: u64
  pt_SeenBlock :: u64
  pt_SeenBlockTime :: u64
  pt_ExpireBlock :: u64
  pt_ExpireIndex :: int
  pt_NonceGap :: bool

record Transaction =
  tx_Hash :: Hash
  tx_GasTipCap :: "int option"
  tx_GasFeeCap :: "int option"
  tx_GasPrice :: "int option"
  tx_Gas :: u64
  tx_Nonce :: u64

record Header =
  hd_Hash :: Hash
  hd_Number :: "int option"
  hd_Time :: u64
  hd_BaseFee :: "int option"
  hd_GasUsed :: u64
  hd_GasLimit :: u64

record Receipt =
  rc_TxHash :: Hash
  rc_GasUsed :: u64
  rc_EffectiveGasPrice :: "int option"

type_synonym ptr = nat
type_synonym NonceMap = "(u64, ptr) fmap"

record PendingMemPool =
  pp_Signer :: "Transaction \<Rightarrow> Address option"
  pp_Accounts :: "(Address, NonceMap) fmap"
  pp_ExpireBuckets :: "(u64, ptr list) fmap"
  pp_HashIndex :: "(Hash, ptr) fmap"
  pp_TTLBlock :: u64
  pp_heap :: "ptr \<Rightarrow> PendingTx"
  pp_next :: ptr

definition zero_PendingTx :: PendingTx where
  "zero_PendingTx =
     \<lparr>pt_Hash = 0, pt_From = 0, pt_Nonce = 0, pt_TipCap = 0, pt_FeeCap = 0, pt_GasLimit = 0,
      pt_SeenBlock = 0, pt_SeenBlockTime = 0, pt_ExpireBlock = 0, pt_ExpireIndex = 0,
      pt_NonceGap = False\<rparr>"

section \<open>Creation\<close>

text \<open>\<open>(*big.Int).SetString(s, 10)\<close>: an optional sign and at least one digit.\<close>

definition digit_value :: "char \<Rightarrow> int option" where
  "digit_value c =
     (if of_char c \<ge> (48 :: int) \<and> of_char c \<le> (57 :: int) then Some (of_char c - 48) else None)"

fun digits_value :: "int \<Rightarrow> string \<Rightarrow> int option" where
  "digits_value acc [] = Some acc"
| "digits_value acc (c # cs) =
     (case digit_value c of None \<Rightarrow> None | Some d \<Rightarrow> digits_value (10 * acc + d) cs)"

fun big_SetString :: "string \<Rightarrow> int option" where
  "big_SetString [] = None"
| "big_SetString (c # cs) =
     (if c = CHR ''-'' then (if cs = [] then None else map_option uminus (digits_value 0 cs))
      else if c = CHR ''+'' then (if cs = [] then None else digits_value 0 cs)
      else digits_value 0 (c # cs))"

definition NewPendingMemPool ::
  "(int \<Rightarrow> Transaction \<Rightarrow> Address option) \<Rightarrow> string \<Rightarrow> u64 \<Rightarrow> PendingMemPool option" where
  "NewPendingMemPool LatestSignerForChainID chainID ttlblock =
     (case big_SetString chainID of
        None \<Rightarrow> None
      | Some i \<Rightarrow> Some
          \<lparr>pp_Signer = LatestSignerForChainID i, pp_Accounts = fmempty, pp_ExpireBuckets = fmempty,
           pp_HashIndex = fmempty, pp_TTLBlock = ttlblock,
           pp_heap = (\<lambda>_. zero_PendingTx), pp_next = 0\<rparr>)"

definition Pool_Clear :: "PendingMemPool \<Rightarrow> PendingMemPool" where
  "Pool_Clear pool =
     pool\<lparr>pp_Accounts := fmempty, pp_ExpireBuckets := fmempty, pp_HashIndex := fmempty\<rparr>"

section \<open>Expiry buckets\<close>

definition bkt :: "PendingMemPool \<Rightarrow> u64 \<Rightarrow> ptr list" where
  "bkt pool b = (case fmlookup (pp_ExpireBuckets pool) b of None \<Rightarrow> [] | Some l \<Rightarrow> l)"

definition set_ExpireIndex :: "ptr \<Rightarrow> int \<Rightarrow> PendingMemPool \<Rightarrow> PendingMemPool" where
  "set_ExpireIndex p i pool =
     pool\<lparr>pp_heap := (pp_heap pool)(p := (pp_heap pool p)\<lparr>pt_ExpireIndex := i\<rparr>)\<rparr>"

definition addExpireBucket :: "ptr \<Rightarrow> PendingMemPool \<Rightarrow> PendingMemPool" where
  "addExpireBucket p pool =
     (let block = pt_ExpireBlock (pp_heap pool p); lst = bkt pool block
      in (set_ExpireIndex p (int (length lst)) pool)
           \<lparr>pp_ExpireBuckets := fmupd block (lst @ [p]) (pp_ExpireBuckets pool)\<rparr>)"

definition removeExpireBucket :: "ptr \<Rightarrow> PendingMemPool \<Rightarrow> PendingMemPool" where
  "removeExpireBucket p pool =
     (let block = pt_ExpireBlock (pp_heap pool p); index = pt_ExpireIndex (pp_heap pool p)
      in case fmlookup (pp_ExpireBuckets pool) block of
           None \<Rightarrow> pool
         | Some lst \<Rightarrow>
             if lst = [] then pool
             else if index < 0 \<or> index \<ge> int (length lst) then pool
             else if pt_Hash (pp_heap pool (lst ! nat index)) \<noteq> pt_Hash (pp_heap pool p) then pool
             else
               let lastIdx = length lst - 1; q = lst ! lastIdx;
                 pool' = (if nat index \<noteq> lastIdx then set_ExpireIndex q index pool else pool);
                 lst' = take lastIdx (if nat index \<noteq> lastIdx then lst[nat index := q] else lst)
               in if lst' = [] then pool'\<lparr>pp_ExpireBuckets := fmdrop block (pp_ExpireBuckets pool)\<rparr>
                  else pool'\<lparr>pp_ExpireBuckets := fmupd block lst' (pp_ExpireBuckets pool)\<rparr>)"

section \<open>Pushing transactions\<close>

text \<open>
  The first loop of \<open>PushBatch\<close>: the conversion that runs before the lock is taken. \<open>None\<close> is
  the \<open>continue\<close>.
\<close>

definition orGasPrice :: "Transaction \<Rightarrow> int option \<Rightarrow> int option" where
  "orGasPrice tx c = (case c of None \<Rightarrow> tx_GasPrice tx | Some x \<Rightarrow> Some x)"

definition toPendingTx :: "PendingMemPool \<Rightarrow> u64 \<Rightarrow> u64 \<Rightarrow> Transaction \<Rightarrow> PendingTx option" where
  "toPendingTx pool currentBlockNum curBlockTime tx =
     (case (orGasPrice tx (tx_GasTipCap tx), orGasPrice tx (tx_GasFeeCap tx)) of
        (Some tipCap, Some feeCap) \<Rightarrow>
          if tx_Gas tx = 0 then None
          else if \<not> big_IsUint64 feeCap \<or> \<not> big_IsUint64 tipCap then None
          else (case pp_Signer pool tx of
              None \<Rightarrow> None
            | Some from \<Rightarrow> Some
                \<lparr>pt_Hash = tx_Hash tx, pt_From = from, pt_Nonce = tx_Nonce tx,
                 pt_TipCap = big_Uint64 tipCap, pt_FeeCap = big_Uint64 feeCap,
                 pt_GasLimit = tx_Gas tx, pt_SeenBlock = currentBlockNum,
                 pt_SeenBlockTime = curBlockTime,
                 pt_ExpireBlock = currentBlockNum + pp_TTLBlock pool,
                 pt_ExpireIndex = - 1, pt_NonceGap = False\<rparr>)
      | _ \<Rightarrow> None)"

definition validTxs :: "PendingMemPool \<Rightarrow> u64 \<Rightarrow> u64 \<Rightarrow> Transaction option list \<Rightarrow> PendingTx list" where
  "validTxs pool currentBlockNum curBlockTime txs =
     List.map_filter
       (\<lambda>tx. case tx of None \<Rightarrow> None | Some t \<Rightarrow> toPendingTx pool currentBlockNum curBlockTime t) txs"

definition storeTx :: "PendingTx \<Rightarrow> NonceMap \<Rightarrow> PendingMemPool \<Rightarrow> PendingMemPool" where
  "storeTx tx account pool =
     (let p = pp_next pool
      in addExpireBucket p (pool
           \<lparr>pp_heap := (pp_heap pool)(p := tx), pp_next := Suc p,
            pp_Accounts := fmupd (pt_From tx) (fmupd (pt_Nonce tx) p account) (pp_Accounts pool),
            pp_HashIndex := fmupd (pt_Hash tx) p (pp_HashIndex pool)\<rparr>))"

definition account_of :: "PendingMemPool \<Rightarrow> Address \<Rightarrow> NonceMap" where
  "account_of pool a = (case fmlookup (pp_Accounts pool) a of None \<Rightarrow> fmempty | Some m \<Rightarrow> m)"

definition pushTx :: "PendingTx \<Rightarrow> PendingMemPool \<Rightarrow> PendingMemPool" where
  "pushTx tx pool =
     (let account = account_of pool (pt_From tx)
      in case fmlookup account (pt_Nonce tx) of
           Some old \<Rightarrow>
             if pt_TipCap tx \<le> pt_TipCap (pp_heap pool old) \<or>
                pt_FeeCap tx \<le> pt_FeeCap (pp_heap pool old) then pool
             else
               let pool' = removeExpireBucket old pool
               in storeTx tx account
                    (pool'\<lparr>pp_HashIndex := fmdrop (pt_Hash (pp_heap pool' old)) (pp_HashIndex pool')\<rparr>)
         | None \<Rightarrow> storeTx tx account pool)"

definition PushBatch ::
  "Transaction option list \<Rightarrow> u64 \<Rightarrow> u64 \<Rightarrow> PendingMemPool \<Rightarrow> PendingMemPool" where
  "PushBatch txs currentBlockNum curBlockTime pool =
     fold pushTx (validTxs pool currentBlockNum curBlockTime txs) pool"

section \<open>Removing included transactions\<close>

definition removeByHash :: "ptr \<Rightarrow> PendingMemPool \<Rightarrow> PendingMemPool" where
  "removeByHash p pool =
     (let tx = pp_heap pool p;
          accounts = (case fmlookup (pp_Accounts pool) (pt_From tx) of
              None \<Rightarrow> pp_Accounts pool
            | Some account \<Rightarrow>
                let account' = fmdrop (pt_Nonce tx) account
                in if account' = fmempty then fmdrop (pt_From tx) (pp_Accounts pool)
                   else fmupd (pt_From tx) account' (pp_Accounts pool))
      in removeExpireBucket p
           (pool\<lparr>pp_Accounts := accounts, pp_HashIndex := fmdrop (pt_Hash tx) (pp_HashIndex pool)\<rparr>))"

text \<open>\<open>uint32(tip / FeeBucketSize)\<close>: the conversion keeps the low 32 bits.\<close>

definition getFeeBucket :: "u64 \<Rightarrow> u32" where
  "getFeeBucket tip = ucast (tip div of_int FeeBucketSize)"

definition addInclusion :: "u64 \<Rightarrow> u64 \<Rightarrow> FeeBucketStat \<Rightarrow> FeeBucketStat" where
  "addInclusion waitblocks waitSeconds stat =
     (let waitInd = unat (if waitblocks > MaxWaitBlock then MaxWaitBlock else waitblocks);
          cnt = fb_WaitBlockCount stat
      in stat\<lparr>fb_TxCount := fb_TxCount stat + 1,
              fb_TotalWaitBlocks := fb_TotalWaitBlocks stat + waitblocks,
              fb_TotalWaitSeconds := fb_TotalWaitSeconds stat + waitSeconds,
              fb_WaitBlockCount := cnt[waitInd := cnt ! waitInd + 1]\<rparr>)"

type_synonym receipt_state = "PendingMemPool \<times> (u32, FeeBucketStat) fmap \<times> nat"

definition receiptStep :: "u64 \<Rightarrow> u64 \<Rightarrow> Hash \<Rightarrow> receipt_state \<Rightarrow> receipt_state" where
  "receiptStep curblockNum curblockTime txHash = (\<lambda>(pool, stats, removed_cnt).
     case fmlookup (pp_HashIndex pool) txHash of
       None \<Rightarrow> (pool, stats, removed_cnt)
     | Some p \<Rightarrow>
         let tx = pp_heap pool p
         in if pt_SeenBlock tx > curblockNum \<or> pt_SeenBlockTime tx > curblockTime
            then (removeByHash p pool, stats, removed_cnt)
            else
              let waitblocks = curblockNum - pt_SeenBlock tx;
                  waitSeconds = curblockTime - pt_SeenBlockTime tx;
                  bucket = getFeeBucket (pt_TipCap tx);
                  stat = (case fmlookup stats bucket of None \<Rightarrow> zero_stat bucket | Some s \<Rightarrow> s)
              in (removeByHash p pool, fmupd bucket (addInclusion waitblocks waitSeconds stat) stats,
                  removed_cnt + 1))"

text \<open>A nil receipt is dereferenced: a panic.\<close>

fun receiptLoop :: "u64 \<Rightarrow> u64 \<Rightarrow> Receipt option list \<Rightarrow> receipt_state \<Rightarrow> receipt_state go" where
  "receiptLoop n t [] st = ret st"
| "receiptLoop n t (None # rs) st = panic"
| "receiptLoop n t (Some r # rs) st = receiptLoop n t rs (receiptStep n t (rc_TxHash r) st)"

definition RemoveByReceipts ::
  "(u32 fset \<Rightarrow> u32 list) \<Rightarrow> Header \<Rightarrow> Receipt option list \<Rightarrow> PendingMemPool \<Rightarrow>
   (FeeBucketStat list \<times> nat \<times> PendingMemPool) go" where
  "RemoveByReceipts ord header receipts pool =
     do {
       num \<leftarrow> hd_Number header;
       (pool', stats, removed_cnt) \<leftarrow>
         receiptLoop (big_Uint64 num) (hd_Time header) receipts (pool, fmempty, 0);
       ret (List.map_filter (fmlookup stats) (ord (fmdom stats)), removed_cnt, pool')
     }"

section \<open>Expiry\<close>

definition expireTx :: "ptr \<Rightarrow> PendingMemPool \<times> nat \<Rightarrow> PendingMemPool \<times> nat" where
  "expireTx p = (\<lambda>(pool, removed_cnt).
     let tx = pp_heap pool p
     in case fmlookup (pp_Accounts pool) (pt_From tx) of
          None \<Rightarrow> (pool, removed_cnt)
        | Some account \<Rightarrow>
            (case fmlookup account (pt_Nonce tx) of
               None \<Rightarrow> (pool, removed_cnt)
             | Some storedTx \<Rightarrow>
                 if pt_Hash (pp_heap pool storedTx) \<noteq> pt_Hash tx then (pool, removed_cnt)
                 else
                   let account' = fmdrop (pt_Nonce tx) account;
                       accounts = (if account' = fmempty then fmdrop (pt_From tx) (pp_Accounts pool)
                                   else fmupd (pt_From tx) account' (pp_Accounts pool))
                   in (pool\<lparr>pp_Accounts := accounts,
                            pp_HashIndex := fmdrop (pt_Hash tx) (pp_HashIndex pool)\<rparr>,
                       removed_cnt + 1)))"

definition expireBlock :: "u64 \<Rightarrow> u64 \<Rightarrow> PendingMemPool \<times> nat \<Rightarrow> PendingMemPool \<times> nat" where
  "expireBlock curBlock block = (\<lambda>(pool, removed_cnt).
     if block > curBlock then (pool, removed_cnt)
     else
       let (pool', removed') = fold expireTx (bkt pool block) (pool, removed_cnt)
       in (pool'\<lparr>pp_ExpireBuckets := fmdrop block (pp_ExpireBuckets pool')\<rparr>, removed'))"

definition RemoveExpired ::
  "(u64 fset \<Rightarrow> u64 list) \<Rightarrow> u64 \<Rightarrow> PendingMemPool \<Rightarrow> PendingMemPool \<times> nat" where
  "RemoveExpired ord curBlock pool =
     fold (expireBlock curBlock) (ord (fmdom (pp_ExpireBuckets pool))) (pool, 0)"

section \<open>Snapshot\<close>

fun snapNonces ::
  "(ptr \<Rightarrow> PendingTx) \<Rightarrow> NonceMap \<Rightarrow> u64 list \<Rightarrow> u64 \<Rightarrow> bool \<Rightarrow> PendingTx list" where
  "snapNonces heap account [] expected hasGap = []"
| "snapNonces heap account (nonce # nonces) expected hasGap =
     (let hasGap' = (hasGap \<or> nonce \<noteq> expected)
      in (case fmlookup account nonce of
            None \<Rightarrow> []
          | Some p \<Rightarrow> [(heap p)\<lparr>pt_NonceGap := hasGap'\<rparr>]) @
         snapNonces heap account nonces (nonce + 1) hasGap')"

definition snapAccount :: "(ptr \<Rightarrow> PendingTx) \<Rightarrow> NonceMap \<Rightarrow> PendingTx list" where
  "snapAccount heap account =
     (case sorted_list_of_fset (fmdom account) of
        [] \<Rightarrow> []
      | nonce # nonces \<Rightarrow> snapNonces heap account (nonce # nonces) nonce False)"

definition Snapshot :: "(Address fset \<Rightarrow> Address list) \<Rightarrow> PendingMemPool \<Rightarrow> PendingTx list" where
  "Snapshot ord pool =
     concat (map (\<lambda>a. snapAccount (pp_heap pool) (account_of pool a)) (ord (fmdom (pp_Accounts pool))))"

end
