(* ===== verification/Mempool_Inv.thy ===== *)
theory Mempool_Inv
  imports Mempool
begin

text \<open>
  The well-formedness of the pool and its preservation by every operation. The three indexes
  agree: a pointer is in the hash index exactly when it is the entry of its account under its
  nonce and when it stands in the bucket of its expiry block, at the position it records in
  \<open>ExpireIndex\<close>. No account and no bucket is empty. \<open>key\<close> is the sender and nonce that a
  transaction hash determines: two transactions with one hash are the same transaction.
\<close>

definition acct :: "PendingMemPool \<Rightarrow> Address \<Rightarrow> u64 \<Rightarrow> ptr option" where
  "acct pool a n = fmlookup (account_of pool a) n"

definition hidx :: "PendingMemPool \<Rightarrow> Hash \<Rightarrow> ptr option" where
  "hidx pool h = fmlookup (pp_HashIndex pool) h"

definition at_bucket :: "PendingMemPool \<Rightarrow> u64 \<Rightarrow> nat \<Rightarrow> ptr \<Rightarrow> bool" where
  "at_bucket pool b i p \<longleftrightarrow> i < length (bkt pool b) \<and> bkt pool b ! i = p"

definition pool_hash_inv :: "(Hash \<Rightarrow> Address \<times> u64) \<Rightarrow> PendingMemPool \<Rightarrow> bool" where
  "pool_hash_inv key pool \<longleftrightarrow> (\<forall>h p. hidx pool h = Some p \<longrightarrow>
     (let tx = pp_heap pool p in
      p < pp_next pool \<and> pt_Hash tx = h \<and> acct pool (pt_From tx) (pt_Nonce tx) = Some p \<and>
      key h = (pt_From tx, pt_Nonce tx) \<and>
      0 \<le> pt_ExpireIndex tx \<and> at_bucket pool (pt_ExpireBlock tx) (nat (pt_ExpireIndex tx)) p))"

definition pool_acct_inv :: "PendingMemPool \<Rightarrow> bool" where
  "pool_acct_inv pool \<longleftrightarrow> (\<forall>a n p. acct pool a n = Some p \<longrightarrow>
     (let tx = pp_heap pool p in
      pt_From tx = a \<and> pt_Nonce tx = n \<and> hidx pool (pt_Hash tx) = Some p))"

definition pool_bucket_inv :: "PendingMemPool \<Rightarrow> bool" where
  "pool_bucket_inv pool \<longleftrightarrow> (\<forall>b i p. at_bucket pool b i p \<longrightarrow>
     (let tx = pp_heap pool p in
      pt_ExpireBlock tx = b \<and> pt_ExpireIndex tx = int i \<and> hidx pool (pt_Hash tx) = Some p))"

definition pool_tidy :: "PendingMemPool \<Rightarrow> bool" where
  "pool_tidy pool \<longleftrightarrow>
     (\<forall>a. fmlookup (pp_Accounts pool) a \<noteq> Some fmempty) \<and>
     (\<forall>b. fmlookup (pp_ExpireBuckets pool) b \<noteq> Some [])"

definition pool_inv :: "(Hash \<Rightarrow> Address \<times> u64) \<Rightarrow> PendingMemPool \<Rightarrow> bool" where
  "pool_inv key pool \<longleftrightarrow>
     pool_hash_inv key pool \<and> pool_acct_inv pool \<and> pool_bucket_inv pool \<and> pool_tidy pool"

lemmas pool_inv_defs =
  pool_inv_def pool_hash_inv_def pool_acct_inv_def pool_bucket_inv_def Let_def

lemma pool_invI:
  assumes "\<And>h p. hidx pool h = Some p \<Longrightarrow>
      p < pp_next pool \<and> pt_Hash (pp_heap pool p) = h \<and>
      acct pool (pt_From (pp_heap pool p)) (pt_Nonce (pp_heap pool p)) = Some p \<and>
      key h = (pt_From (pp_heap pool p), pt_Nonce (pp_heap pool p)) \<and>
      0 \<le> pt_ExpireIndex (pp_heap pool p) \<and>
      at_bucket pool (pt_ExpireBlock (pp_heap pool p)) (nat (pt_ExpireIndex (pp_heap pool p))) p"
    and "\<And>a n p. acct pool a n = Some p \<Longrightarrow>
      pt_From (pp_heap pool p) = a \<and> pt_Nonce (pp_heap pool p) = n \<and>
      hidx pool (pt_Hash (pp_heap pool p)) = Some p"
    and "\<And>b i p. at_bucket pool b i p \<Longrightarrow>
      pt_ExpireBlock (pp_heap pool p) = b \<and> pt_ExpireIndex (pp_heap pool p) = int i \<and>
      hidx pool (pt_Hash (pp_heap pool p)) = Some p"
    and "pool_tidy pool"
  shows "pool_inv key pool"
  using assms by (auto simp: pool_inv_defs)

lemma pool_inv_hash:
  assumes "pool_inv key pool" "hidx pool h = Some p"
  shows "p < pp_next pool" "pt_Hash (pp_heap pool p) = h"
    "acct pool (pt_From (pp_heap pool p)) (pt_Nonce (pp_heap pool p)) = Some p"
    "key h = (pt_From (pp_heap pool p), pt_Nonce (pp_heap pool p))"
    "0 \<le> pt_ExpireIndex (pp_heap pool p)"
    "at_bucket pool (pt_ExpireBlock (pp_heap pool p)) (nat (pt_ExpireIndex (pp_heap pool p))) p"
  using assms by (auto simp: pool_inv_defs)

lemma pool_inv_acct:
  assumes "pool_inv key pool" "acct pool a n = Some p"
  shows "pt_From (pp_heap pool p) = a" "pt_Nonce (pp_heap pool p) = n"
    "hidx pool (pt_Hash (pp_heap pool p)) = Some p"
  using assms by (auto simp: pool_inv_defs)

lemma pool_inv_bucket:
  assumes "pool_inv key pool" "at_bucket pool b i p"
  shows "pt_ExpireBlock (pp_heap pool p) = b" "pt_ExpireIndex (pp_heap pool p) = int i"
    "hidx pool (pt_Hash (pp_heap pool p)) = Some p"
  using assms by (auto simp: pool_inv_defs)

lemma at_bucket_mem: "at_bucket pool b i p \<Longrightarrow> p \<in> set (bkt pool b)"
  by (auto simp: at_bucket_def)

lemma pool_inv_tidy: "pool_inv key pool \<Longrightarrow> pool_tidy pool"
  by (simp add: pool_inv_def)

lemma bucket_distinct:
  assumes "pool_inv key pool"
  shows "distinct (bkt pool b)"
proof (rule distinct_conv_nth [THEN iffD2, rule_format])
  fix i j assume "i < length (bkt pool b)" "j < length (bkt pool b)" "i \<noteq> j"
  then show "bkt pool b ! i \<noteq> bkt pool b ! j"
    using pool_inv_bucket(2) [OF assms, of b i "bkt pool b ! i"]
      pool_inv_bucket(2) [OF assms, of b j "bkt pool b ! j"]
    by (auto simp: at_bucket_def)
qed

lemma last_in_bucket:
  assumes "pool_inv key pool" "at_bucket pool b i p"
  shows "pt_ExpireBlock (pp_heap pool (bkt pool b ! (length (bkt pool b) - 1))) = b"
  using assms(2)
  by (intro pool_inv_bucket(1) [OF assms(1), of b "length (bkt pool b) - 1"]) (auto simp: at_bucket_def)

section \<open>Accounts as one map\<close>

definition drop_nonce :: "Address \<Rightarrow> u64 \<Rightarrow> (Address, NonceMap) fmap \<Rightarrow> (Address, NonceMap) fmap" where
  "drop_nonce a n accounts = (case fmlookup accounts a of
       None \<Rightarrow> accounts
     | Some account \<Rightarrow>
         let account' = fmdrop n account
         in if account' = fmempty then fmdrop a accounts else fmupd a account' accounts)"

lemma acct_def2: "acct pool a n = Option.bind (fmlookup (pp_Accounts pool) a) (\<lambda>m. fmlookup m n)"
  by (simp add: acct_def account_of_def split: option.splits)

lemma fmlookup_empty_map: "m = fmempty \<Longrightarrow> fmlookup m k = None"
  by simp

lemma drop_nonce_lookup:
  "Option.bind (fmlookup (drop_nonce a n accounts) b) (\<lambda>m. fmlookup m k) =
     (if (b, k) = (a, n) then None else Option.bind (fmlookup accounts b) (\<lambda>m. fmlookup m k))"
proof (cases "fmlookup accounts a")
  case None
  then show ?thesis by (auto simp: drop_nonce_def)
next
  case (Some m)
  have "fmlookup (fmdrop n m) k = (if k = n then None else fmlookup m k)" by simp
  with Some show ?thesis
    by (auto simp: drop_nonce_def Let_def dest: fmlookup_empty_map [of _ k])
qed

lemma drop_nonce_tidy:
  assumes "\<forall>b. fmlookup accounts b \<noteq> Some fmempty"
  shows "fmlookup (drop_nonce a n accounts) b \<noteq> Some fmempty"
  using assms by (auto simp: drop_nonce_def Let_def split: option.splits)

section \<open>Removing an entry from its bucket\<close>

text \<open>The list that the swap with the last element leaves.\<close>

definition swap_remove :: "'a list \<Rightarrow> nat \<Rightarrow> 'a list" where
  "swap_remove l i =
     take (length l - 1) (if i \<noteq> length l - 1 then l[i := l ! (length l - 1)] else l)"

lemma swap_remove_nth:
  assumes "i < length l" "j < length (swap_remove l i)"
  shows "swap_remove l i ! j = (if j = i then l ! (length l - 1) else l ! j)"
  using assms by (auto simp: swap_remove_def nth_list_update)

lemma swap_remove_length [simp]: "length (swap_remove l i) = length l - 1"
  by (simp add: swap_remove_def)

text \<open>What \<open>removeExpireBucket\<close> does to an entry that stands where it says.\<close>

lemma removeExpireBucket_eq:
  assumes "at_bucket pool b i p" "pt_ExpireBlock (pp_heap pool p) = b"
    "pt_ExpireIndex (pp_heap pool p) = int i"
  shows "bkt (removeExpireBucket p pool) c = (if c = b then swap_remove (bkt pool b) i else bkt pool c)"
    "pp_heap (removeExpireBucket p pool) =
      (if i \<noteq> length (bkt pool b) - 1
       then (pp_heap pool)(bkt pool b ! (length (bkt pool b) - 1) :=
          (pp_heap pool (bkt pool b ! (length (bkt pool b) - 1)))\<lparr>pt_ExpireIndex := int i\<rparr>)
       else pp_heap pool)"
    "pp_Accounts (removeExpireBucket p pool) = pp_Accounts pool"
    "pp_HashIndex (removeExpireBucket p pool) = pp_HashIndex pool"
    "pp_next (removeExpireBucket p pool) = pp_next pool"
    "(\<forall>d. fmlookup (pp_ExpireBuckets pool) d \<noteq> Some []) \<Longrightarrow>
       fmlookup (pp_ExpireBuckets (removeExpireBucket p pool)) c \<noteq> Some []"
proof -
  define l where "l = bkt pool b"
  have l: "fmlookup (pp_ExpireBuckets pool) b = Some l" "l \<noteq> []" "i < length l" "l ! i = p"
    using assms(1) by (auto simp: at_bucket_def l_def bkt_def split: option.splits)
  let ?q = "l ! (length l - 1)"
  let ?pool' = "if i \<noteq> length l - 1 then set_ExpireIndex ?q (int i) pool else pool"
  have eq: "removeExpireBucket p pool =
     (if swap_remove l i = [] then ?pool'\<lparr>pp_ExpireBuckets := fmdrop b (pp_ExpireBuckets pool)\<rparr>
      else ?pool'\<lparr>pp_ExpireBuckets := fmupd b (swap_remove l i) (pp_ExpireBuckets pool)\<rparr>)"
    using assms(2,3) l by (simp add: removeExpireBucket_def Let_def swap_remove_def)
  show "bkt (removeExpireBucket p pool) c = (if c = b then swap_remove (bkt pool b) i else bkt pool c)"
    by (simp add: eq bkt_def [of _ c] l_def [symmetric] set_ExpireIndex_def)
  show "pp_heap (removeExpireBucket p pool) =
      (if i \<noteq> length (bkt pool b) - 1
       then (pp_heap pool)(bkt pool b ! (length (bkt pool b) - 1) :=
          (pp_heap pool (bkt pool b ! (length (bkt pool b) - 1)))\<lparr>pt_ExpireIndex := int i\<rparr>)
       else pp_heap pool)"
    by (simp add: eq l_def [symmetric] set_ExpireIndex_def)
  show "pp_Accounts (removeExpireBucket p pool) = pp_Accounts pool"
    "pp_HashIndex (removeExpireBucket p pool) = pp_HashIndex pool"
    "pp_next (removeExpireBucket p pool) = pp_next pool"
    by (simp_all add: eq set_ExpireIndex_def)
  show "fmlookup (pp_ExpireBuckets (removeExpireBucket p pool)) c \<noteq> Some []"
    if "\<forall>d. fmlookup (pp_ExpireBuckets pool) d \<noteq> Some []"
    using that by (simp add: eq)
qed

section \<open>Removing a transaction\<close>

text \<open>The content of an object apart from its position in a bucket.\<close>

definition tx_core :: "PendingTx \<Rightarrow> PendingTx" where
  "tx_core t = t\<lparr>pt_ExpireIndex := 0\<rparr>"

lemma tx_core_fields:
  assumes "tx_core t = tx_core u"
  shows "pt_Hash t = pt_Hash u" "pt_From t = pt_From u" "pt_Nonce t = pt_Nonce u"
    "pt_TipCap t = pt_TipCap u" "pt_FeeCap t = pt_FeeCap u" "pt_GasLimit t = pt_GasLimit u"
    "pt_SeenBlock t = pt_SeenBlock u" "pt_SeenBlockTime t = pt_SeenBlockTime u"
    "pt_ExpireBlock t = pt_ExpireBlock u" "pt_NonceGap t = pt_NonceGap u"
  using assms by (cases t; cases u; simp add: tx_core_def)+

lemma tx_core_ExpireIndex [simp]: "tx_core (t\<lparr>pt_ExpireIndex := i\<rparr>) = tx_core t"
  by (simp add: tx_core_def)

lemma tx_core_idem [simp]: "tx_core (tx_core t) = tx_core t"
  by (simp add: tx_core_def)

lemma tx_core_sel [simp]:
  "pt_Hash (tx_core t) = pt_Hash t" "pt_From (tx_core t) = pt_From t"
  "pt_Nonce (tx_core t) = pt_Nonce t" "pt_TipCap (tx_core t) = pt_TipCap t"
  "pt_FeeCap (tx_core t) = pt_FeeCap t" "pt_ExpireBlock (tx_core t) = pt_ExpireBlock t"
  "pt_SeenBlock (tx_core t) = pt_SeenBlock t" "pt_SeenBlockTime (tx_core t) = pt_SeenBlockTime t"
  by (simp_all add: tx_core_def)

lemma removeByHash_eq:
  "removeByHash p pool = removeExpireBucket p
     (pool\<lparr>pp_Accounts := drop_nonce (pt_From (pp_heap pool p)) (pt_Nonce (pp_heap pool p)) (pp_Accounts pool),
           pp_HashIndex := fmdrop (pt_Hash (pp_heap pool p)) (pp_HashIndex pool)\<rparr>)"
  by (simp add: removeByHash_def drop_nonce_def Let_def cong: option.case_cong)

lemma removeExpireBucket_frame [simp]:
  "pp_Signer (removeExpireBucket p pool) = pp_Signer pool"
  "pp_TTLBlock (removeExpireBucket p pool) = pp_TTLBlock pool"
  by (simp_all add: removeExpireBucket_def set_ExpireIndex_def Let_def split: option.split)

lemma removeByHash_frame [simp]:
  "pp_Signer (removeByHash p pool) = pp_Signer pool"
  "pp_TTLBlock (removeByHash p pool) = pp_TTLBlock pool"
  by (simp_all add: removeByHash_eq)

lemma removeByHash_effect:
  assumes inv: "pool_inv key pool" and live: "hidx pool h = Some p"
  defines "pool' \<equiv> removeByHash p pool"
    and "b \<equiv> pt_ExpireBlock (pp_heap pool p)"
    and "i \<equiv> nat (pt_ExpireIndex (pp_heap pool p))"
  shows "acct pool' a n =
      (if (a, n) = (pt_From (pp_heap pool p), pt_Nonce (pp_heap pool p)) then None else acct pool a n)"
    and "hidx pool' k = (if k = h then None else hidx pool k)"
    and "bkt pool' c = (if c = b then swap_remove (bkt pool b) i else bkt pool c)"
    and "pp_heap pool' =
      (if i \<noteq> length (bkt pool b) - 1
       then (pp_heap pool)(bkt pool b ! (length (bkt pool b) - 1) :=
          (pp_heap pool (bkt pool b ! (length (bkt pool b) - 1)))\<lparr>pt_ExpireIndex := int i\<rparr>)
       else pp_heap pool)"
    and "pp_next pool' = pp_next pool"
    and "pool_tidy pool'"
proof -
  note live_facts = pool_inv_hash [OF inv live]
  let ?pool1 = "pool\<lparr>pp_Accounts := drop_nonce (pt_From (pp_heap pool p)) (pt_Nonce (pp_heap pool p)) (pp_Accounts pool),
           pp_HashIndex := fmdrop h (pp_HashIndex pool)\<rparr>"
  have pool': "pool' = removeExpireBucket p ?pool1"
    using live_facts by (simp add: pool'_def removeByHash_eq)
  have bkt1: "bkt ?pool1 = bkt pool" by (simp add: fun_eq_iff bkt_def)
  have at: "at_bucket ?pool1 b i p" "pt_ExpireBlock (pp_heap ?pool1 p) = b"
    "pt_ExpireIndex (pp_heap ?pool1 p) = int i"
    using live_facts by (simp_all add: at_bucket_def bkt1 b_def i_def)
  note eff = removeExpireBucket_eq [OF at]
  show "acct pool' a n =
      (if (a, n) = (pt_From (pp_heap pool p), pt_Nonce (pp_heap pool p)) then None else acct pool a n)"
    by (simp add: pool' acct_def2 eff drop_nonce_lookup)
  show "hidx pool' k = (if k = h then None else hidx pool k)"
    by (simp add: pool' hidx_def eff)
  show "bkt pool' c = (if c = b then swap_remove (bkt pool b) i else bkt pool c)"
    by (simp add: pool' eff bkt1)
  show "pp_heap pool' =
      (if i \<noteq> length (bkt pool b) - 1
       then (pp_heap pool)(bkt pool b ! (length (bkt pool b) - 1) :=
          (pp_heap pool (bkt pool b ! (length (bkt pool b) - 1)))\<lparr>pt_ExpireIndex := int i\<rparr>)
       else pp_heap pool)"
    by (simp add: pool' eff bkt1)
  show "pp_next pool' = pp_next pool" by (simp add: pool' eff)
  show "pool_tidy pool'"
    using pool_inv_tidy [OF inv] eff(6)
    by (simp add: pool' pool_tidy_def eff(3) drop_nonce_tidy)
qed

lemma removeByHash_core:
  assumes inv: "pool_inv key pool" and live: "hidx pool h = Some p"
  shows "tx_core (pp_heap (removeByHash p pool) q) = tx_core (pp_heap pool q)"
  by (simp add: removeByHash_effect(4) [OF inv live])

text \<open>
  Where a pointer that stays in the pool stands after the removal of \<open>p\<close>: the last entry of the
  bucket moves to the freed position, every other one keeps its place.
\<close>

lemma removeByHash_at_bucket:
  assumes inv: "pool_inv key pool" and live: "hidx pool h = Some p"
    and old: "at_bucket pool c j q" and "q \<noteq> p"
  shows "0 \<le> pt_ExpireIndex (pp_heap (removeByHash p pool) q) \<and>
    at_bucket (removeByHash p pool) c (nat (pt_ExpireIndex (pp_heap (removeByHash p pool) q))) q"
proof -
  define b i where "b = pt_ExpireBlock (pp_heap pool p)" and "i = nat (pt_ExpireIndex (pp_heap pool p))"
  note eff = removeByHash_effect [OF inv live, folded b_def i_def]
  have atp: "at_bucket pool b i p" using pool_inv_hash(6) [OF inv live] by (simp add: b_def i_def)
  note jq = pool_inv_bucket [OF inv old]
  show ?thesis
  proof (cases "c = b")
    case False
    then have "pp_heap (removeByHash p pool) q = pp_heap pool q"
      using last_in_bucket [OF inv atp] jq by (auto simp: eff)
    with False jq old show ?thesis by (simp add: at_bucket_def eff)
  next
    case True
    have ij: "i \<noteq> j" using old atp \<open>q \<noteq> p\<close> True by (auto simp: at_bucket_def)
    have lens: "i < length (bkt pool b)" "j < length (bkt pool b)" "bkt pool b ! j = q"
      using old atp True by (auto simp: at_bucket_def)
    show ?thesis
    proof (cases "j = length (bkt pool b) - 1")
      case last: True
      with ij lens True show ?thesis by (auto simp: at_bucket_def eff swap_remove_nth)
    next
      case False
      then have "q \<noteq> bkt pool b ! (length (bkt pool b) - 1)"
        using lens bucket_distinct [OF inv, of b] by (auto simp: nth_eq_iff_index_eq)
      with False ij lens True jq show ?thesis by (auto simp: at_bucket_def eff swap_remove_nth)
    qed
  qed
qed

text \<open>Conversely, every entry of a bucket after the removal was there before.\<close>

lemma removeByHash_from_bucket:
  assumes inv: "pool_inv key pool" and live: "hidx pool h = Some p"
    and new: "at_bucket (removeByHash p pool) c j q"
  shows "q \<noteq> p \<and> (\<exists>k. at_bucket pool c k q) \<and> pt_ExpireIndex (pp_heap (removeByHash p pool) q) = int j"
proof -
  define b i where "b = pt_ExpireBlock (pp_heap pool p)" and "i = nat (pt_ExpireIndex (pp_heap pool p))"
  note eff = removeByHash_effect [OF inv live, folded b_def i_def]
  have atp: "at_bucket pool b i p" using pool_inv_hash(6) [OF inv live] by (simp add: b_def i_def)
  show ?thesis
  proof (cases "c = b")
    case False
    with new have old: "at_bucket pool c j q" by (simp add: at_bucket_def eff)
    have "q \<noteq> p" using pool_inv_bucket(1) [OF inv old] False by (auto simp: b_def)
    moreover have "pp_heap (removeByHash p pool) q = pp_heap pool q"
      using last_in_bucket [OF inv atp] pool_inv_bucket(1) [OF inv old] False by (auto simp: eff)
    ultimately show ?thesis using pool_inv_bucket [OF inv old] old by auto
  next
    case True
    let ?l = "bkt pool b"
    have len: "i < length ?l" "?l ! i = p" "j < length ?l - 1" "swap_remove ?l i ! j = q"
      using new atp True by (auto simp: at_bucket_def eff)
    then have q: "q = (if j = i then ?l ! (length ?l - 1) else ?l ! j)"
      by (simp add: swap_remove_nth [symmetric])
    define k where "k = (if j = i then length ?l - 1 else j)"
    have k: "k < length ?l" "?l ! k = q" "k \<noteq> i" using len q by (auto simp: k_def)
    then have old: "at_bucket pool c k q" using True by (simp add: at_bucket_def)
    moreover have "q \<noteq> p"
      using k len(1,2) bucket_distinct [OF inv, of b] by (auto simp: nth_eq_iff_index_eq)
    moreover have "pt_ExpireIndex (pp_heap (removeByHash p pool) q) = int j"
    proof (cases "j = i")
      case True
      then show ?thesis using len k by (auto simp: eff k_def)
    next
      case False
      then have "q \<noteq> ?l ! (length ?l - 1)"
        using k len bucket_distinct [OF inv, of b] by (auto simp: nth_eq_iff_index_eq k_def)
      then show ?thesis using pool_inv_bucket(2) [OF inv old] False by (auto simp: eff k_def)
    qed
    ultimately show ?thesis by blast
  qed
qed

lemma removeByHash_inv:
  assumes inv: "pool_inv key pool" and live: "hidx pool h = Some p"
  shows "pool_inv key (removeByHash p pool)"
proof (rule pool_invI)
  note core = removeByHash_core [OF inv live, THEN tx_core_fields(1)]
    removeByHash_core [OF inv live, THEN tx_core_fields(2)]
    removeByHash_core [OF inv live, THEN tx_core_fields(3)]
    removeByHash_core [OF inv live, THEN tx_core_fields(9)]
  note eff = removeByHash_effect [OF inv live]
  note livef = pool_inv_hash [OF inv live]
  show "pool_tidy (removeByHash p pool)" by (rule eff(6))
  fix k q assume "hidx (removeByHash p pool) k = Some q"
  then have k: "k \<noteq> h" "hidx pool k = Some q" by (auto simp: eff(2) split: if_splits)
  note qf = pool_inv_hash [OF inv k(2)]
  have qp: "q \<noteq> p" using k qf(2) livef(2) by auto
  have "acct (removeByHash p pool) (pt_From (pp_heap pool q)) (pt_Nonce (pp_heap pool q)) = Some q"
    using qf(3) livef(3) qp by (auto simp: eff(1))
  with removeByHash_at_bucket [OF inv live qf(6) qp] qf eff(5)
  show "q < pp_next (removeByHash p pool) \<and> pt_Hash (pp_heap (removeByHash p pool) q) = k \<and>
      acct (removeByHash p pool) (pt_From (pp_heap (removeByHash p pool) q))
        (pt_Nonce (pp_heap (removeByHash p pool) q)) = Some q \<and>
      key k = (pt_From (pp_heap (removeByHash p pool) q), pt_Nonce (pp_heap (removeByHash p pool) q)) \<and>
      0 \<le> pt_ExpireIndex (pp_heap (removeByHash p pool) q) \<and>
      at_bucket (removeByHash p pool) (pt_ExpireBlock (pp_heap (removeByHash p pool) q))
        (nat (pt_ExpireIndex (pp_heap (removeByHash p pool) q))) q"
    by (simp add: core)
next
  note core = removeByHash_core [OF inv live, THEN tx_core_fields(1)]
    removeByHash_core [OF inv live, THEN tx_core_fields(2)]
    removeByHash_core [OF inv live, THEN tx_core_fields(3)]
    removeByHash_core [OF inv live, THEN tx_core_fields(9)]
  note eff = removeByHash_effect [OF inv live]
  note livef = pool_inv_hash [OF inv live]
  {
    fix a n q assume "acct (removeByHash p pool) a n = Some q"
    then have an: "(a, n) \<noteq> (pt_From (pp_heap pool p), pt_Nonce (pp_heap pool p))" "acct pool a n = Some q"
      by (auto simp: eff(1) split: if_splits)
    note qf = pool_inv_acct [OF inv an(2)]
    have "q \<noteq> p" using an(1) qf by auto
    then have "pt_Hash (pp_heap pool q) \<noteq> h" using qf(3) live by auto
    with qf show "pt_From (pp_heap (removeByHash p pool) q) = a \<and>
      pt_Nonce (pp_heap (removeByHash p pool) q) = n \<and>
      hidx (removeByHash p pool) (pt_Hash (pp_heap (removeByHash p pool) q)) = Some q"
      by (simp add: core eff(2))
  next
    fix c j q assume new: "at_bucket (removeByHash p pool) c j q"
    then obtain k where k: "q \<noteq> p" "at_bucket pool c k q"
      "pt_ExpireIndex (pp_heap (removeByHash p pool) q) = int j"
      using removeByHash_from_bucket [OF inv live new] by blast
    note qf = pool_inv_bucket [OF inv k(2)]
    have "pt_Hash (pp_heap pool q) \<noteq> h" using qf(3) live k(1) by auto
    with qf k show "pt_ExpireBlock (pp_heap (removeByHash p pool) q) = c \<and>
      pt_ExpireIndex (pp_heap (removeByHash p pool) q) = int j \<and>
      hidx (removeByHash p pool) (pt_Hash (pp_heap (removeByHash p pool) q)) = Some q"
      by (simp add: core eff(2))
  }
qed

section \<open>Storing a transaction\<close>

lemma storeTx_sel:
  "pp_Accounts (storeTx tx account pool) =
     fmupd (pt_From tx) (fmupd (pt_Nonce tx) (pp_next pool) account) (pp_Accounts pool)"
  "pp_HashIndex (storeTx tx account pool) = fmupd (pt_Hash tx) (pp_next pool) (pp_HashIndex pool)"
  "pp_ExpireBuckets (storeTx tx account pool) =
     fmupd (pt_ExpireBlock tx) (bkt pool (pt_ExpireBlock tx) @ [pp_next pool]) (pp_ExpireBuckets pool)"
  "pp_heap (storeTx tx account pool) =
     (pp_heap pool)(pp_next pool := tx\<lparr>pt_ExpireIndex := int (length (bkt pool (pt_ExpireBlock tx)))\<rparr>)"
  "pp_next (storeTx tx account pool) = Suc (pp_next pool)"
  "pp_Signer (storeTx tx account pool) = pp_Signer pool"
  "pp_TTLBlock (storeTx tx account pool) = pp_TTLBlock pool"
  by (simp_all add: storeTx_def addExpireBucket_def set_ExpireIndex_def Let_def bkt_def)

lemma account_of_storeTx:
  "account_of (storeTx tx account pool) a =
     (if a = pt_From tx then fmupd (pt_Nonce tx) (pp_next pool) account else account_of pool a)"
  by (simp add: account_of_def storeTx_sel)

lemma storeTx_effect:
  assumes "account = account_of pool (pt_From tx)"
  shows "acct (storeTx tx account pool) a n =
      (if (a, n) = (pt_From tx, pt_Nonce tx) then Some (pp_next pool) else acct pool a n)"
    and "hidx (storeTx tx account pool) k = (if k = pt_Hash tx then Some (pp_next pool) else hidx pool k)"
    and "bkt (storeTx tx account pool) c =
      (if c = pt_ExpireBlock tx then bkt pool c @ [pp_next pool] else bkt pool c)"
    and "pool_tidy pool \<Longrightarrow> pool_tidy (storeTx tx account pool)"
proof -
  show "acct (storeTx tx account pool) a n =
      (if (a, n) = (pt_From tx, pt_Nonce tx) then Some (pp_next pool) else acct pool a n)"
    by (simp add: acct_def account_of_storeTx assms)
  show "hidx (storeTx tx account pool) k = (if k = pt_Hash tx then Some (pp_next pool) else hidx pool k)"
    by (simp add: hidx_def storeTx_sel)
  show "bkt (storeTx tx account pool) c =
      (if c = pt_ExpireBlock tx then bkt pool c @ [pp_next pool] else bkt pool c)"
    by (simp add: bkt_def [of "storeTx tx account pool"] storeTx_sel) (simp add: bkt_def)
  show "pool_tidy pool \<Longrightarrow> pool_tidy (storeTx tx account pool)"
    by (simp add: pool_tidy_def storeTx_sel)
qed

lemma storeTx_inv:
  assumes inv: "pool_inv key pool" and account: "account = account_of pool (pt_From tx)"
    and free: "acct pool (pt_From tx) (pt_Nonce tx) = None"
    and key: "key (pt_Hash tx) = (pt_From tx, pt_Nonce tx)"
  shows "pool_inv key (storeTx tx account pool)"
proof -
  define p where "p = pp_next pool"
  note eff = storeTx_effect [OF account, folded p_def] storeTx_sel [of tx account pool, folded p_def]
  have nohash: "hidx pool (pt_Hash tx) = None"
    using pool_inv_hash(3,4) [OF inv] free key by (metis fst_conv not_None_eq snd_conv)
  have fresh: "q \<noteq> p" if "hidx pool k = Some q" for k q
    using pool_inv_hash(1) [OF inv that] by (auto simp: p_def)
  have bfresh: "q \<noteq> p" if "at_bucket pool c j q" for c j q
    using pool_inv_bucket(3) [OF inv that] fresh by blast
  have afresh: "q \<noteq> p" if "acct pool a n = Some q" for a n q
    using pool_inv_acct(3) [OF inv that] fresh by blast
  show ?thesis
  proof (rule pool_invI)
    show "pool_tidy (storeTx tx account pool)" using pool_inv_tidy [OF inv] by (rule eff)
  next
    fix k q assume "hidx (storeTx tx account pool) k = Some q"
    then consider "k = pt_Hash tx" "q = p" | "k \<noteq> pt_Hash tx" "hidx pool k = Some q"
      by (auto simp: eff split: if_splits)
    then show "q < pp_next (storeTx tx account pool) \<and> pt_Hash (pp_heap (storeTx tx account pool) q) = k \<and>
      acct (storeTx tx account pool) (pt_From (pp_heap (storeTx tx account pool) q))
        (pt_Nonce (pp_heap (storeTx tx account pool) q)) = Some q \<and>
      key k = (pt_From (pp_heap (storeTx tx account pool) q), pt_Nonce (pp_heap (storeTx tx account pool) q)) \<and>
      0 \<le> pt_ExpireIndex (pp_heap (storeTx tx account pool) q) \<and>
      at_bucket (storeTx tx account pool) (pt_ExpireBlock (pp_heap (storeTx tx account pool) q))
        (nat (pt_ExpireIndex (pp_heap (storeTx tx account pool) q))) q"
    proof cases
      case 1
      with key show ?thesis by (simp add: eff at_bucket_def)
    next
      case 2
      note qf = pool_inv_hash [OF inv 2(2)]
      have "(pt_From (pp_heap pool q), pt_Nonce (pp_heap pool q)) \<noteq> (pt_From tx, pt_Nonce tx)"
        using qf(3) free by auto
      with fresh [OF 2(2)] qf show ?thesis by (auto simp: eff at_bucket_def nth_append p_def [symmetric])
    qed
  next
    fix a n q assume "acct (storeTx tx account pool) a n = Some q"
    then have "a = pt_From tx \<and> n = pt_Nonce tx \<and> q = p \<or> acct pool a n = Some q"
      unfolding eff(1) by (metis option.inject prod.inject)
    then consider "a = pt_From tx" "n = pt_Nonce tx" "q = p" | "acct pool a n = Some q" by blast
    then show "pt_From (pp_heap (storeTx tx account pool) q) = a \<and>
      pt_Nonce (pp_heap (storeTx tx account pool) q) = n \<and>
      hidx (storeTx tx account pool) (pt_Hash (pp_heap (storeTx tx account pool) q)) = Some q"
    proof cases
      case 2
      with pool_inv_acct [OF inv 2] afresh [OF 2] nohash show ?thesis by (auto simp: eff)
    qed (simp add: eff)
  next
    fix c j q assume "at_bucket (storeTx tx account pool) c j q"
    then consider "c = pt_ExpireBlock tx" "j = length (bkt pool c)" "q = p" | "at_bucket pool c j q"
      by (auto simp: at_bucket_def eff nth_append less_Suc_eq split: if_splits)
    then show "pt_ExpireBlock (pp_heap (storeTx tx account pool) q) = c \<and>
      pt_ExpireIndex (pp_heap (storeTx tx account pool) q) = int j \<and>
      hidx (storeTx tx account pool) (pt_Hash (pp_heap (storeTx tx account pool) q)) = Some q"
    proof cases
      case 2
      with pool_inv_bucket [OF inv 2] bfresh [OF 2] nohash show ?thesis by (auto simp: eff)
    qed (simp add: eff)
  qed
qed

text \<open>A replacement is the removal of the old entry followed by the insertion of the new one.\<close>

lemma fmupd_fmdrop: "fmupd k v (fmdrop k m) = fmupd k v m"
  by (rule fmap_ext) simp

lemma fmupd_overwrite: "fmupd k v (fmupd k w m) = fmupd k v m"
  by (rule fmap_ext) simp

lemma fmupd_drop_nonce: "fmupd a m (drop_nonce a n accounts) = fmupd a m accounts"
  by (rule fmap_ext) (simp add: drop_nonce_def Let_def split: option.split)

lemma removeExpireBucket_commute:
  "removeExpireBucket p (pool\<lparr>pp_Accounts := A, pp_HashIndex := H\<rparr>) =
     (removeExpireBucket p pool)\<lparr>pp_Accounts := A, pp_HashIndex := H\<rparr>"
  by (simp add: removeExpireBucket_def set_ExpireIndex_def Let_def split: option.split)

lemma replaceTx_eq:
  assumes inv: "pool_inv key pool" and old: "acct pool (pt_From tx) (pt_Nonce tx) = Some old"
  shows "storeTx tx (account_of pool (pt_From tx))
       ((removeExpireBucket old pool)
         \<lparr>pp_HashIndex := fmdrop (pt_Hash (pp_heap (removeExpireBucket old pool) old))
           (pp_HashIndex (removeExpireBucket old pool))\<rparr>) =
     storeTx tx (account_of (removeByHash old pool) (pt_From tx)) (removeByHash old pool)"
proof -
  note of = pool_inv_acct [OF inv old]
  note hf = pool_inv_hash [OF inv of(3)]
  have same: "pt_Hash (pp_heap (removeExpireBucket old pool) old) = pt_Hash (pp_heap pool old)"
    "pp_HashIndex (removeExpireBucket old pool) = pp_HashIndex pool"
    "pp_Accounts (removeExpireBucket old pool) = pp_Accounts pool"
    using removeExpireBucket_eq [OF hf(6)] hf(5) by auto
  have acc: "fmlookup (pp_Accounts pool) (pt_From tx) = Some (account_of pool (pt_From tx))"
    using old by (auto simp: acct_def2 account_of_def bind_eq_Some_conv)
  have "fmupd (pt_Nonce tx) v (account_of (removeByHash old pool) (pt_From tx)) =
     fmupd (pt_Nonce tx) v (account_of pool (pt_From tx))" for v
    by (simp add: removeByHash_eq removeExpireBucket_commute of account_of_def [of "_\<lparr>pp_Accounts := _\<rparr>"]
        account_of_def [of "_\<lparr>pp_Accounts := _, pp_HashIndex := _\<rparr>"] drop_nonce_def acc Let_def
        fmupd_fmdrop split: option.split) (metis fmupd_fmdrop)
  then show ?thesis
    by (simp add: storeTx_def removeByHash_eq removeExpireBucket_commute of same fmupd_drop_nonce Let_def)
qed

end
