(* ===== verification/Mempool_Refine.thy ===== *)
theory Mempool_Refine
  imports Mempool_Inv
begin

text \<open>
  The contract of the pool. Its abstract state is a partial map from a sender and a nonce to the
  pending transaction; an operation of the code refines an update of that map. The contract is
  the locale \<open>pending_pool\<close>, interpreted on the operations of the model.
\<close>

section \<open>The abstract pool\<close>

type_synonym pool_view = "Address \<times> u64 \<Rightarrow> PendingTx option"

definition pool_view :: "PendingMemPool \<Rightarrow> pool_view" where
  "pool_view pool = (\<lambda>(a, n). map_option (\<lambda>p. tx_core (pp_heap pool p)) (acct pool a n))"

definition tx_key :: "PendingTx \<Rightarrow> Address \<times> u64" where
  "tx_key tx = (pt_From tx, pt_Nonce tx)"

text \<open>A new transaction enters unless the old one of its key has at least its tip or fee cap.\<close>

definition spec_push :: "PendingTx \<Rightarrow> pool_view \<Rightarrow> pool_view" where
  "spec_push tx v = (case v (tx_key tx) of
       Some old \<Rightarrow>
         if pt_TipCap tx \<le> pt_TipCap old \<or> pt_FeeCap tx \<le> pt_FeeCap old then v
         else v(tx_key tx \<mapsto> tx_core tx)
     | None \<Rightarrow> v(tx_key tx \<mapsto> tx_core tx))"

definition spec_filter :: "(PendingTx \<Rightarrow> bool) \<Rightarrow> pool_view \<Rightarrow> pool_view" where
  "spec_filter P v = (\<lambda>k. case v k of None \<Rightarrow> None | Some t \<Rightarrow> if P t then Some t else None)"

lemma spec_filter_cong: "(\<And>k t. v k = Some t \<Longrightarrow> P t = Q t) \<Longrightarrow> spec_filter P v = spec_filter Q v"
  by (auto simp: spec_filter_def fun_eq_iff split: option.split)

lemma spec_filter_filter: "spec_filter P (spec_filter Q v) = spec_filter (\<lambda>t. Q t \<and> P t) v"
  by (auto simp: spec_filter_def fun_eq_iff split: option.split)

lemma spec_filter_True [simp]: "spec_filter (\<lambda>_. True) v = v"
  by (auto simp: spec_filter_def fun_eq_iff split: option.split)

lemma pool_view_Some:
  assumes "pool_inv key pool" "pool_view pool k = Some t"
  obtains p where "acct pool (fst k) (snd k) = Some p" "t = tx_core (pp_heap pool p)"
    "hidx pool (pt_Hash t) = Some p" "tx_key t = k"
proof -
  from assms(2) obtain p where p: "acct pool (fst k) (snd k) = Some p" "t = tx_core (pp_heap pool p)"
    by (auto simp: pool_view_def split: prod.splits)
  with pool_inv_acct [OF assms(1) p(1)] that show ?thesis by (simp add: tx_key_def)
qed

lemma pool_view_hidx:
  assumes "pool_inv key pool" "hidx pool h = Some p"
  shows "pool_view pool (tx_key (pp_heap pool p)) = Some (tx_core (pp_heap pool p))"
  using pool_inv_hash [OF assms] by (simp add: pool_view_def tx_key_def)

section \<open>Pushing\<close>

lemma pushTx_cases:
  "pushTx tx pool = (case acct pool (pt_From tx) (pt_Nonce tx) of
       Some old \<Rightarrow>
         if pt_TipCap tx \<le> pt_TipCap (pp_heap pool old) \<or> pt_FeeCap tx \<le> pt_FeeCap (pp_heap pool old)
         then pool
         else storeTx tx (account_of pool (pt_From tx))
           ((removeExpireBucket old pool)
             \<lparr>pp_HashIndex := fmdrop (pt_Hash (pp_heap (removeExpireBucket old pool) old))
               (pp_HashIndex (removeExpireBucket old pool))\<rparr>)
     | None \<Rightarrow> storeTx tx (account_of pool (pt_From tx)) pool)"
  by (simp add: pushTx_def acct_def Let_def split: option.split)

lemma storeTx_view:
  assumes "pool_inv key pool" "account = account_of pool (pt_From tx)"
  shows "pool_view (storeTx tx account pool) = (pool_view pool)(tx_key tx \<mapsto> tx_core tx)"
proof
  fix k :: "Address \<times> u64"
  obtain a n where k: "k = (a, n)" by (cases k)
  have "q \<noteq> pp_next pool" if "acct pool a n = Some q" for q
    using pool_inv_hash(1) [OF assms(1) pool_inv_acct(3) [OF assms(1) that]] by simp
  then show "pool_view (storeTx tx account pool) k = ((pool_view pool)(tx_key tx \<mapsto> tx_core tx)) k"
    using storeTx_effect(1) [OF assms(2), of a n]
    by (cases "acct pool a n") (auto simp: k pool_view_def tx_key_def storeTx_sel)
qed

lemma removeByHash_view:
  assumes "pool_inv key pool" "hidx pool h = Some p"
  shows "pool_view (removeByHash p pool) = (pool_view pool)(tx_key (pp_heap pool p) := None)"
  using removeByHash_effect(1) [OF assms] removeByHash_core [OF assms]
  by (auto simp: pool_view_def tx_key_def fun_eq_iff)

lemma pushTx_correct:
  assumes inv: "pool_inv key pool" and key: "key (pt_Hash tx) = tx_key tx"
  shows "pool_inv key (pushTx tx pool)" "pool_view (pushTx tx pool) = spec_push tx (pool_view pool)"
    "pp_Signer (pushTx tx pool) = pp_Signer pool" "pp_TTLBlock (pushTx tx pool) = pp_TTLBlock pool"
proof -
  have key': "key (pt_Hash tx) = (pt_From tx, pt_Nonce tx)" using key by (simp add: tx_key_def)
  have "pool_inv key (pushTx tx pool) \<and> pool_view (pushTx tx pool) = spec_push tx (pool_view pool) \<and>
    pp_Signer (pushTx tx pool) = pp_Signer pool \<and> pp_TTLBlock (pushTx tx pool) = pp_TTLBlock pool"
  proof (cases "acct pool (pt_From tx) (pt_Nonce tx)")
    case None
    then have "pool_view pool (tx_key tx) = None" by (simp add: pool_view_def tx_key_def)
    with None storeTx_inv [OF inv refl None key'] storeTx_view [OF inv refl, of tx] show ?thesis
      by (simp add: pushTx_cases spec_push_def storeTx_sel)
  next
    case (Some old)
    note of = pool_inv_acct [OF inv Some]
    note hf = of(3)
    have v: "pool_view pool (tx_key tx) = Some (tx_core (pp_heap pool old))"
      using Some by (simp add: pool_view_def tx_key_def)
    define pool1 where "pool1 = removeByHash old pool"
    have inv1: "pool_inv key pool1" using removeByHash_inv [OF inv hf] by (simp add: pool1_def)
    have free: "acct pool1 (pt_From tx) (pt_Nonce tx) = None"
      using removeByHash_effect(1) [OF inv hf] of by (simp add: pool1_def)
    have k: "tx_key (pp_heap pool old) = tx_key tx" using of by (simp add: tx_key_def)
    have view1: "pool_view pool1 = (pool_view pool)(tx_key tx := None)"
      using removeByHash_view [OF inv hf] k by (simp add: pool1_def)
    show ?thesis
    proof (cases "pt_TipCap tx \<le> pt_TipCap (pp_heap pool old) \<or> pt_FeeCap tx \<le> pt_FeeCap (pp_heap pool old)")
      case True
      with Some v inv show ?thesis by (auto simp: pushTx_cases spec_push_def)
    next
      case False
      have eq: "pushTx tx pool = storeTx tx (account_of pool1 (pt_From tx)) pool1"
        using Some False replaceTx_eq [OF inv Some] by (simp add: pushTx_cases pool1_def)
      from storeTx_inv [OF inv1 refl free key'] storeTx_view [OF inv1 refl, of tx] v False view1
      show ?thesis
        by (simp add: eq spec_push_def storeTx_sel) (simp add: pool1_def)
    qed
  qed
  then show "pool_inv key (pushTx tx pool)" "pool_view (pushTx tx pool) = spec_push tx (pool_view pool)"
    "pp_Signer (pushTx tx pool) = pp_Signer pool" "pp_TTLBlock (pushTx tx pool) = pp_TTLBlock pool"
    by auto
qed

lemma fold_pushTx_correct:
  assumes "pool_inv key pool" "\<forall>tx \<in> set txs. key (pt_Hash tx) = tx_key tx"
  shows "pool_inv key (fold pushTx txs pool)"
    "pool_view (fold pushTx txs pool) = fold spec_push txs (pool_view pool)"
    "pp_Signer (fold pushTx txs pool) = pp_Signer pool"
    "pp_TTLBlock (fold pushTx txs pool) = pp_TTLBlock pool"
  using assms by (induction txs arbitrary: pool) (simp_all add: pushTx_correct)

text \<open>The hash of every transaction of the batch determines its sender and its nonce.\<close>

definition keyed_batch ::
  "(Hash \<Rightarrow> Address \<times> u64) \<Rightarrow> (Transaction \<Rightarrow> Address option) \<Rightarrow> Transaction option list \<Rightarrow> bool" where
  "keyed_batch key signer txs \<longleftrightarrow>
     (\<forall>t a. Some t \<in> set txs \<longrightarrow> signer t = Some a \<longrightarrow> key (tx_Hash t) = (a, tx_Nonce t))"

lemma toPendingTx_Some:
  assumes "toPendingTx pool b t tx = Some p"
  shows "pp_Signer pool tx = Some (pt_From p)" "pt_Hash p = tx_Hash tx" "pt_Nonce p = tx_Nonce tx"
    "pt_ExpireBlock p = b + pp_TTLBlock pool" "pt_SeenBlock p = b" "pt_SeenBlockTime p = t"
    "pt_GasLimit p = tx_Gas tx" "tx_Gas tx \<noteq> 0"
  using assms by (auto simp: toPendingTx_def split: option.splits if_splits)

lemma validTxs_keyed:
  assumes "keyed_batch key (pp_Signer pool) txs" "p \<in> set (validTxs pool b t txs)"
  shows "key (pt_Hash p) = tx_key p"
proof -
  from assms(2) obtain tx where "Some tx \<in> set txs" "toPendingTx pool b t tx = Some p"
    by (auto simp: validTxs_def List.map_filter_def split: option.splits)
  with assms(1) toPendingTx_Some [of pool b t tx p] show ?thesis
    by (auto simp: keyed_batch_def tx_key_def)
qed

lemma PushBatch_correct:
  assumes "pool_inv key pool" "keyed_batch key (pp_Signer pool) txs"
  shows "pool_inv key (PushBatch txs b t pool)"
    "pool_view (PushBatch txs b t pool) = fold spec_push (validTxs pool b t txs) (pool_view pool)"
    "pp_Signer (PushBatch txs b t pool) = pp_Signer pool"
    "pp_TTLBlock (PushBatch txs b t pool) = pp_TTLBlock pool"
  using fold_pushTx_correct [OF assms(1), of "validTxs pool b t txs"] validTxs_keyed [OF assms(2)]
  by (simp_all add: PushBatch_def)

section \<open>Included transactions\<close>

definition receipt_hashes :: "Receipt option list \<Rightarrow> Hash set" where
  "receipt_hashes rs = {rc_TxHash r | r. Some r \<in> set rs}"

lemma receiptStep_pool:
  "fst (receiptStep n t h (pool, stats, c)) =
     (case hidx pool h of None \<Rightarrow> pool | Some p \<Rightarrow> removeByHash p pool)"
  by (auto simp: receiptStep_def hidx_def Let_def split: option.split)

lemma hash_filter_view:
  assumes inv: "pool_inv key pool"
  shows "(case hidx pool h of None \<Rightarrow> pool_view pool
       | Some p \<Rightarrow> (pool_view pool)(tx_key (pp_heap pool p) := None)) =
     spec_filter (\<lambda>tx. pt_Hash tx \<noteq> h) (pool_view pool)"
proof (cases "hidx pool h")
  case None
  have "pt_Hash t \<noteq> h" if "pool_view pool k = Some t" for k t
    using that None by (auto elim: pool_view_Some [OF inv])
  then show ?thesis using None by (auto simp: spec_filter_def fun_eq_iff split: option.split)
next
  case (Some p)
  have "pt_Hash t = h \<longleftrightarrow> k = tx_key (pp_heap pool p)" if kt: "pool_view pool k = Some t" for k t
  proof -
    from pool_view_Some [OF inv kt] obtain q where q: "acct pool (fst k) (snd k) = Some q"
      "t = tx_core (pp_heap pool q)" "hidx pool (pt_Hash t) = Some q" "tx_key t = k" .
    show ?thesis
    proof
      assume "pt_Hash t = h"
      with q Some show "k = tx_key (pp_heap pool p)" by (auto simp: tx_key_def)
    next
      assume "k = tx_key (pp_heap pool p)"
      with kt pool_view_hidx [OF inv Some] pool_inv_hash(2) [OF inv Some] show "pt_Hash t = h" by auto
    qed
  qed
  then show ?thesis using Some by (auto simp: spec_filter_def fun_eq_iff split: option.split)
qed

lemma receiptStep_correct:
  assumes "pool_inv key pool"
  shows "pool_inv key (fst (receiptStep n t h (pool, stats, c)))"
    "pool_view (fst (receiptStep n t h (pool, stats, c))) =
       spec_filter (\<lambda>tx. pt_Hash tx \<noteq> h) (pool_view pool)"
    "pp_Signer (fst (receiptStep n t h (pool, stats, c))) = pp_Signer pool"
    "pp_TTLBlock (fst (receiptStep n t h (pool, stats, c))) = pp_TTLBlock pool"
  using assms hash_filter_view [OF assms, of h] removeByHash_inv [OF assms] removeByHash_view [OF assms]
  by (simp_all add: receiptStep_pool split: option.splits)

lemma receiptLoop_correct:
  assumes "pool_inv key pool" "receiptLoop n t rs (pool, stats, c) = Some (pool', stats', c')"
  shows "pool_inv key pool' \<and>
    pool_view pool' = spec_filter (\<lambda>tx. pt_Hash tx \<notin> receipt_hashes rs) (pool_view pool) \<and>
    pp_Signer pool' = pp_Signer pool \<and> pp_TTLBlock pool' = pp_TTLBlock pool"
  using assms
proof (induction rs arbitrary: pool stats c)
  case Nil
  then show ?case by (simp add: receipt_hashes_def)
next
  case (Cons x rs)
  then obtain r where x: "x = Some r" by (cases x) auto
  obtain pool1 stats1 c1 where st: "receiptStep n t (rc_TxHash r) (pool, stats, c) = (pool1, stats1, c1)"
    by (cases "receiptStep n t (rc_TxHash r) (pool, stats, c)") auto
  note one = receiptStep_correct [OF Cons.prems(1), of n t "rc_TxHash r" stats c, unfolded st fst_conv]
  have "receipt_hashes (Some r # rs) = insert (rc_TxHash r) (receipt_hashes rs)"
    by (auto simp: receipt_hashes_def)
  with Cons.IH [OF one(1), of stats1 c1] Cons.prems(2) one st show ?case
    by (simp add: x spec_filter_filter)
qed

lemma receiptLoop_returns:
  "receiptLoop n t rs st \<noteq> None \<longleftrightarrow> None \<notin> set rs"
  by (induction n t rs st rule: receiptLoop.induct) auto

section \<open>Expiry\<close>

lemma expireTx_eq:
  assumes "acct pool (pt_From (pp_heap pool p)) (pt_Nonce (pp_heap pool p)) = Some p"
  shows "expireTx p (pool, c) =
    (pool\<lparr>pp_Accounts := drop_nonce (pt_From (pp_heap pool p)) (pt_Nonce (pp_heap pool p)) (pp_Accounts pool),
          pp_HashIndex := fmdrop (pt_Hash (pp_heap pool p)) (pp_HashIndex pool)\<rparr>, c + 1)"
  using assms by (auto simp: expireTx_def acct_def2 bind_eq_Some_conv drop_nonce_def Let_def)

definition unlist :: "ptr list \<Rightarrow> ptr option \<Rightarrow> ptr option" where
  "unlist l x = (case x of None \<Rightarrow> None | Some p \<Rightarrow> if p \<in> set l then None else Some p)"

lemma fold_expireTx:
  assumes "distinct l"
    and "\<And>k q. hidx pool k = Some q \<Longrightarrow> pt_Hash (pp_heap pool q) = k"
    and "\<And>a n q. acct pool a n = Some q \<Longrightarrow> pt_From (pp_heap pool q) = a \<and> pt_Nonce (pp_heap pool q) = n"
    and "\<And>q. q \<in> set l \<Longrightarrow> hidx pool (pt_Hash (pp_heap pool q)) = Some q \<and>
      acct pool (pt_From (pp_heap pool q)) (pt_Nonce (pp_heap pool q)) = Some q"
    and "\<forall>a. fmlookup (pp_Accounts pool) a \<noteq> Some fmempty"
  shows "\<exists>A H. fold expireTx l (pool, c) = (pool\<lparr>pp_Accounts := A, pp_HashIndex := H\<rparr>, c + length l) \<and>
    (\<forall>k. hidx (pool\<lparr>pp_Accounts := A, pp_HashIndex := H\<rparr>) k = unlist l (hidx pool k)) \<and>
    (\<forall>a n. acct (pool\<lparr>pp_Accounts := A, pp_HashIndex := H\<rparr>) a n = unlist l (acct pool a n)) \<and>
    (\<forall>a. fmlookup A a \<noteq> Some fmempty)"
  using assms
proof (induction l arbitrary: pool c)
  case Nil
  have "pool = pool\<lparr>pp_Accounts := pp_Accounts pool, pp_HashIndex := pp_HashIndex pool\<rparr>" by simp
  with Nil.prems(5) show ?case
    by (intro exI [of _ "pp_Accounts pool"] exI [of _ "pp_HashIndex pool"])
      (auto simp: unlist_def split: option.split)
next
  case (Cons p l)
  let ?t = "pp_heap pool p"
  define pool1 where "pool1 = pool\<lparr>pp_Accounts := drop_nonce (pt_From ?t) (pt_Nonce ?t) (pp_Accounts pool),
          pp_HashIndex := fmdrop (pt_Hash ?t) (pp_HashIndex pool)\<rparr>"
  have p: "hidx pool (pt_Hash ?t) = Some p" "acct pool (pt_From ?t) (pt_Nonce ?t) = Some p"
    using Cons.prems(4) by auto
  have step: "expireTx p (pool, c) = (pool1, c + 1)" using expireTx_eq [OF p(2)] by (simp add: pool1_def)
  have heap1: "pp_heap pool1 = pp_heap pool" by (simp add: pool1_def)
  have h1: "hidx pool1 k = (if k = pt_Hash ?t then None else hidx pool k)" for k
    by (simp add: pool1_def hidx_def)
  have a1: "acct pool1 a n = (if (a, n) = (pt_From ?t, pt_Nonce ?t) then None else acct pool a n)" for a n
    by (simp add: pool1_def acct_def2 drop_nonce_lookup)
  have "\<exists>A H. fold expireTx l (pool1, c + 1) = (pool1\<lparr>pp_Accounts := A, pp_HashIndex := H\<rparr>, c + 1 + length l) \<and>
    (\<forall>k. hidx (pool1\<lparr>pp_Accounts := A, pp_HashIndex := H\<rparr>) k = unlist l (hidx pool1 k)) \<and>
    (\<forall>a n. acct (pool1\<lparr>pp_Accounts := A, pp_HashIndex := H\<rparr>) a n = unlist l (acct pool1 a n)) \<and>
    (\<forall>a. fmlookup A a \<noteq> Some fmempty)"
  proof (rule Cons.IH)
    show "distinct l" using Cons.prems(1) by simp
    show "pt_Hash (pp_heap pool1 q) = k" if "hidx pool1 k = Some q" for k q
      using that Cons.prems(2) by (auto simp: h1 heap1 split: if_splits)
    show "pt_From (pp_heap pool1 q) = a \<and> pt_Nonce (pp_heap pool1 q) = n" if "acct pool1 a n = Some q" for a n q
      using that Cons.prems(3) [of a n q] unfolding a1 heap1 by (metis option.distinct(1))
    show "hidx pool1 (pt_Hash (pp_heap pool1 q)) = Some q \<and>
      acct pool1 (pt_From (pp_heap pool1 q)) (pt_Nonce (pp_heap pool1 q)) = Some q" if "q \<in> set l" for q
    proof -
      have q: "hidx pool (pt_Hash (pp_heap pool q)) = Some q"
        "acct pool (pt_From (pp_heap pool q)) (pt_Nonce (pp_heap pool q)) = Some q"
        using Cons.prems(4) [of q] that by auto
      have "q \<noteq> p" using Cons.prems(1) that by auto
      then have "pt_Hash (pp_heap pool q) \<noteq> pt_Hash ?t"
        "(pt_From (pp_heap pool q), pt_Nonce (pp_heap pool q)) \<noteq> (pt_From ?t, pt_Nonce ?t)"
        using p q by auto
      with q show ?thesis unfolding h1 a1 heap1 by presburger
    qed
    show "\<forall>a. fmlookup (pp_Accounts pool1) a \<noteq> Some fmempty"
      using drop_nonce_tidy [OF Cons.prems(5)] by (simp add: pool1_def)
  qed
  then obtain A H where AH:
    "fold expireTx l (pool1, c + 1) = (pool1\<lparr>pp_Accounts := A, pp_HashIndex := H\<rparr>, c + 1 + length l)"
    "\<forall>k. hidx (pool1\<lparr>pp_Accounts := A, pp_HashIndex := H\<rparr>) k = unlist l (hidx pool1 k)"
    "\<forall>a n. acct (pool1\<lparr>pp_Accounts := A, pp_HashIndex := H\<rparr>) a n = unlist l (acct pool1 a n)"
    "\<forall>a. fmlookup A a \<noteq> Some fmempty" by blast
  have same: "pool1\<lparr>pp_Accounts := A, pp_HashIndex := H\<rparr> = pool\<lparr>pp_Accounts := A, pp_HashIndex := H\<rparr>"
    by (simp add: pool1_def)
  have "unlist l (hidx pool1 k) = unlist (p # l) (hidx pool k)" for k
  proof (cases "hidx pool k")
    case None
    then show ?thesis unfolding h1 by (simp add: unlist_def)
  next
    case (Some q)
    then have "k = pt_Hash ?t \<longleftrightarrow> q = p" using Cons.prems(2) [OF Some] p(1) by (metis option.inject)
    with Some show ?thesis unfolding h1 by (cases "q = p") (simp_all add: unlist_def)
  qed
  moreover have "unlist l (acct pool1 a n) = unlist (p # l) (acct pool a n)" for a n
  proof (cases "acct pool a n")
    case None
    then show ?thesis unfolding a1 by (simp add: unlist_def)
  next
    case (Some q)
    then have "(a, n) = (pt_From ?t, pt_Nonce ?t) \<longleftrightarrow> q = p"
      using Cons.prems(3) [OF Some] p(2) by (metis option.inject prod.inject)
    with Some show ?thesis unfolding a1
      by (simp only:) (simp add: unlist_def)
  qed
  ultimately show ?case using AH step by (intro exI [of _ A] exI [of _ H]) (simp add: same)
qed

lemma expireBlock_correct:
  assumes inv: "pool_inv key pool" and due: "\<not> curBlock < block"
  obtains pool' where "expireBlock curBlock block (pool, c) = (pool', c + length (bkt pool block))"
    "pool_inv key pool'"
    "pool_view pool' = spec_filter (\<lambda>tx. pt_ExpireBlock tx \<noteq> block) (pool_view pool)"
    "pp_Signer pool' = pp_Signer pool" "pp_TTLBlock pool' = pp_TTLBlock pool"
    "\<And>b. bkt pool' b = (if b = block then [] else bkt pool b)"
proof -
  let ?l = "bkt pool block"
  have inl: "q \<in> set ?l \<longleftrightarrow> pt_ExpireBlock (pp_heap pool q) = block" if "hidx pool k = Some q" for k q
    using pool_inv_hash(6) [OF inv that] pool_inv_bucket(1) [OF inv, of block]
    by (auto simp: at_bucket_def in_set_conv_nth)
  have "\<exists>A H. fold expireTx ?l (pool, c) = (pool\<lparr>pp_Accounts := A, pp_HashIndex := H\<rparr>, c + length ?l) \<and>
    (\<forall>k. hidx (pool\<lparr>pp_Accounts := A, pp_HashIndex := H\<rparr>) k = unlist ?l (hidx pool k)) \<and>
    (\<forall>a n. acct (pool\<lparr>pp_Accounts := A, pp_HashIndex := H\<rparr>) a n = unlist ?l (acct pool a n)) \<and>
    (\<forall>a. fmlookup A a \<noteq> Some fmempty)"
  proof (rule fold_expireTx)
    show "hidx pool (pt_Hash (pp_heap pool q)) = Some q \<and>
      acct pool (pt_From (pp_heap pool q)) (pt_Nonce (pp_heap pool q)) = Some q" if "q \<in> set ?l" for q
    proof -
      from that obtain i where "at_bucket pool block i q" by (auto simp: at_bucket_def in_set_conv_nth)
      note h = pool_inv_bucket(3) [OF inv this]
      with pool_inv_hash(3) [OF inv h] show ?thesis by simp
    qed
    show "\<forall>a. fmlookup (pp_Accounts pool) a \<noteq> Some fmempty"
      using pool_inv_tidy [OF inv] by (simp add: pool_tidy_def)
  qed (use bucket_distinct [OF inv] pool_inv_hash(2) [OF inv] pool_inv_acct(1,2) [OF inv] in auto)
  then obtain A H where AH:
    "fold expireTx ?l (pool, c) = (pool\<lparr>pp_Accounts := A, pp_HashIndex := H\<rparr>, c + length ?l)"
    "\<And>k. hidx (pool\<lparr>pp_Accounts := A, pp_HashIndex := H\<rparr>) k = unlist ?l (hidx pool k)"
    "\<And>a n. acct (pool\<lparr>pp_Accounts := A, pp_HashIndex := H\<rparr>) a n = unlist ?l (acct pool a n)"
    "\<And>a. fmlookup A a \<noteq> Some fmempty" by blast
  define pool' where "pool' = pool\<lparr>pp_Accounts := A, pp_HashIndex := H,
    pp_ExpireBuckets := fmdrop block (pp_ExpireBuckets pool)\<rparr>"
  have eq: "expireBlock curBlock block (pool, c) = (pool', c + length ?l)"
    using due AH(1) by (simp add: expireBlock_def pool'_def)
  have h': "hidx pool' k = unlist ?l (hidx pool k)" for k
    using AH(2) by (simp add: pool'_def hidx_def)
  have a': "acct pool' a n = unlist ?l (acct pool a n)" for a n
    using AH(3) by (simp add: pool'_def acct_def2)
  have b': "bkt pool' b = (if b = block then [] else bkt pool b)" for b
    by (simp add: pool'_def bkt_def)
  have heap': "pp_heap pool' = pp_heap pool" "pp_next pool' = pp_next pool" by (simp_all add: pool'_def)
  have unl: "unlist ?l x = Some q \<longleftrightarrow> x = Some q \<and> q \<notin> set ?l" for x q
    by (auto simp: unlist_def split: option.splits if_splits)
  have "pool_inv key pool'"
  proof (rule pool_invI)
    show "pool_tidy pool'" using pool_inv_tidy [OF inv] AH(4) by (simp add: pool_tidy_def pool'_def)
  next
    fix k q assume "hidx pool' k = Some q"
    then have k: "hidx pool k = Some q" "q \<notin> set ?l" by (simp_all add: h' unl)
    with inl [OF k(1)] pool_inv_hash [OF inv k(1)]
    show "q < pp_next pool' \<and> pt_Hash (pp_heap pool' q) = k \<and>
      acct pool' (pt_From (pp_heap pool' q)) (pt_Nonce (pp_heap pool' q)) = Some q \<and>
      key k = (pt_From (pp_heap pool' q), pt_Nonce (pp_heap pool' q)) \<and>
      0 \<le> pt_ExpireIndex (pp_heap pool' q) \<and>
      at_bucket pool' (pt_ExpireBlock (pp_heap pool' q)) (nat (pt_ExpireIndex (pp_heap pool' q))) q"
      by (simp add: heap' a' unl at_bucket_def b')
  next
    fix a n q assume "acct pool' a n = Some q"
    then have k: "acct pool a n = Some q" "q \<notin> set ?l" by (simp_all add: a' unl)
    with pool_inv_acct [OF inv k(1)] show "pt_From (pp_heap pool' q) = a \<and>
      pt_Nonce (pp_heap pool' q) = n \<and> hidx pool' (pt_Hash (pp_heap pool' q)) = Some q"
      by (simp add: heap' h' unl)
  next
    fix b i q assume "at_bucket pool' b i q"
    then have k: "b \<noteq> block" "at_bucket pool b i q" by (auto simp: at_bucket_def b' split: if_splits)
    note qf = pool_inv_bucket [OF inv k(2)]
    with k(1) inl [OF qf(3)] show "pt_ExpireBlock (pp_heap pool' q) = b \<and>
      pt_ExpireIndex (pp_heap pool' q) = int i \<and> hidx pool' (pt_Hash (pp_heap pool' q)) = Some q"
      by (simp add: heap' h' unl)
  qed
  moreover have "pool_view pool' = spec_filter (\<lambda>tx. pt_ExpireBlock tx \<noteq> block) (pool_view pool)"
  proof
    fix k :: "Address \<times> u64"
    obtain a n where k: "k = (a, n)" by (cases k)
    show "pool_view pool' k = spec_filter (\<lambda>tx. pt_ExpireBlock tx \<noteq> block) (pool_view pool) k"
    proof (cases "acct pool a n")
      case None
      then show ?thesis by (simp add: k pool_view_def a' unlist_def spec_filter_def)
    next
      case (Some q)
      with inl [OF pool_inv_acct(3) [OF inv Some]] show ?thesis
        by (simp add: k pool_view_def a' unlist_def spec_filter_def heap')
    qed
  qed
  moreover have "pp_Signer pool' = pp_Signer pool" "pp_TTLBlock pool' = pp_TTLBlock pool"
    by (simp_all add: pool'_def)
  ultimately show ?thesis using that eq b' by blast
qed

text \<open>The transactions of one expiry block are the entries of its bucket.\<close>

lemma card_bucket:
  assumes inv: "pool_inv key pool"
  shows "card {k. \<exists>t. pool_view pool k = Some t \<and> pt_ExpireBlock t = block} = length (bkt pool block)"
proof -
  let ?f = "\<lambda>p. tx_key (pp_heap pool p)"
  have live: "hidx pool (pt_Hash (pp_heap pool p)) = Some p \<and> pt_ExpireBlock (pp_heap pool p) = block"
    if "p \<in> set (bkt pool block)" for p
    using that pool_inv_bucket(1,3) [OF inv, of block] by (auto simp: at_bucket_def in_set_conv_nth)
  have "{k. \<exists>t. pool_view pool k = Some t \<and> pt_ExpireBlock t = block} = ?f ` set (bkt pool block)"
  proof (intro equalityI subsetI)
    fix k assume "k \<in> {k. \<exists>t. pool_view pool k = Some t \<and> pt_ExpireBlock t = block}"
    then obtain t where t: "pool_view pool k = Some t" "pt_ExpireBlock t = block" by blast
    from pool_view_Some [OF inv t(1)] obtain p where p: "t = tx_core (pp_heap pool p)"
      "hidx pool (pt_Hash t) = Some p" "tx_key t = k" by blast
    from at_bucket_mem [OF pool_inv_hash(6) [OF inv p(2)]] t p(1) have "p \<in> set (bkt pool block)"
      by simp
    with p show "k \<in> ?f ` set (bkt pool block)" by (auto simp: tx_key_def)
  next
    fix k assume "k \<in> ?f ` set (bkt pool block)"
    then obtain p where p: "p \<in> set (bkt pool block)" "k = ?f p" by blast
    with live [OF p(1)] pool_view_hidx [OF inv, of _ p]
    show "k \<in> {k. \<exists>t. pool_view pool k = Some t \<and> pt_ExpireBlock t = block}"
      by (metis (mono_tags, lifting) mem_Collect_eq tx_core_sel(6))
  qed
  moreover have "inj_on ?f (set (bkt pool block))"
  proof (rule inj_onI)
    fix p q assume pq: "p \<in> set (bkt pool block)" "q \<in> set (bkt pool block)" "?f p = ?f q"
    have "acct pool (fst (?f p)) (snd (?f p)) = Some p" "acct pool (fst (?f q)) (snd (?f q)) = Some q"
      using pool_inv_hash(3) [OF inv live [OF pq(1), THEN conjunct1]]
        pool_inv_hash(3) [OF inv live [OF pq(2), THEN conjunct1]]
      by (simp_all only: tx_key_def fst_conv snd_conv)
    then show "p = q" unfolding pq(3) by simp
  qed
  ultimately show ?thesis by (simp add: card_image distinct_card bucket_distinct [OF inv])
qed

lemma finite_pool_view: "finite {k. pool_view pool k \<noteq> None}"
proof (rule finite_subset)
  show "{k. pool_view pool k \<noteq> None} \<subseteq>
    (SIGMA a : fset (fmdom (pp_Accounts pool)). fset (fmdom (account_of pool a)))"
    by (auto simp: pool_view_def acct_def account_of_def fmlookup_dom_iff split: option.splits)
qed auto

definition due_count :: "u64 \<Rightarrow> u64 set \<Rightarrow> pool_view \<Rightarrow> nat" where
  "due_count curBlock B v = card {k. \<exists>t. v k = Some t \<and> pt_ExpireBlock t \<le> curBlock \<and> pt_ExpireBlock t \<in> B}"

lemma fold_expireBlock:
  assumes "pool_inv key pool" "distinct bs"
  obtains pool' where
    "fold (expireBlock curBlock) bs (pool, c) = (pool', c + due_count curBlock (set bs) (pool_view pool))"
    "pool_inv key pool'"
    "pool_view pool' =
       spec_filter (\<lambda>tx. \<not> (pt_ExpireBlock tx \<le> curBlock \<and> pt_ExpireBlock tx \<in> set bs)) (pool_view pool)"
    "pp_Signer pool' = pp_Signer pool" "pp_TTLBlock pool' = pp_TTLBlock pool"
  using assms
proof (induction bs arbitrary: pool c thesis)
  case Nil
  then show ?case by (simp add: due_count_def)
next
  case (Cons b bs)
  show ?case
  proof (cases "curBlock < b")
    case True
    then have step: "expireBlock curBlock b (pool, c) = (pool, c)" by (simp add: expireBlock_def)
    have same: "(x \<le> curBlock \<and> x \<in> set (b # bs)) = (x \<le> curBlock \<and> x \<in> set bs)" for x
      using True by auto
    from Cons.IH [OF _ Cons.prems(2), of c] Cons.prems(3) obtain pool' where
      "fold (expireBlock curBlock) bs (pool, c) = (pool', c + due_count curBlock (set bs) (pool_view pool))"
      "pool_inv key pool'"
      "pool_view pool' =
       spec_filter (\<lambda>tx. \<not> (pt_ExpireBlock tx \<le> curBlock \<and> pt_ExpireBlock tx \<in> set bs)) (pool_view pool)"
      "pp_Signer pool' = pp_Signer pool" "pp_TTLBlock pool' = pp_TTLBlock pool" by auto
    with Cons.prems(1) step show ?thesis by (simp add: due_count_def same del: list.set)
  next
    case False
    from expireBlock_correct [OF Cons.prems(2) False, of c] obtain pool1 where one:
      "expireBlock curBlock b (pool, c) = (pool1, c + length (bkt pool b))" "pool_inv key pool1"
      "pool_view pool1 = spec_filter (\<lambda>tx. pt_ExpireBlock tx \<noteq> b) (pool_view pool)"
      "pp_Signer pool1 = pp_Signer pool" "pp_TTLBlock pool1 = pp_TTLBlock pool" by blast
    from Cons.IH [OF _ one(2), of "c + length (bkt pool b)"] Cons.prems(3) obtain pool' where rest:
      "fold (expireBlock curBlock) bs (pool1, c + length (bkt pool b)) =
        (pool', c + length (bkt pool b) + due_count curBlock (set bs) (pool_view pool1))"
      "pool_inv key pool'"
      "pool_view pool' =
       spec_filter (\<lambda>tx. \<not> (pt_ExpireBlock tx \<le> curBlock \<and> pt_ExpireBlock tx \<in> set bs)) (pool_view pool1)"
      "pp_Signer pool' = pp_Signer pool1" "pp_TTLBlock pool' = pp_TTLBlock pool1" by auto
    let ?X = "{k. \<exists>t. pool_view pool k = Some t \<and> pt_ExpireBlock t = b}"
    let ?Y = "{k. \<exists>t. pool_view pool1 k = Some t \<and> pt_ExpireBlock t \<le> curBlock \<and> pt_ExpireBlock t \<in> set bs}"
    have v1: "pool_view pool1 k = Some t \<longleftrightarrow> pool_view pool k = Some t \<and> pt_ExpireBlock t \<noteq> b" for k t
      by (auto simp: one(3) spec_filter_def split: option.splits if_splits)
    have un: "{k. \<exists>t. pool_view pool k = Some t \<and> pt_ExpireBlock t \<le> curBlock \<and> pt_ExpireBlock t \<in> set (b # bs)} = ?X \<union> ?Y"
      using False Cons.prems(3) by (auto simp: v1)
    have "finite ?X" "finite ?Y"
      by (rule finite_subset [OF _ finite_pool_view [of pool]], auto simp: v1)+
    moreover have "?X \<inter> ?Y = {}" by (auto simp: v1)
    ultimately have "due_count curBlock (set (b # bs)) (pool_view pool) =
        length (bkt pool b) + due_count curBlock (set bs) (pool_view pool1)"
      using card_bucket [OF Cons.prems(2), of b] un
      by (simp add: due_count_def card_Un_disjoint del: list.set)
    moreover have "pool_view pool' = spec_filter
       (\<lambda>tx. \<not> (pt_ExpireBlock tx \<le> curBlock \<and> pt_ExpireBlock tx \<in> set (b # bs))) (pool_view pool)"
      using False by (auto simp: rest(3) one(3) spec_filter_filter intro!: spec_filter_cong)
    ultimately show ?thesis using Cons.prems(1) one rest by (simp add: add.assoc del: list.set)
  qed
qed

end
