(* ===== verification/Mempool_Props.thy ===== *)
theory Mempool_Props
  imports Mempool_Refine
begin

text \<open>
  The pool's contract as a locale, its interpretation on the model, and the properties of the
  pool: preservation of the invariant along every sequence of operations, the refinement of the
  abstract pool by each operation, and the inclusion statistics.
\<close>

section \<open>Expiry of the whole pool\<close>

lemma live_block_in_dom:
  assumes "pool_inv key pool" "pool_view pool k = Some t"
  shows "pt_ExpireBlock t \<in> fset (fmdom (pp_ExpireBuckets pool))"
proof -
  from pool_view_Some [OF assms] obtain p where p: "t = tx_core (pp_heap pool p)"
    "hidx pool (pt_Hash t) = Some p" by blast
  from pool_inv_hash(6) [OF assms(1) p(2)] p(1) show ?thesis
    by (auto simp: at_bucket_def bkt_def fmlookup_dom_iff split: option.splits)
qed

lemma RemoveExpired_correct:
  assumes inv: "pool_inv key pool" and ord: "is_range_order ord"
  shows "pool_inv key (fst (RemoveExpired ord curBlock pool))"
    "pool_view (fst (RemoveExpired ord curBlock pool)) =
       spec_filter (\<lambda>tx. curBlock < pt_ExpireBlock tx) (pool_view pool)"
    "snd (RemoveExpired ord curBlock pool) =
       card {k. \<exists>t. pool_view pool k = Some t \<and> pt_ExpireBlock t \<le> curBlock}"
    "pp_Signer (fst (RemoveExpired ord curBlock pool)) = pp_Signer pool"
    "pp_TTLBlock (fst (RemoveExpired ord curBlock pool)) = pp_TTLBlock pool"
proof -
  let ?bs = "ord (fmdom (pp_ExpireBuckets pool))"
  have bs: "distinct ?bs" "set ?bs = fset (fmdom (pp_ExpireBuckets pool))"
    using ord by (simp_all add: is_range_order_def)
  from fold_expireBlock [OF inv bs(1), of curBlock 0] obtain pool' where p:
    "fold (expireBlock curBlock) ?bs (pool, 0) = (pool', 0 + due_count curBlock (set ?bs) (pool_view pool))"
    "pool_inv key pool'"
    "pool_view pool' =
       spec_filter (\<lambda>tx. \<not> (pt_ExpireBlock tx \<le> curBlock \<and> pt_ExpireBlock tx \<in> set ?bs)) (pool_view pool)"
    "pp_Signer pool' = pp_Signer pool" "pp_TTLBlock pool' = pp_TTLBlock pool" by blast
  have eq: "RemoveExpired ord curBlock pool = (pool', due_count curBlock (set ?bs) (pool_view pool))"
    using p(1) by (simp add: RemoveExpired_def)
  show "pool_inv key (fst (RemoveExpired ord curBlock pool))"
    "pp_Signer (fst (RemoveExpired ord curBlock pool)) = pp_Signer pool"
    "pp_TTLBlock (fst (RemoveExpired ord curBlock pool)) = pp_TTLBlock pool"
    using p by (simp_all add: eq)
  have live: "pool_view pool k = Some t \<Longrightarrow> pt_ExpireBlock t \<in> set ?bs" for k t
    using live_block_in_dom [OF inv] bs by blast
  have "pool_view pool' = spec_filter (\<lambda>tx. curBlock < pt_ExpireBlock tx) (pool_view pool)"
    unfolding p(3) by (rule spec_filter_cong) (use live in auto)
  then show "pool_view (fst (RemoveExpired ord curBlock pool)) =
       spec_filter (\<lambda>tx. curBlock < pt_ExpireBlock tx) (pool_view pool)" by (simp add: eq)
  have "{k. \<exists>t. pool_view pool k = Some t \<and> pt_ExpireBlock t \<le> curBlock \<and> pt_ExpireBlock t \<in> set ?bs} =
     {k. \<exists>t. pool_view pool k = Some t \<and> pt_ExpireBlock t \<le> curBlock}"
    using live by blast
  then show "snd (RemoveExpired ord curBlock pool) =
       card {k. \<exists>t. pool_view pool k = Some t \<and> pt_ExpireBlock t \<le> curBlock}"
    by (simp add: eq due_count_def)
qed

section \<open>The empty pool\<close>

lemma empty_pool_inv:
  assumes "pp_Accounts pool = fmempty" "pp_ExpireBuckets pool = fmempty" "pp_HashIndex pool = fmempty"
  shows "pool_inv key pool" "pool_view pool = Map.empty"
  using assms
  by (auto simp: pool_inv_defs pool_tidy_def hidx_def acct_def account_of_def at_bucket_def bkt_def
      pool_view_def fun_eq_iff)

lemma Pool_Clear_correct: "pool_inv key (Pool_Clear pool)" "pool_view (Pool_Clear pool) = Map.empty"
  by (rule empty_pool_inv; simp add: Pool_Clear_def)+

lemma NewPendingMemPool_correct:
  assumes "NewPendingMemPool signers chainID ttl = Some pool"
  shows "pool_inv key pool" "pool_view pool = Map.empty" "pp_TTLBlock pool = ttl"
  using assms empty_pool_inv [of pool]
  by (auto simp: NewPendingMemPool_def split: option.splits)

section \<open>The contract\<close>

text \<open>
  What the processor and the analyzer rely on, whatever the pool is made of: its state refines a
  map \<open>view\<close>, and the three updates of the pool are updates of that map.
\<close>

locale pending_pool =
  fixes inv :: "'p \<Rightarrow> bool"
    and view :: "'p \<Rightarrow> 'k \<Rightarrow> 't option"
    and put :: "'t \<Rightarrow> 'p \<Rightarrow> 'p"
    and okput :: "'t \<Rightarrow> bool"
    and sput :: "'t \<Rightarrow> ('k \<Rightarrow> 't option) \<Rightarrow> 'k \<Rightarrow> 't option"
    and drop_hash :: "'h \<Rightarrow> 'p \<Rightarrow> 'p"
    and hash :: "'t \<Rightarrow> 'h"
    and expire :: "'b::linorder \<Rightarrow> 'p \<Rightarrow> 'p"
    and until :: "'t \<Rightarrow> 'b"
    and reset :: "'p \<Rightarrow> 'p"
  assumes put_inv: "inv p \<Longrightarrow> okput t \<Longrightarrow> inv (put t p)"
    and put_view: "inv p \<Longrightarrow> okput t \<Longrightarrow> view (put t p) = sput t (view p)"
    and drop_inv: "inv p \<Longrightarrow> inv (drop_hash h p)"
    and drop_view: "inv p \<Longrightarrow> view (drop_hash h p) k =
      (case view p k of None \<Rightarrow> None | Some t \<Rightarrow> if hash t = h then None else Some t)"
    and expire_inv: "inv p \<Longrightarrow> inv (expire b p)"
    and expire_view: "inv p \<Longrightarrow> view (expire b p) k =
      (case view p k of None \<Rightarrow> None | Some t \<Rightarrow> if until t \<le> b then None else Some t)"
    and reset_inv: "inv (reset p)"
    and reset_view: "view (reset p) k = None"
begin

text \<open>After an expiry at block \<open>b\<close> nothing that is due at \<open>b\<close> or before is left.\<close>

lemma expire_done: "inv p \<Longrightarrow> view (expire b p) k = Some t \<Longrightarrow> b < until t"
  by (auto simp: expire_view split: option.splits if_splits)

text \<open>Expiring twice is expiring at the later block.\<close>

lemma expire_expire: "inv p \<Longrightarrow> view (expire b (expire c p)) = view (expire (max b c) p)"
  by (auto simp: fun_eq_iff expire_view expire_inv le_max_iff_disj split: option.split)

text \<open>Removing hashes and expiring commute.\<close>

lemma drop_expire: "inv p \<Longrightarrow> view (drop_hash h (expire b p)) = view (expire b (drop_hash h p))"
  by (auto simp: fun_eq_iff expire_view drop_view expire_inv drop_inv split: option.split)

lemma drop_all_inv: "inv p \<Longrightarrow> inv (fold drop_hash hs p)"
  by (induction hs arbitrary: p) (simp_all add: drop_inv)

lemma drop_all_view:
  "inv p \<Longrightarrow> view (fold drop_hash hs p) k =
     (case view p k of None \<Rightarrow> None | Some t \<Rightarrow> if hash t \<in> set hs then None else Some t)"
  by (induction hs arbitrary: p) (auto simp: drop_view drop_inv split: option.split)

end

definition drop_tx_hash :: "Hash \<Rightarrow> PendingMemPool \<Rightarrow> PendingMemPool" where
  "drop_tx_hash h pool = (case hidx pool h of None \<Rightarrow> pool | Some p \<Rightarrow> removeByHash p pool)"

lemma drop_tx_hash_correct:
  assumes "pool_inv key pool"
  shows "pool_inv key (drop_tx_hash h pool)"
    "pool_view (drop_tx_hash h pool) = spec_filter (\<lambda>tx. pt_Hash tx \<noteq> h) (pool_view pool)"
  using receiptStep_correct [OF assms] by (simp_all add: receiptStep_pool drop_tx_hash_def)

interpretation mempool: pending_pool "pool_inv key" pool_view pushTx
  "\<lambda>tx. key (pt_Hash tx) = tx_key tx" spec_push drop_tx_hash pt_Hash
  "\<lambda>b p. fst (RemoveExpired sorted_list_of_fset b p)" pt_ExpireBlock Pool_Clear
  for key :: "Hash \<Rightarrow> Address \<times> u64"
  by unfold_locales
    (auto simp: pushTx_correct drop_tx_hash_correct RemoveExpired_correct is_range_order_sorted
      Pool_Clear_correct spec_filter_def split: option.split)

section \<open>Reachable pools\<close>

inductive pool_step :: "(Hash \<Rightarrow> Address \<times> u64) \<Rightarrow> PendingMemPool \<Rightarrow> PendingMemPool \<Rightarrow> bool"
  for key where
  push: "keyed_batch key (pp_Signer pool) txs \<Longrightarrow> pool_step key pool (PushBatch txs b t pool)"
| receipts: "RemoveByReceipts ord header rs pool = Some (stats, cnt, pool') \<Longrightarrow> pool_step key pool pool'"
| expire: "is_range_order ord \<Longrightarrow> pool_step key pool (fst (RemoveExpired ord b pool))"
| clear: "pool_step key pool (Pool_Clear pool)"

inductive_cases pool_stepE: "pool_step key pool pool'"

inductive pool_reachable :: "(Hash \<Rightarrow> Address \<times> u64) \<Rightarrow> PendingMemPool \<Rightarrow> bool"
  for key where
  new: "NewPendingMemPool signers chainID ttl = Some pool \<Longrightarrow> pool_reachable key pool"
| step: "pool_reachable key pool \<Longrightarrow> pool_step key pool pool' \<Longrightarrow> pool_reachable key pool'"

lemma RemoveByReceipts_Some:
  assumes "RemoveByReceipts ord header rs pool = Some (stats, cnt, pool')"
  obtains num smap where "hd_Number header = Some num"
    "receiptLoop (big_Uint64 num) (hd_Time header) rs (pool, fmempty, 0) = Some (pool', smap, cnt)"
    "stats = List.map_filter (fmlookup smap) (ord (fmdom smap))"
  using assms by (auto simp: RemoveByReceipts_def bind_eq_Some_conv)

lemma pool_step_inv: "pool_step key pool pool' \<Longrightarrow> pool_inv key pool \<Longrightarrow> pool_inv key pool'"
  by (elim pool_stepE RemoveByReceipts_Some)
    (simp_all add: PushBatch_correct RemoveExpired_correct Pool_Clear_correct, metis receiptLoop_correct)

lemma reachable_inv: "pool_reachable key pool \<Longrightarrow> pool_inv key pool"
  by (induction rule: pool_reachable.induct) (auto intro: NewPendingMemPool_correct pool_step_inv)

section \<open>Inclusion statistics\<close>

definition stat_ok :: "u32 \<Rightarrow> FeeBucketStat \<Rightarrow> bool" where
  "stat_ok b s \<longleftrightarrow> fb_Bucket s = b \<and> length (fb_WaitBlockCount s) = 16 \<and>
     fb_TxCount s = sum_list (fb_WaitBlockCount s)"

lemma sum_list_inc:
  fixes xs :: "'a::comm_ring_1 list"
  assumes "i < length xs"
  shows "sum_list (xs[i := xs ! i + 1]) = sum_list xs + 1"
  using assms
proof (induction xs arbitrary: i)
  case (Cons x xs)
  then show ?case by (cases i) (auto simp: algebra_simps)
qed simp

lemma waitInd_less: "unat (if w > MaxWaitBlock then MaxWaitBlock else w) < 16"
proof (cases "w > MaxWaitBlock")
  case False
  then have "unat w \<le> unat MaxWaitBlock" by (simp add: word_less_nat_alt not_less)
  then show ?thesis using False by (simp add: MaxWaitBlock_def)
qed (simp add: MaxWaitBlock_def)

lemma stat_ok_zero: "stat_ok b (zero_stat b)"
  by (simp add: stat_ok_def zero_stat_def sum_list_replicate)

lemma stat_ok_addInclusion:
  assumes "stat_ok b s"
  shows "stat_ok b (addInclusion w t s)"
proof -
  have "unat (if w > MaxWaitBlock then MaxWaitBlock else w) < length (fb_WaitBlockCount s)"
    using waitInd_less assms by (simp add: stat_ok_def)
  from sum_list_inc [OF this] assms show ?thesis
    by (simp add: stat_ok_def addInclusion_def Let_def)
qed

definition total_count :: "(u32, FeeBucketStat) fmap \<Rightarrow> u32" where
  "total_count stats = (\<Sum>b \<in> fset (fmdom stats). fb_TxCount (the (fmlookup stats b)))"

lemma total_count_upd:
  assumes "fb_TxCount s =
    (case fmlookup stats b of None \<Rightarrow> 0 | Some s' \<Rightarrow> fb_TxCount s') + 1"
  shows "total_count (fmupd b s stats) = total_count stats + 1"
proof -
  let ?D = "fset (fmdom stats) - {b}"
  have "total_count (fmupd b s stats) = fb_TxCount s + (\<Sum>c \<in> ?D. fb_TxCount (the (fmlookup stats c)))"
    by (simp add: total_count_def sum.insert_remove) (rule sum.cong, auto)
  moreover have "total_count stats =
     (case fmlookup stats b of None \<Rightarrow> 0 | Some s' \<Rightarrow> fb_TxCount s') +
     (\<Sum>c \<in> ?D. fb_TxCount (the (fmlookup stats c)))"
  proof (cases "fmlookup stats b")
    case None
    then have "b \<notin> fset (fmdom stats)" by (simp add: fmdom_notI)
    with None show ?thesis by (simp add: total_count_def)
  next
    case (Some s')
    then have "b \<in> fset (fmdom stats)" by (rule fmdomI)
    with Some sum.remove [OF _ this, of "\<lambda>c. fb_TxCount (the (fmlookup stats c))"] show ?thesis
      by (simp add: total_count_def)
  qed
  ultimately show ?thesis using assms by simp
qed

definition stats_ok :: "(u32, FeeBucketStat) fmap \<Rightarrow> nat \<Rightarrow> bool" where
  "stats_ok stats c \<longleftrightarrow> (\<forall>b s. fmlookup stats b = Some s \<longrightarrow> stat_ok b s) \<and> total_count stats = of_nat c"

lemma receiptStep_stats:
  assumes "stats_ok stats c" "receiptStep n t h (pool, stats, c) = (pool', stats', c')"
  shows "stats_ok stats' c'"
proof (cases "hidx pool h")
  case None
  with assms show ?thesis by (simp add: receiptStep_def hidx_def)
next
  case (Some p)
  let ?tx = "pp_heap pool p"
  let ?b = "getFeeBucket (pt_TipCap ?tx)"
  let ?s = "case fmlookup stats ?b of None \<Rightarrow> zero_stat ?b | Some s \<Rightarrow> s"
  have ok: "stat_ok ?b ?s"
    using assms(1) by (auto simp: stats_ok_def stat_ok_zero split: option.split)
  have cnt: "fb_TxCount (addInclusion w u ?s) =
     (case fmlookup stats ?b of None \<Rightarrow> 0 | Some s \<Rightarrow> fb_TxCount s) + 1" for w u
    by (simp add: addInclusion_def Let_def zero_stat_def split: option.split)
  show ?thesis
  proof (cases "pt_SeenBlock ?tx > n \<or> pt_SeenBlockTime ?tx > t")
    case True
    with Some assms show ?thesis by (auto simp: receiptStep_def hidx_def Let_def)
  next
    case False
    with Some assms(2) have
      "stats' = fmupd ?b (addInclusion (n - pt_SeenBlock ?tx) (t - pt_SeenBlockTime ?tx) ?s) stats"
      "c' = c + 1"
      by (auto simp: receiptStep_def hidx_def Let_def)
    with assms(1) stat_ok_addInclusion [OF ok] total_count_upd [OF cnt] show ?thesis
      by (simp add: stats_ok_def)
  qed
qed

lemma receiptLoop_stats:
  assumes "stats_ok stats c" "receiptLoop n t rs (pool, stats, c) = Some (pool', stats', c')"
  shows "stats_ok stats' c'"
  using assms
proof (induction rs arbitrary: pool stats c)
  case (Cons x rs)
  then obtain r where x: "x = Some r" by (cases x) auto
  obtain pool1 stats1 c1 where st: "receiptStep n t (rc_TxHash r) (pool, stats, c) = (pool1, stats1, c1)"
    by (cases "receiptStep n t (rc_TxHash r) (pool, stats, c)") auto
  from receiptStep_stats [OF Cons.prems(1) st] Cons.IH Cons.prems(2) st show ?case by (simp add: x)
qed simp

lemma map_filter_total: "\<forall>x \<in> set xs. f x \<noteq> None \<Longrightarrow> List.map_filter f xs = map (\<lambda>x. the (f x)) xs"
  by (induction xs) (auto simp: List.map_filter_def)

text \<open>The transactions that count as included: in the pool, in a receipt, not seen late.\<close>

definition included :: "u64 \<Rightarrow> u64 \<Rightarrow> Hash set \<Rightarrow> pool_view \<Rightarrow> (Address \<times> u64) set" where
  "included n t H v = {k. \<exists>tx. v k = Some tx \<and> pt_Hash tx \<in> H \<and> pt_SeenBlock tx \<le> n \<and> pt_SeenBlockTime tx \<le> t}"

lemma finite_included: "finite (included n t H (pool_view pool))"
  by (rule finite_subset [OF _ finite_pool_view [of pool]]) (auto simp: included_def)

lemma receiptStep_count:
  assumes inv: "pool_inv key pool"
    and st: "receiptStep n t h (pool, stats, c) = (pool', stats', c')"
  shows "c' = c + card (included n t {h} (pool_view pool))"
proof (cases "hidx pool h")
  case None
  have "included n t {h} (pool_view pool) = {}"
    using None by (auto simp: included_def elim: pool_view_Some [OF inv])
  with None st show ?thesis by (simp add: receiptStep_def hidx_def)
next
  case (Some p)
  let ?tx = "pp_heap pool p"
  have only: "k = tx_key ?tx \<and> u = tx_core ?tx" if "pool_view pool k = Some u" "pt_Hash u = h" for k u
  proof -
    from pool_view_Some [OF inv that(1)] obtain q where
      "u = tx_core (pp_heap pool q)" "hidx pool (pt_Hash u) = Some q" "tx_key u = k" .
    with that(2) Some show ?thesis by (simp add: tx_key_def)
  qed
  have "k \<in> included n t {h} (pool_view pool) \<longleftrightarrow>
     k = tx_key ?tx \<and> pt_SeenBlock ?tx \<le> n \<and> pt_SeenBlockTime ?tx \<le> t" for k
    unfolding included_def mem_Collect_eq singleton_iff
    using only pool_view_hidx [OF inv Some] pool_inv_hash(2) [OF inv Some]
    by (metis tx_core_sel(1,7,8))
  then have "included n t {h} (pool_view pool) =
     (if pt_SeenBlock ?tx \<le> n \<and> pt_SeenBlockTime ?tx \<le> t then {tx_key ?tx} else {})"
    by (simp add: set_eq_iff)
  with Some st show ?thesis
    by (auto simp: receiptStep_def hidx_def Let_def not_le split: if_splits)
qed

lemma included_insert:
  "included n t (insert h H) v =
     included n t {h} v \<union> included n t H (spec_filter (\<lambda>tx. pt_Hash tx \<noteq> h) v)"
  by (auto simp: included_def spec_filter_def split: option.splits if_splits)

lemma included_disjoint:
  "included n t {h} v \<inter> included n t H (spec_filter (\<lambda>tx. pt_Hash tx \<noteq> h) v) = {}"
  by (auto simp: included_def spec_filter_def split: option.splits if_splits)

lemma receiptLoop_count:
  assumes "pool_inv key pool" "receiptLoop n t rs (pool, stats, c) = Some (pool', stats', c')"
  shows "c' = c + card (included n t (receipt_hashes rs) (pool_view pool))"
  using assms
proof (induction rs arbitrary: pool stats c)
  case Nil
  then show ?case by (simp add: receipt_hashes_def included_def)
next
  case (Cons x rs)
  then obtain r where x: "x = Some r" by (cases x) auto
  let ?h = "rc_TxHash r"
  obtain pool1 stats1 c1 where st: "receiptStep n t ?h (pool, stats, c) = (pool1, stats1, c1)"
    by (cases "receiptStep n t ?h (pool, stats, c)") auto
  note one = receiptStep_correct [OF Cons.prems(1), of n t ?h stats c, unfolded st fst_conv]
  have "receipt_hashes (x # rs) = insert ?h (receipt_hashes rs)"
    by (auto simp: receipt_hashes_def x)
  moreover have "c' = c1 + card (included n t (receipt_hashes rs) (pool_view pool1))"
    using Cons.IH [OF one(1)] Cons.prems(2) st by (simp add: x)
  ultimately show ?case
    using receiptStep_count [OF Cons.prems(1) st] included_insert [of n t ?h "receipt_hashes rs" "pool_view pool"]
      included_disjoint [of n t ?h "pool_view pool" "receipt_hashes rs"]
      finite_included [of n t _ pool] finite_included [of n t _ pool1] one(2)
    by (simp add: card_Un_disjoint)
qed

end
