(* ===== verification/Mempool_Snapshot.thy ===== *)
theory Mempool_Snapshot
  imports Mempool_Props
begin

text \<open>
  The snapshot of the pool: what it lists, in which order of nonces, and which transactions it
  marks as standing behind a nonce gap.
\<close>

section \<open>Snapshot\<close>

text \<open>A nonce is behind a gap when a nonce between the account's first one and it is missing.\<close>

definition nonce_gap :: "u64 set \<Rightarrow> u64 \<Rightarrow> u64 \<Rightarrow> bool" where
  "nonce_gap N first n \<longleftrightarrow> (\<exists>m. first \<le> m \<and> m < n \<and> m \<notin> N)"

lemma word_succ_le: "x < y \<Longrightarrow> x + 1 \<le> (y :: 'a::len word)"
  by (rule inc_le)

lemma word_succ_le_iff:
  assumes "x < y"
  shows "x + 1 \<le> m \<longleftrightarrow> x < (m :: 'a::len word)"
proof
  have "unat x < unat y" using assms by (simp add: word_less_nat_alt)
  then have "unat x + 1 < 2 ^ LENGTH('a)" using unsigned_less [of y] by (metis Suc_eq_plus1 Suc_leI order.strict_trans1 unsigned_less)
  then have "unat (x + 1) = unat x + 1" by (simp add: unat_word_ariths)
  then have "x < x + 1" by (simp add: word_less_nat_alt)
  then show "x + 1 \<le> m \<Longrightarrow> x < m" by (rule order_less_le_trans)
qed (rule inc_le)

lemma snapNonces_eq:
  assumes "sorted_wrt (<) ns" "\<forall>n \<in> set ns. fmlookup account n \<noteq> None"
    "ns \<noteq> [] \<longrightarrow> expected \<le> hd ns"
  shows "snapNonces heap account ns expected gap =
    map (\<lambda>n. (heap (the (fmlookup account n)))\<lparr>pt_NonceGap := gap \<or> nonce_gap (set ns) expected n\<rparr>) ns"
  using assms
proof (induction ns arbitrary: expected gap)
  case (Cons n ns)
  from Cons.prems obtain p where p: "fmlookup account n = Some p" by auto
  have le: "expected \<le> n" using Cons.prems(3) by simp
  have big: "\<forall>m \<in> set ns. n < m" using Cons.prems(1) by simp
  have gapn: "nonce_gap (set (n # ns)) expected n \<longleftrightarrow> n \<noteq> expected"
  proof
    assume "n \<noteq> expected"
    with le big have "expected < n" "expected \<notin> set (n # ns)" by auto
    then show "nonce_gap (set (n # ns)) expected n" by (auto simp: nonce_gap_def)
  qed (auto simp: nonce_gap_def)
  have gapm: "(gap \<or> n \<noteq> expected) \<or> nonce_gap (set ns) (n + 1) m \<longleftrightarrow>
     gap \<or> nonce_gap (set (n # ns)) expected m" if m: "m \<in> set ns" for m
  proof -
    have nm: "n < m" using big m by blast
    have "nonce_gap (set ns) (n + 1) m \<longleftrightarrow> (\<exists>k. n < k \<and> k < m \<and> k \<notin> set ns)"
      by (simp add: nonce_gap_def word_succ_le_iff [OF nm])
    moreover have "nonce_gap (set (n # ns)) expected m \<longleftrightarrow>
       n \<noteq> expected \<or> (\<exists>k. n < k \<and> k < m \<and> k \<notin> set ns)"
    proof
      assume "nonce_gap (set (n # ns)) expected m"
      then obtain k where k: "expected \<le> k" "k < m" "k \<noteq> n" "k \<notin> set ns"
        by (auto simp: nonce_gap_def)
      then show "n \<noteq> expected \<or> (\<exists>k. n < k \<and> k < m \<and> k \<notin> set ns)"
        by (metis order_neq_le_trans)
    next
      assume "n \<noteq> expected \<or> (\<exists>k. n < k \<and> k < m \<and> k \<notin> set ns)"
      then show "nonce_gap (set (n # ns)) expected m"
      proof
        assume "n \<noteq> expected"
        with gapn nm show ?thesis by (meson nonce_gap_def order.strict_trans)
      next
        assume "\<exists>k. n < k \<and> k < m \<and> k \<notin> set ns"
        then obtain k where "n < k" "k < m" "k \<notin> set ns" by blast
        with le have "expected \<le> k" "k < m" "k \<notin> set (n # ns)" by auto
        then show ?thesis unfolding nonce_gap_def by blast
      qed
    qed
    ultimately show ?thesis by blast
  qed
  have "ns \<noteq> [] \<longrightarrow> n + 1 \<le> hd ns" using big by (simp add: word_succ_le)
  with Cons.IH [of "n + 1" "gap \<or> n \<noteq> expected"] Cons.prems
  have "snapNonces heap account ns (n + 1) (gap \<or> n \<noteq> expected) =
    map (\<lambda>m. (heap (the (fmlookup account m)))\<lparr>pt_NonceGap := (gap \<or> n \<noteq> expected) \<or> nonce_gap (set ns) (n + 1) m\<rparr>) ns"
    by simp
  also have "\<dots> = map (\<lambda>m. (heap (the (fmlookup account m)))
      \<lparr>pt_NonceGap := gap \<or> nonce_gap (set (n # ns)) expected m\<rparr>) ns"
    using gapm by (intro map_cong) (simp_all del: list.set)
  finally show ?case using gapn p by (simp add: Let_def del: list.set)
qed simp

lemma snapAccount_eq:
  assumes "account \<noteq> fmempty"
  shows "snapAccount heap account =
    map (\<lambda>n. (heap (the (fmlookup account n)))
        \<lparr>pt_NonceGap := nonce_gap (fset (fmdom account)) (Min (fset (fmdom account))) n\<rparr>)
      (sorted_list_of_fset (fmdom account))"
proof -
  let ?ns = "sorted_list_of_fset (fmdom account)"
  have ns: "set ?ns = fset (fmdom account)" "sorted_wrt (<) ?ns"
    by (simp_all add: sorted_list_of_fset.rep_eq)
  have ne: "?ns \<noteq> []"
  proof
    assume "?ns = []"
    then have "fmdom account = {||}" using ns(1) by (metis bot_fset.rep_eq empty_set fset_inject)
    then have "account = fmempty" by (metis fmap_ext fmdom_notD fmempty_lookup fempty_iff)
    with assms show False by simp
  qed
  have hd: "hd ?ns = Min (fset (fmdom account))"
    using ns ne by (metis finite_fset finite_set hd_in_set list.collapse list.sel(1) sorted_wrt.simps(2)
        Min_eqI set_ConsD order.refl less_imp_le)
  have all: "\<forall>n \<in> set ?ns. fmlookup account n \<noteq> None"
    unfolding ns(1) by (auto simp: fmlookup_dom_iff)
  have "snapAccount heap account = snapNonces heap account ?ns (hd ?ns) False"
    using ne by (simp add: snapAccount_def split: list.split)
  also have "\<dots> = map (\<lambda>n. (heap (the (fmlookup account n)))
      \<lparr>pt_NonceGap := False \<or> nonce_gap (set ?ns) (hd ?ns) n\<rparr>) ?ns"
    by (rule snapNonces_eq) (use ns all in auto)
  finally show ?thesis by (simp add: ns(1) hd)
qed

section \<open>The whole snapshot\<close>

definition snap_keys :: "(Address fset \<Rightarrow> Address list) \<Rightarrow> PendingMemPool \<Rightarrow> (Address \<times> u64) list" where
  "snap_keys ord pool = concat (map
     (\<lambda>a. map (Pair a) (sorted_list_of_fset (fmdom (account_of pool a)))) (ord (fmdom (pp_Accounts pool))))"

definition snap_tx :: "PendingMemPool \<Rightarrow> Address \<times> u64 \<Rightarrow> PendingTx" where
  "snap_tx pool = (\<lambda>(a, n). (pp_heap pool (the (acct pool a n)))
     \<lparr>pt_NonceGap := nonce_gap (fset (fmdom (account_of pool a))) (Min (fset (fmdom (account_of pool a)))) n\<rparr>)"

lemma account_nonempty:
  assumes "pool_inv key pool" "a \<in> fset (fmdom (pp_Accounts pool))"
  shows "account_of pool a \<noteq> fmempty"
  using assms pool_inv_tidy [OF assms(1)]
  by (auto simp: pool_tidy_def account_of_def fmlookup_dom_iff)

lemma Snapshot_map:
  assumes "pool_inv key pool" "is_range_order ord"
  shows "Snapshot ord pool = map (snap_tx pool) (snap_keys ord pool)"
proof -
  have "snapAccount (pp_heap pool) (account_of pool a) =
      map (snap_tx pool) (map (Pair a) (sorted_list_of_fset (fmdom (account_of pool a))))"
    if "a \<in> set (ord (fmdom (pp_Accounts pool)))" for a
    using that assms(2) account_nonempty [OF assms(1), of a]
    by (simp add: snapAccount_eq snap_tx_def acct_def is_range_order_def)
  then show ?thesis
    by (simp add: Snapshot_def snap_keys_def map_concat cong: map_cong)
qed

lemma set_snap_keys:
  assumes "is_range_order ord"
  shows "set (snap_keys ord pool) = {k. acct pool (fst k) (snd k) \<noteq> None}"
proof -
  have "set (snap_keys ord pool) =
     (SIGMA a : fset (fmdom (pp_Accounts pool)). fset (fmdom (account_of pool a)))"
    using assms by (auto simp: snap_keys_def is_range_order_def sorted_list_of_fset.rep_eq)
  also have "\<dots> = {k. acct pool (fst k) (snd k) \<noteq> None}"
    by (auto simp: acct_def account_of_def fmlookup_dom_iff split: option.splits)
  finally show ?thesis .
qed

lemma distinct_snap_keys:
  assumes "is_range_order ord"
  shows "distinct (snap_keys ord pool)"
proof -
  have "distinct (concat (map (\<lambda>a. map (Pair a) (sorted_list_of_fset (fmdom (account_of pool a)))) as))"
    if "distinct as" for as
    using that by (induction as) (auto simp: distinct_map inj_on_def sorted_list_of_fset.rep_eq)
  with assms show ?thesis by (simp add: snap_keys_def is_range_order_def)
qed

lemma tx_key_snap_tx:
  assumes "pool_inv key pool" "acct pool (fst k) (snd k) = Some p"
  shows "tx_key (snap_tx pool k) = k" "snap_tx pool k = (pp_heap pool p)\<lparr>pt_NonceGap := pt_NonceGap (snap_tx pool k)\<rparr>"
  using pool_inv_acct [OF assms] assms(2) by (simp_all add: snap_tx_def tx_key_def split_beta)

lemma tx_key_snap_keys:
  assumes "pool_inv key pool" "is_range_order ord" "k \<in> set (snap_keys ord pool)"
  shows "tx_key (snap_tx pool k) = k"
proof -
  from assms(3) obtain p where "acct pool (fst k) (snd k) = Some p"
    by (auto simp: set_snap_keys [OF assms(2)])
  with tx_key_snap_tx(1) [OF assms(1)] show ?thesis by blast
qed

lemma snap_gap:
  "pt_NonceGap (snap_tx pool (a, n)) \<longleftrightarrow>
     (\<exists>l m. l < m \<and> m < n \<and> pool_view pool (a, l) \<noteq> None \<and> pool_view pool (a, m) = None)"
  if "pool_view pool (a, n) \<noteq> None"
proof -
  let ?N = "fset (fmdom (account_of pool a))"
  have mem: "m \<in> ?N \<longleftrightarrow> pool_view pool (a, m) \<noteq> None" for m
    by (auto simp: pool_view_def acct_def fmlookup_dom_iff)
  with that have fin: "finite ?N" "?N \<noteq> {}" by auto
  have "nonce_gap ?N (Min ?N) n \<longleftrightarrow> (\<exists>l m. l < m \<and> m < n \<and> l \<in> ?N \<and> m \<notin> ?N)"
  proof
    assume "nonce_gap ?N (Min ?N) n"
    then obtain m where m: "Min ?N \<le> m" "m < n" "m \<notin> ?N" unfolding nonce_gap_def by blast
    moreover from m Min_in [OF fin] have "Min ?N \<noteq> m" by blast
    ultimately have "Min ?N < m" by simp
    with m Min_in [OF fin] show "\<exists>l m. l < m \<and> m < n \<and> l \<in> ?N \<and> m \<notin> ?N" by blast
  next
    assume "\<exists>l m. l < m \<and> m < n \<and> l \<in> ?N \<and> m \<notin> ?N"
    then obtain l m where m: "l < m" "m < n" "l \<in> ?N" "m \<notin> ?N" by blast
    with Min_le [OF fin(1) m(3)] have "Min ?N \<le> m" by (meson order.trans order_less_imp_le)
    with m show "nonce_gap ?N (Min ?N) n" unfolding nonce_gap_def by blast
  qed
  then show ?thesis by (simp add: snap_tx_def mem)
qed

lemma Snapshot_lookup:
  assumes inv: "pool_inv key pool" and ord: "is_range_order ord"
  shows "map_of (map (\<lambda>t. (tx_key t, (tx_core t)\<lparr>pt_NonceGap := False\<rparr>)) (Snapshot ord pool)) k =
    map_option (\<lambda>t. t\<lparr>pt_NonceGap := False\<rparr>) (pool_view pool k)"
proof -
  let ?g = "\<lambda>t. (tx_core t)\<lparr>pt_NonceGap := False\<rparr>"
  have "map (\<lambda>t. (tx_key t, ?g t)) (Snapshot ord pool) =
     map (\<lambda>j. (j, ?g (snap_tx pool j))) (snap_keys ord pool)"
    by (simp add: Snapshot_map [OF inv ord] tx_key_snap_keys [OF inv ord])
  then have "map_of (map (\<lambda>t. (tx_key t, ?g t)) (Snapshot ord pool)) k =
     (if k \<in> set (snap_keys ord pool) then Some (?g (snap_tx pool k)) else None)"
    by (simp add: map_of_map_restrict restrict_map_def)
  also have "\<dots> = map_option (\<lambda>t. t\<lparr>pt_NonceGap := False\<rparr>) (pool_view pool k)"
    by (auto simp: set_snap_keys [OF ord] pool_view_def snap_tx_def tx_core_def split: prod.splits)
  finally show ?thesis .
qed

lemma Snapshot_distinct:
  assumes inv: "pool_inv key pool" and ord: "is_range_order ord"
  shows "distinct (map tx_key (Snapshot ord pool))"
proof -
  have "map tx_key (Snapshot ord pool) = snap_keys ord pool"
    unfolding Snapshot_map [OF inv ord] map_map comp_def
    by (intro map_idI tx_key_snap_keys [OF inv ord])
  then show ?thesis by (simp add: distinct_snap_keys [OF ord])
qed

lemma Snapshot_gap:
  assumes inv: "pool_inv key pool" and ord: "is_range_order ord" and t: "t \<in> set (Snapshot ord pool)"
  shows "pt_NonceGap t \<longleftrightarrow> (\<exists>l m. l < m \<and> m < pt_Nonce t \<and>
    pool_view pool (pt_From t, l) \<noteq> None \<and> pool_view pool (pt_From t, m) = None)"
proof -
  from t obtain k where k: "k \<in> set (snap_keys ord pool)" "t = snap_tx pool k"
    by (auto simp: Snapshot_map [OF inv ord])
  then have "tx_key t = k" by (simp add: tx_key_snap_keys [OF inv ord])
  moreover have "pool_view pool k \<noteq> None"
    using k(1) by (simp add: set_snap_keys [OF ord] pool_view_def split_beta)
  ultimately show ?thesis
    using snap_gap [of pool "fst k" "snd k"] k(2)
    by (metis prod.collapse fst_conv snd_conv tx_key_def)
qed

end
