(* ===== verification/Mempool_Claims.thy ===== *)
theory Mempool_Claims
  imports Mempool_Snapshot
begin

text \<open>
  The properties of the pending transaction pool, each with an application to a small concrete
  pool. Transactions of the samples have one sender and a hash whose last hexadecimal digit is the nonce.
\<close>

section \<open>A sample pool\<close>

definition sample_key :: "Hash \<Rightarrow> Address \<times> u64" where
  "sample_key h = (7, ucast (h mod 16))"

definition sample_tx :: "Hash \<Rightarrow> int \<Rightarrow> int \<Rightarrow> Transaction option" where
  "sample_tx h tip fee = Some
     \<lparr>tx_Hash = h, tx_GasTipCap = Some tip, tx_GasFeeCap = Some fee, tx_GasPrice = Some fee,
      tx_Gas = 21000, tx_Nonce = ucast (h mod 16)\<rparr>"

definition sample_pool :: PendingMemPool where
  "sample_pool =
     \<lparr>pp_Signer = (\<lambda>_. Some 7), pp_Accounts = fmempty, pp_ExpireBuckets = fmempty,
      pp_HashIndex = fmempty, pp_TTLBlock = 20, pp_heap = (\<lambda>_. zero_PendingTx), pp_next = 0\<rparr>"

text \<open>Nonces 3, 4 and 6; the second transaction with nonce 4 (hash 20) replaces the first.\<close>

definition sample_batch :: "Transaction option list" where
  "sample_batch =
     [sample_tx 3 5 50, None, sample_tx 4 1000000000 2000000000, sample_tx 6 5 60,
      sample_tx 20 1500000000 3000000000]"

definition sample_pool1 :: PendingMemPool where
  "sample_pool1 = PushBatch sample_batch 100 1200 sample_pool"

definition sample_header :: "int option \<Rightarrow> Header" where
  "sample_header num =
     \<lparr>hd_Hash = 1, hd_Number = num, hd_Time = 1224, hd_BaseFee = Some 10, hd_GasUsed = 21000,
      hd_GasLimit = 30000000\<rparr>"

definition sample_receipt :: "Hash \<Rightarrow> Receipt option" where
  "sample_receipt h = Some \<lparr>rc_TxHash = h, rc_GasUsed = 21000, rc_EffectiveGasPrice = Some 12\<rparr>"

lemma sample_new: "NewPendingMemPool (\<lambda>_ _. Some 7) ''1'' 20 = Some sample_pool"
  by (simp add: NewPendingMemPool_def sample_pool_def digit_value_def)

lemma sample_keyed: "keyed_batch sample_key (pp_Signer sample_pool) sample_batch"
  by (auto simp: keyed_batch_def sample_batch_def sample_tx_def sample_key_def sample_pool_def)

lemma sample_reachable: "pool_reachable sample_key sample_pool1"
  unfolding sample_pool1_def
  by (rule pool_reachable.step [OF pool_reachable.new [OF sample_new] pool_step.push [OF sample_keyed]])

lemma sample_inv: "pool_inv sample_key sample_pool1"
  by (rule reachable_inv [OF sample_reachable])

section \<open>Removal by receipts\<close>

lemma RemoveByReceipts_stats:
  assumes "pool_inv key pool" "is_range_order ord" "hd_Number header = Some num"
    and "RemoveByReceipts ord header rs pool = Some (stats, cnt, pool')"
  shows "pool_inv key pool' \<and>
    pool_view pool' = spec_filter (\<lambda>tx. pt_Hash tx \<notin> receipt_hashes rs) (pool_view pool) \<and>
    cnt = card (included (big_Uint64 num) (hd_Time header) (receipt_hashes rs) (pool_view pool)) \<and>
    distinct (map fb_Bucket stats) \<and>
    (\<forall>s \<in> set stats. fb_TxCount s = sum_list (fb_WaitBlockCount s)) \<and>
    sum_list (map fb_TxCount stats) = of_nat cnt"
proof -
  from RemoveByReceipts_Some [OF assms(4)] obtain smap where
    loop: "receiptLoop (big_Uint64 num) (hd_Time header) rs (pool, fmempty, 0) = Some (pool', smap, cnt)"
    and stats: "stats = List.map_filter (fmlookup smap) (ord (fmdom smap))"
    using assms(3) by auto
  have ok: "stats_ok smap cnt"
    by (rule receiptLoop_stats [OF _ loop]) (simp add: stats_ok_def total_count_def)
  have list: "stats = map (\<lambda>b. the (fmlookup smap b)) (ord (fmdom smap))"
    unfolding stats using assms(2) by (intro map_filter_total) (auto simp: is_range_order_def)
  have each: "stat_ok b (the (fmlookup smap b))" if "b \<in> set (ord (fmdom smap))" for b
    using ok that assms(2) by (auto simp: stats_ok_def is_range_order_def fmlookup_dom_iff)
  have "map fb_Bucket stats = ord (fmdom smap)"
    unfolding list map_map comp_def using each by (intro map_idI) (simp add: stat_ok_def)
  moreover have "sum_list (map fb_TxCount stats) = of_nat cnt"
    using ok assms(2) by (simp add: list stats_ok_def total_count_def comp_def is_range_order_def
      sum_list_distinct_conv_sum_set)
  moreover have "\<forall>s \<in> set stats. fb_TxCount s = sum_list (fb_WaitBlockCount s)"
    using each by (auto simp: list stat_ok_def)
  ultimately show ?thesis
    using receiptLoop_correct [OF assms(1) loop] receiptLoop_count [OF assms(1) loop] assms(2)
    by (simp add: is_range_order_def)
qed

lemma RemoveByReceipts_nil:
  "RemoveByReceipts ord header rs pool = None \<longleftrightarrow> hd_Number header = None \<or> None \<in> set rs"
proof (cases "hd_Number header")
  case (Some num)
  have "RemoveByReceipts ord header rs pool = None \<longleftrightarrow>
     receiptLoop (big_Uint64 num) (hd_Time header) rs (pool, fmempty, 0) = None"
    by (simp add: RemoveByReceipts_def Some bind_eq_None_conv split: prod.split)
  with Some receiptLoop_returns [of "big_Uint64 num" "hd_Time header" rs "(pool, fmempty, 0)"] show ?thesis
    by (metis option.distinct(1))
qed (simp add: RemoveByReceipts_def)

section \<open>Properties\<close>

text \<open>
  C5. Pool invariant. In every state that a new pool reaches by any sequence of \<open>PushBatch\<close>,
  \<open>RemoveByReceipts\<close>, \<open>RemoveExpired\<close> and \<open>Clear\<close>, whatever the iteration order of the maps, the
  three indexes describe the same transactions: a pointer of the hash index is the entry of its
  account and nonce and stands in the bucket of its expiry block at the recorded \<open>ExpireIndex\<close>,
  every account entry and every bucket entry is in the hash index, and no account or bucket is
  left empty.
\<close>

theorem pool_invariant:
  assumes "pool_reachable key pool"
  shows "(\<forall>h p. fmlookup (pp_HashIndex pool) h = Some p \<longrightarrow>
      pt_Hash (pp_heap pool p) = h \<and>
      fmlookup (account_of pool (pt_From (pp_heap pool p))) (pt_Nonce (pp_heap pool p)) = Some p \<and>
      0 \<le> pt_ExpireIndex (pp_heap pool p) \<and>
      nat (pt_ExpireIndex (pp_heap pool p)) < length (bkt pool (pt_ExpireBlock (pp_heap pool p))) \<and>
      bkt pool (pt_ExpireBlock (pp_heap pool p)) ! nat (pt_ExpireIndex (pp_heap pool p)) = p) \<and>
    (\<forall>a n p. fmlookup (account_of pool a) n = Some p \<longrightarrow>
      pt_From (pp_heap pool p) = a \<and> pt_Nonce (pp_heap pool p) = n \<and>
      fmlookup (pp_HashIndex pool) (pt_Hash (pp_heap pool p)) = Some p) \<and>
    (\<forall>b p. p \<in> set (bkt pool b) \<longrightarrow>
      pt_ExpireBlock (pp_heap pool p) = b \<and>
      fmlookup (pp_HashIndex pool) (pt_Hash (pp_heap pool p)) = Some p) \<and>
    (\<forall>a. fmlookup (pp_Accounts pool) a \<noteq> Some fmempty) \<and>
    (\<forall>b. fmlookup (pp_ExpireBuckets pool) b \<noteq> Some [])"
proof -
  have inv: "pool_inv key pool" using assms by (rule reachable_inv)
  have mem: "\<exists>i. at_bucket pool b i p" if "p \<in> set (bkt pool b)" for b p
    using that by (auto simp: at_bucket_def in_set_conv_nth)
  show ?thesis
  proof (intro conjI allI impI)
    fix h p assume "fmlookup (pp_HashIndex pool) h = Some p"
    note h = pool_inv_hash [OF inv, unfolded hidx_def acct_def at_bucket_def, OF this]
    show "pt_Hash (pp_heap pool p) = h" by (rule h(2))
    show "fmlookup (account_of pool (pt_From (pp_heap pool p))) (pt_Nonce (pp_heap pool p)) = Some p"
      by (rule h(3))
    show "0 \<le> pt_ExpireIndex (pp_heap pool p)" by (rule h(5))
    show "nat (pt_ExpireIndex (pp_heap pool p)) < length (bkt pool (pt_ExpireBlock (pp_heap pool p)))"
      "bkt pool (pt_ExpireBlock (pp_heap pool p)) ! nat (pt_ExpireIndex (pp_heap pool p)) = p"
      using h(6) by simp_all
  next
    fix a n p assume "fmlookup (account_of pool a) n = Some p"
    note a = pool_inv_acct [OF inv, unfolded hidx_def acct_def, OF this]
    show "pt_From (pp_heap pool p) = a" "pt_Nonce (pp_heap pool p) = n"
      "fmlookup (pp_HashIndex pool) (pt_Hash (pp_heap pool p)) = Some p" by (rule a)+
  next
    fix b p assume "p \<in> set (bkt pool b)"
    then obtain i where "at_bucket pool b i p" using mem by blast
    note b = pool_inv_bucket [OF inv this, unfolded hidx_def]
    show "pt_ExpireBlock (pp_heap pool p) = b"
      "fmlookup (pp_HashIndex pool) (pt_Hash (pp_heap pool p)) = Some p" by (rule b)+
  qed (use pool_inv_tidy [OF inv] in \<open>simp_all add: pool_tidy_def\<close>)
qed

theorem pool_invariant_witness:
  "fmlookup (pp_HashIndex sample_pool1) 3 = Some 0 \<and>
   fmlookup (account_of sample_pool1 (pt_From (pp_heap sample_pool1 0))) (pt_Nonce (pp_heap sample_pool1 0)) = Some 0 \<and>
   bkt sample_pool1 (pt_ExpireBlock (pp_heap sample_pool1 0)) ! nat (pt_ExpireIndex (pp_heap sample_pool1 0)) = 0"
proof -
  have "fmlookup (pp_HashIndex sample_pool1) 3 = Some 0"
    unfolding sample_pool1_def by code_simp
  with pool_invariant [OF sample_reachable] show ?thesis by blast
qed

text \<open>
  C15. Pushing a batch. \<open>PushBatch\<close> refines the abstract pool: the valid transactions enter in the
  order of the batch; a transaction whose sender and nonce are taken replaces the old one exactly
  when both its tip cap and its fee cap are larger, and is dropped otherwise.
\<close>

theorem PushBatch_refines:
  assumes "pool_inv key pool" "keyed_batch key (pp_Signer pool) txs"
  shows "pool_inv key (PushBatch txs b t pool) \<and>
    pool_view (PushBatch txs b t pool) = fold spec_push (validTxs pool b t txs) (pool_view pool)"
  using PushBatch_correct [OF assms] by simp

theorem PushBatch_refines_witness:
  "map_option pt_Hash (pool_view sample_pool1 (7, 4)) = Some 20 \<and>
   map_option pt_Hash (pool_view sample_pool1 (7, 3)) = Some 3"
proof -
  have inv: "pool_inv sample_key sample_pool" "pool_view sample_pool = Map.empty"
    using NewPendingMemPool_correct [OF sample_new] by simp_all
  have eq: "pool_view sample_pool1 = fold spec_push (validTxs sample_pool 100 1200 sample_batch) Map.empty"
    using PushBatch_refines [OF inv(1) sample_keyed, of 100 1200] by (simp add: sample_pool1_def inv(2))
  show ?thesis unfolding eq by code_simp
qed

text \<open>
  C16. Included transactions. When \<open>RemoveByReceipts\<close> returns, the pool is the old one without the
  transactions of the receipts, the count is the number of removed transactions that were seen no
  later than the block, the reported statistics have distinct buckets, each statistic's
  \<open>TxCount\<close> is the sum of its wait histogram, and together they count the removed transactions.
\<close>

theorem RemoveByReceipts_refines:
  assumes "pool_inv key pool" "is_range_order ord" "hd_Number header = Some num"
    and "RemoveByReceipts ord header rs pool = Some (stats, cnt, pool')"
  shows "pool_inv key pool' \<and>
    pool_view pool' = spec_filter (\<lambda>tx. pt_Hash tx \<notin> receipt_hashes rs) (pool_view pool) \<and>
    cnt = card (included (big_Uint64 num) (hd_Time header) (receipt_hashes rs) (pool_view pool)) \<and>
    distinct (map fb_Bucket stats) \<and>
    (\<forall>s \<in> set stats. fb_TxCount s = sum_list (fb_WaitBlockCount s)) \<and>
    sum_list (map fb_TxCount stats) = of_nat cnt"
  using RemoveByReceipts_stats [OF assms] .

definition sample_receipts :: "Receipt option list" where
  "sample_receipts = [sample_receipt 9, sample_receipt 20, sample_receipt 3, sample_receipt 3]"

theorem RemoveByReceipts_refines_witness:
  "\<exists>stats cnt pool'. RemoveByReceipts sorted_list_of_fset (sample_header (Some 102)) sample_receipts sample_pool1 =
     Some (stats, cnt, pool') \<and> cnt = 2 \<and> sum_list (map fb_TxCount stats) = of_nat cnt \<and>
   pool_view pool' (7, 3) = None"
proof -
  let ?r = "RemoveByReceipts sorted_list_of_fset (sample_header (Some 102)) sample_receipts sample_pool1"
  have "map_option (\<lambda>z. fst (snd z)) ?r = Some 2"
    unfolding sample_pool1_def by code_simp
  then obtain z where z: "?r = Some z" "fst (snd z) = 2" unfolding map_option_eq_Some by blast
  obtain stats cnt pool' where "z = (stats, cnt, pool')" by (rule prod_cases3)
  with z have r: "?r = Some (stats, cnt, pool')" "cnt = 2" by (simp_all only: fst_conv snd_conv)
  have num: "hd_Number (sample_header (Some 102)) = Some 102" by (simp add: sample_header_def)
  note ok = RemoveByReceipts_refines [OF sample_inv is_range_order_sorted num r(1)]
  have "3 \<in> receipt_hashes sample_receipts"
    unfolding receipt_hashes_def sample_receipts_def sample_receipt_def
    by (rule CollectI, rule exI [of _ "the (sample_receipt 3)"]) (simp add: sample_receipt_def)
  moreover have "map_option pt_Hash (pool_view sample_pool1 (7, 3)) = Some 3"
    unfolding sample_pool1_def by code_simp
  ultimately have "pool_view pool' (7, 3) = None"
    using ok by (auto simp: spec_filter_def)
  with r ok show ?thesis by blast
qed

text \<open>
  C17. Expiry. \<open>RemoveExpired\<close> removes exactly the transactions whose expiry block is not after the
  current block, in whatever order the buckets are visited, and returns their number.
\<close>

theorem RemoveExpired_refines:
  assumes "pool_inv key pool" "is_range_order ord"
  shows "pool_inv key (fst (RemoveExpired ord cur pool)) \<and>
    pool_view (fst (RemoveExpired ord cur pool)) =
      spec_filter (\<lambda>tx. cur < pt_ExpireBlock tx) (pool_view pool) \<and>
    snd (RemoveExpired ord cur pool) =
      card {k. \<exists>t. pool_view pool k = Some t \<and> pt_ExpireBlock t \<le> cur}"
  using RemoveExpired_correct [OF assms] by simp

theorem RemoveExpired_refines_witness:
  "snd (RemoveExpired sorted_list_of_fset 120 sample_pool1) = 3 \<and>
   card {k. \<exists>t. pool_view sample_pool1 k = Some t \<and> pt_ExpireBlock t \<le> 120} = 3"
proof -
  have "snd (RemoveExpired sorted_list_of_fset 120 sample_pool1) = 3"
    unfolding sample_pool1_def by code_simp
  then show ?thesis
    using RemoveExpired_refines [OF sample_inv is_range_order_sorted, of 120] by simp
qed

text \<open>
  C19. Snapshot. The snapshot lists every pooled transaction once, with the pooled data, and sets
  \<open>NonceGap\<close> exactly for those behind a missing nonce of the same sender: some smaller nonce of the
  sender is pooled and a nonce between that one and the transaction is not.
\<close>

theorem Snapshot_complete:
  assumes "pool_inv key pool" "is_range_order ord"
  shows "distinct (map tx_key (Snapshot ord pool)) \<and>
    (\<forall>k. map_of (map (\<lambda>t. (tx_key t, (tx_core t)\<lparr>pt_NonceGap := False\<rparr>)) (Snapshot ord pool)) k =
      map_option (\<lambda>t. t\<lparr>pt_NonceGap := False\<rparr>) (pool_view pool k)) \<and>
    (\<forall>t \<in> set (Snapshot ord pool). pt_NonceGap t \<longleftrightarrow>
      (\<exists>l m. l < m \<and> m < pt_Nonce t \<and>
        pool_view pool (pt_From t, l) \<noteq> None \<and> pool_view pool (pt_From t, m) = None))"
  using Snapshot_distinct [OF assms] Snapshot_lookup [OF assms] Snapshot_gap [OF assms] by blast

theorem Snapshot_complete_witness:
  "map (\<lambda>t. (pt_Nonce t, pt_NonceGap t)) (Snapshot sorted_list_of_fset sample_pool1) =
     [(3, False), (4, False), (6, True)] \<and>
   distinct (map tx_key (Snapshot sorted_list_of_fset sample_pool1))"
proof
  show "map (\<lambda>t. (pt_Nonce t, pt_NonceGap t)) (Snapshot sorted_list_of_fset sample_pool1) =
     [(3, False), (4, False), (6, True)]"
    unfolding sample_pool1_def by code_simp
  show "distinct (map tx_key (Snapshot sorted_list_of_fset sample_pool1))"
    using Snapshot_complete [OF sample_inv is_range_order_sorted] by blast
qed

end
