(* ===== verification/Gas_Analyzer.thy ===== *)
theory Gas_Analyzer
  imports Gas_Claims Mempool_Claims
begin

text \<open>
  The analyzer (\<open>internal/gasanalyzer/analyzer.go\<close>). Its state is the record \<open>Analyzer\<close>; every
  method runs under the locks \<open>runMu\<close> and \<open>mu\<close> and is one step. The pool and the gRPC client it
  holds are other components: \<open>AnalyzeGasPrice\<close> takes the snapshot of the pool as an argument and
  returns the message for the client. The clock is an argument, too. A nil map is \<open>None\<close>: looking
  up a key in it finds nothing.
\<close>

section \<open>Data\<close>

record GasLevel =
  gl_PriorityFee :: u64
  gl_MaxFee :: u64

type_synonym level_map = "(string, GasLevel) fmap option"

record GasPrediction =
  gp_NextBlockNumber :: u64
  gp_NextBaseFee :: u64
  gp_PredictResult :: level_map
  gp_AnalyzerBlock :: level_map
  gp_AnalyzerPending :: level_map
  gp_UpdatedAt :: Time

record BlockAnalysisData =
  ba_BlockNumber :: u64
  ba_BlockTime :: u64
  ba_BaseFee :: u64
  ba_NextBaseFee :: u64
  ba_GasUsed :: u64
  ba_GasLimit :: u64
  ba_Cutoff :: u64
  ba_TipPool :: "WeightedTip list"
  ba_UpdatedAt :: Time

record Analyzer =
  an_DecayTable :: "float64 list"
  an_latestResult :: GasPrediction
  an_latestBlockData :: BlockAnalysisData
  an_ready :: bool

text \<open>The message \<open>pb.GasPredictionRequest\<close> that the analyzer hands to the gRPC client.\<close>

record GasPredictionRequest =
  pr_NextBlockNumber :: u64
  pr_NextBaseFee :: u64
  pr_PredictResult :: "(string, GasLevel) fmap"
  pr_UpdatedAt :: Time

definition zero_GasPrediction :: GasPrediction where
  "zero_GasPrediction =
     \<lparr>gp_NextBlockNumber = 0, gp_NextBaseFee = 0, gp_PredictResult = None, gp_AnalyzerBlock = None,
      gp_AnalyzerPending = None, gp_UpdatedAt = 0\<rparr>"

definition zero_BlockAnalysisData :: BlockAnalysisData where
  "zero_BlockAnalysisData =
     \<lparr>ba_BlockNumber = 0, ba_BlockTime = 0, ba_BaseFee = 0, ba_NextBaseFee = 0, ba_GasUsed = 0,
      ba_GasLimit = 0, ba_Cutoff = 0, ba_TipPool = [], ba_UpdatedAt = 0\<rparr>"

definition level_lookup :: "level_map \<Rightarrow> string \<Rightarrow> GasLevel option" where
  "level_lookup m k = (case m of None \<Rightarrow> None | Some f \<Rightarrow> fmlookup f k)"

section \<open>Creation, reset and readiness\<close>

text \<open>
  \<open>math.Exp\<close> is the argument \<open>exp64\<close>: the theorems use nothing of its values. \<open>make\<close> panics on a
  negative length.
\<close>

definition lamda :: float64 where
  "lamda = f64 (7 / 10)"

definition NewAnalyzer :: "(float64 \<Rightarrow> float64) \<Rightarrow> int \<Rightarrow> Analyzer go" where
  "NewAnalyzer exp64 maxBlockCount =
     (if maxBlockCount < 0 then panic
      else ret
        \<lparr>an_DecayTable = map (\<lambda>age. exp64 (f64_mul (f64_neg lamda) (f64 (of_nat age)))) [0 ..< nat maxBlockCount],
         an_latestResult = zero_GasPrediction, an_latestBlockData = zero_BlockAnalysisData,
         an_ready = False\<rparr>)"

definition DecayValues :: "Analyzer \<Rightarrow> float64 list" where
  "DecayValues a = an_DecayTable a"

definition Analyzer_Reset :: "Analyzer \<Rightarrow> Analyzer" where
  "Analyzer_Reset a =
     a\<lparr>an_ready := False, an_latestResult := zero_GasPrediction,
       an_latestBlockData := zero_BlockAnalysisData\<rparr>"

definition SetReady :: "Analyzer \<Rightarrow> Analyzer" where
  "SetReady a = a\<lparr>an_ready := True\<rparr>"

section \<open>The pending side\<close>

definition pendingTip :: "u64 \<Rightarrow> u64 \<Rightarrow> PendingTx \<Rightarrow> WeightedTip option" where
  "pendingTip nextBaseFee blockGasLimit tx =
     (if pt_FeeCap tx < nextBaseFee then None
      else case EffectiveTip (pt_FeeCap tx) (pt_TipCap tx) nextBaseFee of
        (tip, ok) \<Rightarrow>
          if \<not> ok then None
          else
            let weight = CalculateWeightForGasUsed (pt_GasLimit tx) blockGasLimit;
                weight = (if pt_NonceGap tx then f64_mul weight (Fin (1 / 2)) else weight)
            in Some \<lparr>wt_Tip = tip, wt_Weight = weight\<rparr>)"

definition collectPendingTx ::
  "u64 \<Rightarrow> u64 \<Rightarrow> u64 \<Rightarrow> u64 \<Rightarrow> PendingTx list \<Rightarrow> WeightedTip list" where
  "collectPendingTx baseFee nextBaseFee blockGasLimit cutoff pendingData =
     List.map_filter (pendingTip nextBaseFee blockGasLimit) pendingData"

definition to_levels :: "u64 \<Rightarrow> levels \<Rightarrow> (string, GasLevel) fmap" where
  "to_levels baseFee result = fmmap (\<lambda>fee. \<lparr>gl_PriorityFee = fee, gl_MaxFee = baseFee + fee\<rparr>) result"

definition UpdateAnalBlockTxPredictionGasResult :: "levels \<Rightarrow> Analyzer \<Rightarrow> Analyzer" where
  "UpdateAnalBlockTxPredictionGasResult result a =
     a\<lparr>an_latestResult := (an_latestResult a)
        \<lparr>gp_AnalyzerBlock := Some (to_levels (ba_NextBaseFee (an_latestBlockData a)) result)\<rparr>\<rparr>"

definition UpdateAnalPendingTxPredictionGasResult :: "levels \<Rightarrow> Analyzer \<Rightarrow> Analyzer" where
  "UpdateAnalPendingTxPredictionGasResult result a =
     a\<lparr>an_latestResult := (an_latestResult a)
        \<lparr>gp_AnalyzerPending := Some (to_levels (ba_NextBaseFee (an_latestBlockData a)) result)\<rparr>\<rparr>"

section \<open>The blended prediction\<close>

text \<open>A missing level of \<open>AnalyzerPending\<close> is the zero value.\<close>

definition blendFee :: "(float64 \<Rightarrow> u64) \<Rightarrow> u64 \<Rightarrow> u64 \<Rightarrow> u64" where
  "blendFee oor anaBlock anaPending =
     (let blend = f64_add (f64_mul (f64_of_u64 anaBlock) (f64 (2 / 10)))
                          (f64_mul (f64_of_u64 anaPending) (f64 (8 / 10)))
      in f64_to_u64 oor (f64_mul blend (Fin 1)))"

definition predictTarget ::
  "(float64 \<Rightarrow> u64) \<Rightarrow> GasPrediction \<Rightarrow> TargetPercentile \<Rightarrow> (string, GasLevel) fmap \<Rightarrow> (string, GasLevel) fmap" where
  "predictTarget oor r t predict =
     (case level_lookup (gp_AnalyzerBlock r) (tp_Name t) of
        None \<Rightarrow> predict
      | Some blockLevel \<Rightarrow>
          let anaPending = (case level_lookup (gp_AnalyzerPending r) (tp_Name t) of
                None \<Rightarrow> 0 | Some l \<Rightarrow> gl_PriorityFee l);
              priorityFee = blendFee oor (gl_PriorityFee blockLevel) anaPending
          in fmupd (tp_Name t)
               \<lparr>gl_PriorityFee = priorityFee, gl_MaxFee = gp_NextBaseFee r + priorityFee\<rparr> predict)"

definition UpdateResult ::
  "(float64 \<Rightarrow> u64) \<Rightarrow> Time \<Rightarrow> u64 \<Rightarrow> u64 \<Rightarrow> u64 \<Rightarrow> Analyzer \<Rightarrow> Analyzer \<times> GasPrediction" where
  "UpdateResult oor now nextBlockNum currentBaseFee nextBaseFee a =
     (let r = (an_latestResult a)\<lparr>gp_NextBlockNumber := nextBlockNum, gp_NextBaseFee := nextBaseFee\<rparr>;
          start = (case gp_PredictResult r of None \<Rightarrow> fmempty | Some m \<Rightarrow> m);
          predict = fold (predictTarget oor r) GasPredictionTargets start;
          r = r\<lparr>gp_PredictResult := Some predict, gp_UpdatedAt := now\<rparr>
      in (a\<lparr>an_latestResult := r\<rparr>, r))"

definition sendResultToGRPC :: "GasPrediction \<Rightarrow> GasPredictionRequest" where
  "sendResultToGRPC result =
     \<lparr>pr_NextBlockNumber = gp_NextBlockNumber result, pr_NextBaseFee = gp_NextBaseFee result,
      pr_PredictResult = (case gp_PredictResult result of None \<Rightarrow> fmempty | Some m \<Rightarrow> m),
      pr_UpdatedAt = gp_UpdatedAt result\<rparr>"

definition AnalyzeGasPrice ::
  "(WeightedTip list \<Rightarrow> WeightedTip list) \<Rightarrow> (float64 \<Rightarrow> u64) \<Rightarrow> Time \<Rightarrow> PendingTx list \<Rightarrow> Analyzer \<Rightarrow>
   Analyzer \<times> GasPredictionRequest option" where
  "AnalyzeGasPrice srt oor now snapshot a =
     (let d = an_latestBlockData a
      in if \<not> an_ready a then (a, None)
         else
           let pendingData = collectPendingTx (ba_BaseFee d) (ba_NextBaseFee d) (ba_GasLimit d) (ba_Cutoff d) snapshot;
               pendingResult = PendingPercentiles srt oor pendingData;
               a = UpdateAnalPendingTxPredictionGasResult pendingResult a;
               (a, predictionResult) =
                 UpdateResult oor now (ba_BlockNumber d + 1) (ba_BaseFee d) (ba_NextBaseFee d) a
           in (a, Some (sendResultToGRPC predictionResult)))"

definition GetPrediction :: "Analyzer \<Rightarrow> GasPrediction" where
  "GetPrediction a = an_latestResult a"

text \<open>A nil \<open>Number\<close> or \<open>BaseFee\<close> of the header is dereferenced: a panic.\<close>

definition UpdateLatestBlockData :: "Time \<Rightarrow> Header \<Rightarrow> u64 \<Rightarrow> u64 \<Rightarrow> Analyzer \<Rightarrow> Analyzer go" where
  "UpdateLatestBlockData now header nextBaseFee cutoff a =
     do {
       num \<leftarrow> hd_Number header;
       base \<leftarrow> hd_BaseFee header;
       ret (a\<lparr>an_latestBlockData :=
         \<lparr>ba_BlockNumber = big_Uint64 num, ba_BlockTime = hd_Time header, ba_BaseFee = big_Uint64 base,
          ba_NextBaseFee = nextBaseFee, ba_GasUsed = hd_GasUsed header, ba_GasLimit = hd_GasLimit header,
          ba_Cutoff = cutoff, ba_TipPool = [], ba_UpdatedAt = now\<rparr>\<rparr>)
     }"

definition GetCurrentBlockNumAndTime :: "Analyzer \<Rightarrow> u64 \<times> u64" where
  "GetCurrentBlockNumAndTime a =
     (ba_BlockNumber (an_latestBlockData a), ba_BlockTime (an_latestBlockData a))"

end
