(* ===== verification/Gas_Analyzer_Props.thy ===== *)
theory Gas_Analyzer_Props
  imports Gas_Analyzer
begin

text \<open>
  Properties of the analyzer: the blend of the block and the pending prediction stays between the
  two (up to one wei of rounding) and is monotone in both, so that the levels sent to the web
  server are ordered.
\<close>

section \<open>The blend\<close>

lemma f64_mul_1: "f64_nonneg x \<Longrightarrow> f64_mul x (Fin 1) = x"
  by (elim f64_nonneg_cases) (auto simp: f64_pos)

text \<open>Below \<open>2 ^ 48\<close> the sixteenths are representable, so rounding moves a number by at most one.\<close>

lemma rnd_near:
  assumes "0 \<le> q" "q < 2 ^ 48"
  shows "q - 1 / 16 \<le> rnd q" "rnd q \<le> q + 1 / 16"
proof -
  let ?m = "\<lfloor>q * 16\<rfloor>"
  have fl: "of_int ?m \<le> q * 16" "q * 16 < of_int ?m + 1" by linarith+
  have m0: "0 \<le> ?m" using assms(1) by simp
  have "(of_int ?m :: rat) < of_int (2 ^ 52)" using fl(1) assms(2) by simp
  then have m1: "?m < 2 ^ 52" by (simp only: of_int_less_iff)
  have ex: "rnd (of_int n / 16) = of_int n / 16" if "0 \<le> n" "n < 2 ^ 53" for n
    using rnd_exact [OF that, of "-4"] by (simp add: power_int_def power_one_over)
  have "of_int ?m / 16 \<le> rnd q"
    using fl(1) m0 m1 ex [of ?m] by (intro f64_rounding.r_ge_fix) auto
  then show "q - 1 / 16 \<le> rnd q" using fl(2) by linarith
  have "rnd q \<le> of_int (?m + 1) / 16"
    using fl(2) m0 m1 ex [of "?m + 1"] assms(1) by (intro f64_rounding.r_le_fix) auto
  moreover have "of_int (?m + 1) / 16 \<le> q + 1 / 16" using fl(1) by (simp add: field_simps del: of_int_floor_le)
  ultimately show "rnd q \<le> q + 1 / 16" by (rule order.trans)
qed

definition c02 :: rat where
  "c02 = 3602879701896397 / 18014398509481984"

definition c08 :: rat where
  "c08 = 3602879701896397 / 4503599627370496"

lemma weights_blend: "f64 (2 / 10) = Fin c02" "f64 (8 / 10) = Fin c08"
  "f64 (1 / 5) = Fin c02" "f64 (4 / 5) = Fin c08"
  by (code_simp, code_simp, code_simp, code_simp)

lemma u64_small:
  assumes "uint (w :: u64) < 2 ^ 48"
  shows "f64_of_u64 w = Fin (of_int (uint w))"
proof -
  have "of_nat (unat w) = (of_int (uint w) :: rat)" by (metis of_int_of_nat_eq int_nat_eq uint_ge_0 nat_uint_eq)
  then show ?thesis
    using f64_int [of "uint w"] assms by (simp add: f64_of_u64_def del: of_nat_unat of_int_uint)
qed

definition blend_exact :: "u64 \<Rightarrow> u64 \<Rightarrow> rat" where
  "blend_exact a b = rnd (rnd (of_int (uint a) * c02) + rnd (of_int (uint b) * c08))"

lemma of_uint_bounds:
  assumes "uint (a :: u64) < 2 ^ 48"
  shows "0 \<le> (of_int (uint a) :: rat)" "(of_int (uint a) :: rat) \<le> 2 ^ 48 - 1"
proof -
  show "0 \<le> (of_int (uint a) :: rat)" by (simp only: of_int_0_le_iff uint_ge_0)
  have "uint a \<le> 2 ^ 48 - 1" using assms by simp
  then have "(of_int (uint a) :: rat) \<le> of_int (2 ^ 48 - 1)" by (simp only: of_int_le_iff)
  then show "(of_int (uint a) :: rat) \<le> 2 ^ 48 - 1" by (simp del: of_int_uint)
qed

lemma blend_bounds_rat:
  fixes x y :: rat
  assumes x: "0 \<le> x" "x \<le> 2 ^ 48 - 1" and y: "0 \<le> y" "y \<le> 2 ^ 48 - 1"
  defines "z \<equiv> rnd (rnd (x * c02) + rnd (y * c08))"
  shows "min x y - 3 / 16 \<le> z" "z < max x y + 1" "0 \<le> z" "rnd (x * c02) < 2 ^ 48" "rnd (y * c08) < 2 ^ 48"
proof -
  have p: "0 \<le> x * c02" "x * c02 < 2 ^ 47" "0 \<le> y * c08" "y * c08 < 2 ^ 48 - 2 ^ 45"
    using x y by (simp_all add: c02_def c08_def)
  then have q: "x * c02 < 2 ^ 48" "y * c08 < 2 ^ 48" by simp_all
  note rx = rnd_near [OF p(1) q(1)] and ry = rnd_near [OF p(3) q(2)]
  show "rnd (x * c02) < 2 ^ 48" "rnd (y * c08) < 2 ^ 48" using rx ry p by simp_all
  let ?s = "rnd (x * c02) + rnd (y * c08)"
  have s: "0 \<le> ?s" using p rnd_nonneg by simp
  have "?s \<le> x * c02 + y * c08 + 1 / 8" using rx ry by linarith
  also have "\<dots> < 2 ^ 48" using x y by (simp add: c02_def c08_def)
  finally have rs: "?s - 1 / 16 \<le> rnd ?s" "rnd ?s \<le> ?s + 1 / 16" using rnd_near [OF s] by auto
  have lo: "x * c02 + y * c08 - 3 / 16 \<le> rnd ?s" and hi: "rnd ?s \<le> x * c02 + y * c08 + 3 / 16"
    using rs rx ry by linarith+
  have "min x y \<le> x * c02 + y * c08" using x y by (auto simp: min_def c02_def c08_def)
  with lo show "min x y - 3 / 16 \<le> z" by (simp add: z_def)
  have "x * c02 + y * c08 \<le> max x y + 1 / 2" using x y by (auto simp: max_def c02_def c08_def)
  with hi show "z < max x y + 1" by (simp add: z_def)
  show "0 \<le> z" unfolding z_def by (rule rnd_nonneg [OF s])
qed

lemma blendFee_eq:
  assumes a: "uint a < 2 ^ 48" and b: "uint b < 2 ^ 48"
  shows "blendFee oor a b = word_of_int \<lfloor>blend_exact a b\<rfloor>" "blend_exact a b < 2 ^ 49"
proof -
  let ?x = "of_int (uint a) * c02" and ?y = "of_int (uint b) * c08"
  note bb = blend_bounds_rat [OF of_uint_bounds [OF a] of_uint_bounds [OF b], folded blend_exact_def]
  have big: "(2::rat) ^ 64 \<le> f64_max" unfolding f64_max_def by (rule power_increasing) auto
  have nn: "0 \<le> ?x" "0 \<le> ?y"
    using of_uint_bounds(1) [OF a] of_uint_bounds(1) [OF b] by (simp_all add: c02_def c08_def del: of_int_uint)
  have "max (of_int (uint a)) (of_int (uint b)) \<le> (2 ^ 48 - 1 :: rat)"
    using of_uint_bounds(2) [OF a] of_uint_bounds(2) [OF b] by (rule max.boundedI)
  then have "max (of_int (uint a)) (of_int (uint b)) + 1 \<le> (2 ^ 48 :: rat)" by linarith
  also have "\<dots> \<le> 2 ^ 49" by simp
  finally show z: "blend_exact a b < 2 ^ 49" using bb(2) by (meson less_le_trans)
  have f: "f64 ?x = Fin (rnd ?x)" "f64 ?y = Fin (rnd ?y)"
    using nn bb(4,5) big by (simp_all add: f64_pos del: of_int_uint)
  have fin: "f64 (rnd ?x + rnd ?y) = Fin (blend_exact a b)"
    using nn z big by (simp add: f64_pos rnd_nonneg blend_exact_def del: of_int_uint)
  have "f64_nonneg (f64 (rnd ?x + rnd ?y))" using nn by (intro f64_nonneg_f64 add_nonneg_nonneg rnd_nonneg)
  then have "f64_mul (Fin (blend_exact a b)) (Fin 1) = Fin (blend_exact a b)"
    unfolding fin by (rule f64_mul_1)
  with fin f show "blendFee oor a b = word_of_int \<lfloor>blend_exact a b\<rfloor>"
    using z bb(3)
    by (simp add: blendFee_def weights_blend u64_small [OF a] u64_small [OF b] f64_to_u64_def Let_def
        del: of_int_uint)
qed

lemma uint_blendFee:
  assumes a: "uint a < 2 ^ 48" and b: "uint b < 2 ^ 48"
  shows "uint (blendFee oor a b) = \<lfloor>blend_exact a b\<rfloor>"
proof -
  have "blend_exact a b < of_int (2 ^ 64)" using blendFee_eq(2) [OF a b] by simp
  then have "\<lfloor>blend_exact a b\<rfloor> < 2 ^ 64" by (simp only: floor_less_iff)
  moreover have "0 \<le> \<lfloor>blend_exact a b\<rfloor>"
    using blend_bounds_rat(3) [OF of_uint_bounds [OF a] of_uint_bounds [OF b], folded blend_exact_def] by simp
  ultimately show ?thesis by (simp add: blendFee_eq(1) [OF a b] uint_word_of_int)
qed

lemma blendFee_between:
  assumes a: "uint a < 2 ^ 48" and b: "uint b < 2 ^ 48"
  shows "min (uint a) (uint b) - 1 \<le> uint (blendFee oor a b)" "uint (blendFee oor a b) \<le> max (uint a) (uint b)"
proof -
  note bb = blend_bounds_rat [OF of_uint_bounds [OF a] of_uint_bounds [OF b], folded blend_exact_def]
  have mn: "(of_int (min (uint a) (uint b)) :: rat) = min (of_int (uint a)) (of_int (uint b))"
    and mx: "(of_int (max (uint a) (uint b)) :: rat) = max (of_int (uint a)) (of_int (uint b))"
    by (simp_all only: of_int_min of_int_max)
  have "of_int (min (uint a) (uint b) - 1) \<le> blend_exact a b"
    using bb(1) unfolding of_int_diff mn of_int_1 by linarith
  then show "min (uint a) (uint b) - 1 \<le> uint (blendFee oor a b)"
    unfolding uint_blendFee [OF a b] by (simp only: le_floor_iff)
  have "blend_exact a b < of_int (max (uint a) (uint b)) + 1" using bb(2) unfolding mx .
  then show "uint (blendFee oor a b) \<le> max (uint a) (uint b)"
    unfolding uint_blendFee [OF a b] by (simp only: floor_le_iff)
qed

lemma blendFee_mono:
  assumes "uint a < 2 ^ 48" "uint b < 2 ^ 48" "uint a' < 2 ^ 48" "uint b' < 2 ^ 48" "a \<le> a'" "b \<le> b'"
  shows "blendFee oor a b \<le> blendFee oor a' b'"
proof -
  have c: "0 \<le> c02" "0 \<le> c08" by (simp_all add: c02_def c08_def)
  have "(of_int (uint a) :: rat) \<le> of_int (uint a')" "(of_int (uint b) :: rat) \<le> of_int (uint b')"
    using assms(5,6) by (simp_all only: of_int_le_iff word_le_def)
  then have le: "of_int (uint a) * c02 \<le> of_int (uint a') * c02" "of_int (uint b) * c08 \<le> of_int (uint b') * c08"
    using c by (simp_all only: mult_right_mono)
  have nn: "0 \<le> of_int (uint a) * c02" "0 \<le> of_int (uint b) * c08"
    using c of_uint_bounds(1) [OF assms(1)] of_uint_bounds(1) [OF assms(2)] by (simp_all only: mult_nonneg_nonneg)
  have "blend_exact a b \<le> blend_exact a' b'"
    unfolding blend_exact_def
    by (intro rnd_mono add_mono add_nonneg_nonneg rnd_nonneg nn le)
  then show ?thesis
    unfolding word_le_def uint_blendFee [OF assms(1,2)] uint_blendFee [OF assms(3,4)] by (rule floor_mono)
qed

section \<open>The pending side\<close>

lemma collectPendingTx_mem:
  assumes "wt \<in> set (collectPendingTx b n g c txs)"
  shows "\<exists>tx \<in> set txs. pendingTip n g tx = Some wt"
  using assms by (auto simp: collectPendingTx_def List.map_filter_def)

lemma pendingTip_Some:
  assumes "pendingTip n g tx = Some wt"
  shows "EffectiveTip (pt_FeeCap tx) (pt_TipCap tx) n = (wt_Tip wt, True)" "f64_nonneg (wt_Weight wt)"
proof -
  obtain tip ok where e: "EffectiveTip (pt_FeeCap tx) (pt_TipCap tx) n = (tip, ok)" by fastforce
  let ?w = "CalculateWeightForGasUsed (pt_GasLimit tx) g"
  from assms have wt: "ok" "wt = \<lparr>wt_Tip = tip, wt_Weight = (if pt_NonceGap tx then f64_mul ?w (Fin (1 / 2)) else ?w)\<rparr>"
    by (auto simp: pendingTip_def e Let_def split: if_splits)
  from wt e show "EffectiveTip (pt_FeeCap tx) (pt_TipCap tx) n = (wt_Tip wt, True)" by simp
  have "f64_nonneg (f64_mul ?w (Fin (1 / 2)))"
    unfolding f64_mul_commute [of ?w] by (rule f64_nonneg_mul_pos) simp_all
  then show "f64_nonneg (wt_Weight wt)" by (simp add: wt(2))
qed

lemma collect_weights_ok: "weights_ok (collectPendingTx b n g c txs)"
  unfolding weights_ok_def using collectPendingTx_mem pendingTip_Some(2) by blast

lemma collect_tip_le:
  assumes "wt \<in> set (collectPendingTx b n g c txs)"
  shows "\<exists>tx \<in> set txs. wt_Tip wt \<le> pt_TipCap tx \<and> unat n + unat (wt_Tip wt) \<le> unat (pt_FeeCap tx)"
proof -
  from collectPendingTx_mem [OF assms] obtain tx where tx: "tx \<in> set txs" "pendingTip n g tx = Some wt" by blast
  note e = EffectiveTip_ok [OF pendingTip_Some(1) [OF tx(2)]]
  from e(2) have "wt_Tip wt \<le> pt_TipCap tx" by simp
  with e(3) tx(1) show ?thesis by blast
qed

lemma default_ordered:
  "fmlookup (fst defaultValue) ''market'' = Some 750000000"
  "fmlookup (fst defaultValue) ''fast'' = Some 1000000000"
  "fmlookup (fst defaultValue) ''urgent'' = Some 1500000000"
  by (simp_all add: defaultValue_def)

definition level_triple :: "levels \<Rightarrow> u64 \<Rightarrow> u64 \<Rightarrow> u64 \<Rightarrow> bool" where
  "level_triple r m f u \<longleftrightarrow> fmlookup r ''market'' = Some m \<and> fmlookup r ''fast'' = Some f \<and>
     fmlookup r ''urgent'' = Some u \<and> m \<le> f \<and> f \<le> u \<and> uint u < 2 ^ 48"

lemma pending_triple:
  assumes "is_tip_sort srt" "\<forall>tx \<in> set txs. uint (pt_TipCap tx) < 2 ^ 48"
  shows "\<exists>m f u. level_triple (PendingPercentiles srt oor (collectPendingTx b n g c txs)) m f u"
proof (cases "collectPendingTx b n g c txs = []")
  case True
  then show ?thesis
    by (auto simp: PendingPercentiles_def level_triple_def default_ordered)
next
  case False
  let ?p = "collectPendingTx b n g c txs"
  have small: "uint (wt_Tip t) < 2 ^ 48" if "t \<in> set ?p" for t
    using collect_tip_le [OF that] assms(2) by (meson order.strict_trans1 word_le_def)
  then have small': "\<forall>t \<in> set ?p. uint (wt_Tip t) < 2 ^ 48" by blast
  have "\<forall>t \<in> set ?p. wt_Tip t \<le> word_of_int (2 ^ 48 - 1)"
  proof
    fix t assume "t \<in> set ?p"
    from small [OF this] show "wt_Tip t \<le> word_of_int (2 ^ 48 - 1)"
      by (simp add: word_le_def uint_word_of_int)
  qed
  from pending_ordered [OF assms(1) False collect_weights_ok small' this, of oor] obtain m f u where
    r: "PendingPercentiles srt oor ?p = fmap_of_list [(''market'', m), (''fast'', f), (''urgent'', u)]"
    "m \<le> f" "f \<le> u" "u \<le> word_of_int (2 ^ 48 - 1)" unfolding ordered_levels_def by blast
  from r(4) have "uint u < 2 ^ 48" by (simp add: word_le_def uint_word_of_int)
  with r show ?thesis by (auto simp: level_triple_def)
qed

section \<open>The prediction\<close>

lemma level_lookup_to_levels:
  "level_lookup (Some (to_levels base r)) k =
     map_option (\<lambda>fee. \<lparr>gl_PriorityFee = fee, gl_MaxFee = base + fee\<rparr>) (fmlookup r k)"
  by (simp add: level_lookup_def to_levels_def)

definition blend_level :: "(float64 \<Rightarrow> u64) \<Rightarrow> u64 \<Rightarrow> u64 \<Rightarrow> u64 \<Rightarrow> GasLevel" where
  "blend_level oor base b p =
     \<lparr>gl_PriorityFee = blendFee oor b p, gl_MaxFee = base + blendFee oor b p\<rparr>"

lemma predict_fold:
  assumes "level_lookup (gp_AnalyzerBlock r) ''market'' = Some bm"
    "level_lookup (gp_AnalyzerBlock r) ''fast'' = Some bf"
    "level_lookup (gp_AnalyzerBlock r) ''urgent'' = Some bu"
    "level_lookup (gp_AnalyzerPending r) ''market'' = Some pm"
    "level_lookup (gp_AnalyzerPending r) ''fast'' = Some pf"
    "level_lookup (gp_AnalyzerPending r) ''urgent'' = Some pu"
  shows "fmlookup (fold (predictTarget oor r) GasPredictionTargets start) ''market'' =
      Some (blend_level oor (gp_NextBaseFee r) (gl_PriorityFee bm) (gl_PriorityFee pm))"
    "fmlookup (fold (predictTarget oor r) GasPredictionTargets start) ''fast'' =
      Some (blend_level oor (gp_NextBaseFee r) (gl_PriorityFee bf) (gl_PriorityFee pf))"
    "fmlookup (fold (predictTarget oor r) GasPredictionTargets start) ''urgent'' =
      Some (blend_level oor (gp_NextBaseFee r) (gl_PriorityFee bu) (gl_PriorityFee pu))"
  using assms by (simp_all add: GasPredictionTargets_def predictTarget_def blend_level_def Let_def)

text \<open>The levels of the block analysis as the analyzer keeps them, ordered and below \<open>2 ^ 48\<close>.\<close>

definition block_levels :: "Analyzer \<Rightarrow> GasLevel \<Rightarrow> GasLevel \<Rightarrow> GasLevel \<Rightarrow> bool" where
  "block_levels a bm bf bu \<longleftrightarrow>
     level_lookup (gp_AnalyzerBlock (an_latestResult a)) ''market'' = Some bm \<and>
     level_lookup (gp_AnalyzerBlock (an_latestResult a)) ''fast'' = Some bf \<and>
     level_lookup (gp_AnalyzerBlock (an_latestResult a)) ''urgent'' = Some bu \<and>
     gl_PriorityFee bm \<le> gl_PriorityFee bf \<and> gl_PriorityFee bf \<le> gl_PriorityFee bu \<and>
     uint (gl_PriorityFee bu) < 2 ^ 48"

lemma uint_less_trans: "a \<le> b \<Longrightarrow> uint (b :: u64) < n \<Longrightarrow> uint a < n"
  by (meson order.strict_trans1 word_le_def)


definition sample_level :: "u64 \<Rightarrow> GasLevel" where
  "sample_level fee = \<lparr>gl_PriorityFee = fee, gl_MaxFee = 10 + fee\<rparr>"

definition sample_analyzer :: Analyzer where
  "sample_analyzer =
     \<lparr>an_DecayTable = [],
      an_latestResult = zero_GasPrediction\<lparr>gp_AnalyzerBlock := Some (fmap_of_list
        [(''market'', sample_level 5), (''fast'', sample_level 7), (''urgent'', sample_level 9)])\<rparr>,
      an_latestBlockData = zero_BlockAnalysisData\<lparr>ba_BlockNumber := 100, ba_NextBaseFee := 10,
        ba_GasLimit := 30000000\<rparr>,
      an_ready = True\<rparr>"


text \<open>
  C33. Blend of the two analyses. For fees below \<open>2 ^ 48\<close> the blended priority fee is at most the
  larger of the block fee and the pending fee and at least the smaller one minus one wei, and it
  grows with both.
\<close>

theorem blend_between_and_monotone:
  assumes "uint a < 2 ^ 48" "uint b < 2 ^ 48" "uint a' < 2 ^ 48" "uint b' < 2 ^ 48" "a \<le> a'" "b \<le> b'"
  shows "min (uint a) (uint b) - 1 \<le> uint (blendFee oor a b) \<and>
    uint (blendFee oor a b) \<le> max (uint a) (uint b) \<and> blendFee oor a b \<le> blendFee oor a' b'"
  using blendFee_between [OF assms(1,2)] blendFee_mono [OF assms] by blast

theorem blend_between_and_monotone_witness:
  "uint (blendFee (\<lambda>_. 0) 1000 2000) \<le> 2000 \<and> blendFee (\<lambda>_. 0) 1000 2000 \<le> blendFee (\<lambda>_. 0) 3000 2000"
  using blend_between_and_monotone [of 1000 2000 3000 2000 "\<lambda>_. 0"] by simp

end
