(* ===== verification/Rpc_Manager.thy ===== *)
theory Rpc_Manager
  imports Go_Prelude
begin

text \<open>
  The RPC manager (\<open>internal/network/rpcManager\<close>): the providers, their rate limit policies and
  the call with rotation and failover. \<open>ethclient\<close> and \<open>rate.Limiter\<close> are other packages. They are
  arguments: \<open>'c\<close> is the type of a connected client, \<open>'w\<close> the state of the outside world (network,
  limiters, clock) that every call may change, and the record \<open>rpc_env\<close> holds the limiter's
  \<open>WaitN\<close>, the clock and \<open>ethclient.Dial\<close>. An error value is its text.

  The lock of the manager is held for the choice of the active provider and for each update of it,
  not for the call in between; \<open>EthClientFunc\<close> reads the active index once, so the model takes one
  call as a whole.
\<close>

section \<open>Policies and clients\<close>

datatype LimitType = LimitCU | LimitRPS | LimitOther int

record RPCPolicy =
  po_LimitType :: LimitType
  po_Limit :: rat
  po_Burst :: int

record RPCCost =
  co_CU :: int
  co_RPC :: int

text \<open>A \<open>*rate.Limiter\<close>: its identity and the burst it was made with.\<close>

record Limiter =
  lm_id :: nat
  lm_limit :: rat
  lm_burst :: int

record 'c Client =
  cl_EthClient :: "'c option"
  cl_url :: string
  cl_provider :: string
  cl_limitType :: LimitType
  cl_limiter :: Limiter

record ('c, 'w) rpc_env =
  env_WaitN :: "Limiter \<Rightarrow> int \<Rightarrow> 'w \<Rightarrow> string option \<times> 'w"
  env_Now :: "'w \<Rightarrow> int \<times> 'w"
  env_Dial :: "string \<Rightarrow> 'w \<Rightarrow> 'c option \<times> 'w"

definition RotateInterval :: int where
  "RotateInterval = 30 * 1000000000"

definition rpcPolicies :: "(string \<times> RPCPolicy) list" where
  "rpcPolicies =
     [(''alchemy'', \<lparr>po_LimitType = LimitCU, po_Limit = 450, po_Burst = 400\<rparr>),
      (''chainstack'', \<lparr>po_LimitType = LimitRPS, po_Limit = 22, po_Burst = 20\<rparr>)]"

definition NewEthClient ::
  "('c, 'w) rpc_env \<Rightarrow> nat \<Rightarrow> string \<Rightarrow> string \<Rightarrow> RPCPolicy \<Rightarrow> 'w \<Rightarrow> 'c Client option \<times> 'w" where
  "NewEthClient env fresh provider url policy w =
     (case env_Dial env url w of
        (None, w) \<Rightarrow> (None, w)
      | (Some client, w) \<Rightarrow>
          (Some \<lparr>cl_EthClient = Some client, cl_url = url, cl_provider = provider,
                 cl_limitType = po_LimitType policy,
                 cl_limiter = \<lparr>lm_id = fresh, lm_limit = po_Limit policy, lm_burst = po_Burst policy\<rparr>\<rparr>, w))"

definition Client_Wait :: "('c, 'w) rpc_env \<Rightarrow> 'c Client \<Rightarrow> RPCCost \<Rightarrow> 'w \<Rightarrow> string option \<times> 'w" where
  "Client_Wait env c cost w =
     (case cl_limitType c of
        LimitCU \<Rightarrow> env_WaitN env (cl_limiter c) (co_CU cost) w
      | LimitRPS \<Rightarrow> env_WaitN env (cl_limiter c) (co_RPC cost) w
      | LimitOther _ \<Rightarrow> (Some ''unsupported rpc limit type'', w))"

section \<open>The manager\<close>

record 'c RPCManager =
  rm_clients :: "'c Client list"
  rm_active :: nat
  rm_rotateInterval :: int
  rm_lastRotateAt :: int

datatype rpc_error =
    UnsupportedProvider string
  | NoRpcClients
  | NoClientAvailable
  | AllProvidersFailed "string option"

text \<open>The loop over the provider map, in the order \<open>ps\<close> of its keys.\<close>

fun newClients ::
  "('c, 'w) rpc_env \<Rightarrow> (string, string) fmap \<Rightarrow> string list \<Rightarrow> 'c Client list \<Rightarrow> 'w \<Rightarrow>
   (rpc_error + 'c Client list) \<times> 'w" where
  "newClients env rpcs [] clients w = (Inr clients, w)"
| "newClients env rpcs (provider # ps) clients w =
     (case map_of rpcPolicies provider of
        None \<Rightarrow> (Inl (UnsupportedProvider provider), w)
      | Some policy \<Rightarrow>
          (case NewEthClient env (length clients) provider (the (fmlookup rpcs provider)) policy w of
             (None, w) \<Rightarrow> newClients env rpcs ps clients w
           | (Some c, w) \<Rightarrow> newClients env rpcs ps (clients @ [c]) w))"

definition NewRpcManager ::
  "('c, 'w) rpc_env \<Rightarrow> (string fset \<Rightarrow> string list) \<Rightarrow> (string, string) fmap \<Rightarrow> 'w \<Rightarrow>
   (rpc_error + 'c RPCManager) \<times> 'w" where
  "NewRpcManager env ord rpcs w =
     (case newClients env rpcs (ord (fmdom rpcs)) [] w of
        (Inl e, w) \<Rightarrow> (Inl e, w)
      | (Inr clients, w) \<Rightarrow>
          if clients = [] then (Inl NoRpcClients, w)
          else
            let (now, w) = env_Now env w
            in (Inr \<lparr>rm_clients = clients, rm_active = 0, rm_rotateInterval = RotateInterval,
                     rm_lastRotateAt = now\<rparr>, w))"

definition GetProvider :: "'c RPCManager \<Rightarrow> string" where
  "GetProvider r = (if rm_clients r = [] then '''' else cl_provider (rm_clients r ! rm_active r))"

text \<open>
  One attempt with one provider: \<open>Inl None\<close> when there is no connection, \<open>Inl (Some err)\<close> when the
  limiter refuses or the call fails, \<open>Inr\<close> when the call succeeds.
\<close>

definition attempt ::
  "('c, 'w) rpc_env \<Rightarrow> RPCCost \<Rightarrow> ('c \<Rightarrow> 'w \<Rightarrow> (string + 'r) \<times> 'w) \<Rightarrow> 'c Client \<Rightarrow> 'w \<Rightarrow>
   (string option + 'r) \<times> 'w" where
  "attempt env cost fn client w =
     (case cl_EthClient client of
        None \<Rightarrow> (Inl None, w)
      | Some c \<Rightarrow>
          (case Client_Wait env client cost w of
             (Some err, w) \<Rightarrow> (Inl (Some err), w)
           | (None, w) \<Rightarrow>
               (case fn c w of
                  (Inl err, w) \<Rightarrow> (Inl (Some err), w)
                | (Inr r, w) \<Rightarrow> (Inr r, w))))"

definition keepErr :: "string option \<Rightarrow> string option \<Rightarrow> string option" where
  "keepErr e lastErr = (case e of None \<Rightarrow> lastErr | Some err \<Rightarrow> Some err)"

fun failover ::
  "('c, 'w) rpc_env \<Rightarrow> RPCCost \<Rightarrow> ('c \<Rightarrow> 'w \<Rightarrow> (string + 'r) \<times> 'w) \<Rightarrow> nat \<Rightarrow> nat list \<Rightarrow> string option \<Rightarrow>
   'c RPCManager \<Rightarrow> 'w \<Rightarrow> (rpc_error + 'r) \<times> 'c RPCManager \<times> 'w" where
  "failover env cost fn idx [] lastErr r w = (Inl (AllProvidersFailed lastErr), r, w)"
| "failover env cost fn idx (i # js) lastErr r w =
     (let next = (idx + i) mod length (rm_clients r)
      in case attempt env cost fn (rm_clients r ! next) w of
           (Inr x, w) \<Rightarrow>
             let (now, w) = env_Now env w
             in (Inr x, r\<lparr>rm_active := next, rm_lastRotateAt := now\<rparr>, w)
         | (Inl e, w) \<Rightarrow> failover env cost fn idx js (keepErr e lastErr) r w)"

definition EthClientFunc ::
  "('c, 'w) rpc_env \<Rightarrow> RPCCost \<Rightarrow> ('c \<Rightarrow> 'w \<Rightarrow> (string + 'r) \<times> 'w) \<Rightarrow> 'c RPCManager \<Rightarrow> 'w \<Rightarrow>
   (rpc_error + 'r) \<times> 'c RPCManager \<times> 'w" where
  "EthClientFunc env cost fn r w =
     (let (now, w) = env_Now env w
      in if rm_clients r = [] then (Inl NoClientAvailable, r, w)
         else
           let r = (if now - rm_lastRotateAt r \<ge> rm_rotateInterval r
                    then r\<lparr>rm_active := (rm_active r + 1) mod length (rm_clients r), rm_lastRotateAt := now\<rparr>
                    else r);
               idx = rm_active r
           in case attempt env cost fn (rm_clients r ! idx) w of
                (Inr x, w) \<Rightarrow> (Inr x, r, w)
              | (Inl e, w) \<Rightarrow> failover env cost fn idx [1 ..< length (rm_clients r)] (keepErr e None) r w)"

definition FetchBatch ::
  "('c, 'w) rpc_env \<Rightarrow> RPCCost \<Rightarrow> ('c \<Rightarrow> 'q \<Rightarrow> 'w \<Rightarrow> (string + 'r) \<times> 'w) \<Rightarrow> 'q \<Rightarrow> 'c RPCManager \<Rightarrow> 'w \<Rightarrow>
   (rpc_error + 'r) \<times> 'c RPCManager \<times> 'w" where
  "FetchBatch env cost batchCall elems r w = EthClientFunc env cost (\<lambda>c. batchCall c elems) r w"

section \<open>The active index\<close>

definition mgr_ok :: "'c RPCManager \<Rightarrow> bool" where
  "mgr_ok r \<longleftrightarrow> rm_clients r \<noteq> [] \<and> rm_active r < length (rm_clients r)"

lemma failover_ok:
  assumes "mgr_ok r" "failover env cost fn idx js e r w = (res, r', w')"
  shows "mgr_ok r' \<and> rm_clients r' = rm_clients r"
  using assms(2)
proof (induction js arbitrary: e w)
  case Nil
  with assms(1) show ?case by simp
next
  case (Cons i js)
  let ?next = "(idx + i) mod length (rm_clients r)"
  obtain a w1 where a: "attempt env cost fn (rm_clients r ! ?next) w = (a, w1)" by fastforce
  show ?case
  proof (cases a)
    case (Inl e')
    with Cons a show ?thesis by (simp add: Let_def)
  next
    case (Inr x)
    with Cons.prems a assms(1) show ?thesis by (auto simp: Let_def mgr_ok_def split: prod.splits)
  qed
qed

lemma EthClientFunc_ok:
  assumes "mgr_ok r" "EthClientFunc env cost fn r w = (res, r', w')"
  shows "mgr_ok r'" "rm_clients r' = rm_clients r"
proof -
  have "mgr_ok r' \<and> rm_clients r' = rm_clients r"
    using assms
    by (auto simp: EthClientFunc_def Let_def mgr_ok_def split: prod.splits sum.splits if_splits
        dest!: failover_ok [rotated])
  then show "mgr_ok r'" "rm_clients r' = rm_clients r" by simp_all
qed

lemma NewRpcManager_ok: "NewRpcManager env ord rpcs w = (Inr r, w') \<Longrightarrow> mgr_ok r"
  by (auto simp: NewRpcManager_def mgr_ok_def split: prod.splits sum.splits if_splits)

section \<open>First success in cyclic order\<close>

text \<open>The reference: try the providers of a list in order, stop at the first success.\<close>

fun try_first ::
  "('c, 'w) rpc_env \<Rightarrow> RPCCost \<Rightarrow> ('c \<Rightarrow> 'w \<Rightarrow> (string + 'r) \<times> 'w) \<Rightarrow> 'c Client list \<Rightarrow> nat list \<Rightarrow> 'w \<Rightarrow>
   (nat \<times> 'r) option \<times> 'w" where
  "try_first env cost fn cs [] w = (None, w)"
| "try_first env cost fn cs (i # js) w =
     (case attempt env cost fn (cs ! i) w of
        (Inr x, w) \<Rightarrow> (Some (i, x), w)
      | (Inl _, w) \<Rightarrow> try_first env cost fn cs js w)"

definition cyclic :: "nat \<Rightarrow> nat \<Rightarrow> nat list" where
  "cyclic n start = map (\<lambda>k. (start + k) mod n) [0 ..< n]"

lemma cyclic_Cons: "start < n \<Longrightarrow> cyclic n start = start # map (\<lambda>k. (start + k) mod n) [1 ..< n]"
  by (simp add: cyclic_def upt_rec)

lemma inj_cyclic: "inj_on (\<lambda>k. (start + k) mod n) {0 ..< (n :: nat)}"
proof (rule inj_onI)
  fix a b assume ab: "a \<in> {0 ..< n}" "b \<in> {0 ..< n}" "(start + a) mod n = (start + b) mod n"
  have step: "y = x" if "x \<le> y" "y < n" "(start + x) mod n = (start + y) mod n" for x y
  proof -
    have "n dvd (start + y) - (start + x)"
      using that by (intro mod_eq_dvd_iff_nat [THEN iffD1]) auto
    then have "n dvd y - x" by simp
    with that show ?thesis by (auto dest: dvd_imp_le)
  qed
  show "a = b"
  proof (cases "a \<le> b")
    case True
    with ab step [of a b] show ?thesis by simp
  next
    case False
    with ab step [of b a] show ?thesis by simp
  qed
qed

lemma cyclic_all: "distinct (cyclic n start)" "set (cyclic n start) = {0 ..< n}"
proof -
  show "distinct (cyclic n start)" by (simp add: cyclic_def distinct_map inj_cyclic)
  have "(\<lambda>k. (start + k) mod n) ` {0 ..< n} \<subseteq> {0 ..< n}" by auto
  then have "(\<lambda>k. (start + k) mod n) ` {0 ..< n} = {0 ..< n}"
    by (intro card_subset_eq) (simp_all add: card_image inj_cyclic)
  then show "set (cyclic n start) = {0 ..< n}" by (simp add: cyclic_def)
qed

lemma failover_try_first:
  "case try_first env cost fn (rm_clients r) (map (\<lambda>i. (idx + i) mod length (rm_clients r)) js) w of
     (Some (i, x), w1) \<Rightarrow> \<exists>t w'. failover env cost fn idx js e r w =
        (Inr x, r\<lparr>rm_active := i, rm_lastRotateAt := t\<rparr>, w')
   | (None, w1) \<Rightarrow> \<exists>e'. failover env cost fn idx js e r w = (Inl (AllProvidersFailed e'), r, w1)"
proof (induction js arbitrary: e w)
  case (Cons i js)
  let ?next = "(idx + i) mod length (rm_clients r)"
  obtain a w1 where a: "attempt env cost fn (rm_clients r ! ?next) w = (a, w1)" by fastforce
  show ?case
  proof (cases a)
    case (Inl e')
    then have step: "failover env cost fn idx (i # js) e r w = failover env cost fn idx js (keepErr e' e) r w1"
      by (simp add: a Let_def)
    from Cons.IH [where w = w1 and e = "keepErr e' e"] show ?thesis
      unfolding step by (simp add: a Inl)
  next
    case (Inr x)
    with a show ?thesis by (cases "env_Now env w1") (auto simp: Let_def)
  qed
qed simp

definition start_index :: "int \<Rightarrow> 'c RPCManager \<Rightarrow> nat" where
  "start_index now r =
     (if now - rm_lastRotateAt r \<ge> rm_rotateInterval r then (rm_active r + 1) mod length (rm_clients r)
      else rm_active r)"

lemma start_index_less: "mgr_ok r \<Longrightarrow> start_index now r < length (rm_clients r)"
  by (simp add: start_index_def mgr_ok_def)

text \<open>
  C25. Failover. A call starts with the active provider (the next one when the rotation interval
  has passed), tries every provider at most once in cyclic order and stops at the first that
  answers, which becomes the active one; it reports failure only after all of them were tried.
\<close>

theorem EthClientFunc_first_success:
  assumes "mgr_ok r" "env_Now env w = (now, w0)"
  shows "distinct (cyclic (length (rm_clients r)) (start_index now r)) \<and>
    set (cyclic (length (rm_clients r)) (start_index now r)) = {0 ..< length (rm_clients r)} \<and>
    (case try_first env cost fn (rm_clients r) (cyclic (length (rm_clients r)) (start_index now r)) w0 of
       (Some (i, x), w1) \<Rightarrow> \<exists>r' w'. EthClientFunc env cost fn r w = (Inr x, r', w') \<and>
          rm_active r' = i \<and> rm_clients r' = rm_clients r
     | (None, w1) \<Rightarrow> \<exists>r' e. EthClientFunc env cost fn r w = (Inl (AllProvidersFailed e), r', w1) \<and>
          rm_active r' = start_index now r \<and> rm_clients r' = rm_clients r)"
proof -
  define r1 where "r1 = (if now - rm_lastRotateAt r \<ge> rm_rotateInterval r
    then r\<lparr>rm_active := (rm_active r + 1) mod length (rm_clients r), rm_lastRotateAt := now\<rparr> else r)"
  have r1: "rm_clients r1 = rm_clients r" "rm_active r1 = start_index now r"
    by (simp_all add: r1_def start_index_def)
  have ne: "rm_clients r \<noteq> []" using assms(1) by (simp add: mgr_ok_def)
  let ?i = "start_index now r" and ?n = "length (rm_clients r)"
  obtain a w1 where a: "attempt env cost fn (rm_clients r ! ?i) w0 = (a, w1)" by fastforce
  have run: "EthClientFunc env cost fn r w = (case a of
      Inr x \<Rightarrow> (Inr x, r1, w1) | Inl e \<Rightarrow> failover env cost fn ?i [1 ..< ?n] (keepErr e None) r1 w1)"
    using ne a unfolding EthClientFunc_def assms(2) Let_def prod.case r1_def [symmetric] r1 by simp
  have "case try_first env cost fn (rm_clients r) (cyclic ?n ?i) w0 of
       (Some (i, x), w1) \<Rightarrow> \<exists>r' w'. EthClientFunc env cost fn r w = (Inr x, r', w') \<and>
          rm_active r' = i \<and> rm_clients r' = rm_clients r
     | (None, w1) \<Rightarrow> \<exists>r' e. EthClientFunc env cost fn r w = (Inl (AllProvidersFailed e), r', w1) \<and>
          rm_active r' = ?i \<and> rm_clients r' = rm_clients r"
  proof (cases a)
    case (Inr x)
    then show ?thesis
      by (simp add: cyclic_Cons [OF start_index_less [OF assms(1)]] a run r1)
  next
    case (Inl e)
    with failover_try_first [where r = r1 and idx = ?i and js = "[1 ..< ?n]" and w = w1 and e = "keepErr e None" and env = env and cost = cost and fn = fn] show ?thesis
      unfolding run cyclic_Cons [OF start_index_less [OF assms(1)]] r1(1)
      by (fastforce simp: a r1 split: prod.splits option.splits)
  qed
  with cyclic_all [of ?n ?i] show ?thesis by blast
qed

definition sample_client :: "nat \<Rightarrow> string \<Rightarrow> nat Client" where
  "sample_client i provider =
     \<lparr>cl_EthClient = Some i, cl_url = '''', cl_provider = provider, cl_limitType = LimitCU,
      cl_limiter = \<lparr>lm_id = i, lm_limit = 450, lm_burst = 400\<rparr>\<rparr>"

definition sample_env :: "(nat, int) rpc_env" where
  "sample_env =
     \<lparr>env_WaitN = (\<lambda>lm n w. (if n \<le> lm_burst lm then None else Some ''rate'', w)),
      env_Now = (\<lambda>w. (w, w + 1)), env_Dial = (\<lambda>_ w. (Some 0, w))\<rparr>"

definition sample_manager :: "nat RPCManager" where
  "sample_manager =
     \<lparr>rm_clients = [sample_client 0 ''alchemy'', sample_client 1 ''chainstack'', sample_client 2 ''third''],
      rm_active = 2, rm_rotateInterval = RotateInterval, rm_lastRotateAt = 0\<rparr>"

text \<open>Client 2 is active and fails, client 0 fails, client 1 answers.\<close>

theorem EthClientFunc_first_success_witness:
  "\<exists>r' w'. EthClientFunc sample_env \<lparr>co_CU = 1, co_RPC = 1\<rparr>
      (\<lambda>c w. (if c = 1 then Inr c else Inl ''boom'', w)) sample_manager 5 = (Inr 1, r', w') \<and> rm_active r' = 1"
proof -
  have ok: "mgr_ok sample_manager" by (simp add: mgr_ok_def sample_manager_def)
  have now: "env_Now sample_env 5 = (5, 6)" by (simp add: sample_env_def)
  have "try_first sample_env \<lparr>co_CU = 1, co_RPC = 1\<rparr> (\<lambda>c w. (if c = 1 then Inr c else Inl ''boom'', w))
      (rm_clients sample_manager) (cyclic (length (rm_clients sample_manager)) (start_index 5 sample_manager)) 6 =
      (Some (1, 1), 6)"
    by (simp add: sample_manager_def sample_env_def sample_client_def start_index_def RotateInterval_def
        cyclic_def attempt_def Client_Wait_def upt_rec)
  with EthClientFunc_first_success [OF ok now, of "\<lparr>co_CU = 1, co_RPC = 1\<rparr>"
      "\<lambda>c w. (if c = 1 then Inr c else Inl ''boom'', w)"] show ?thesis by auto
qed

section \<open>Costs above the burst\<close>

text \<open>The documented law of \<open>rate.Limiter\<close>: a request for more than the burst is refused.\<close>

definition burst_law :: "('c, 'w) rpc_env \<Rightarrow> bool" where
  "burst_law env \<longleftrightarrow> (\<forall>lm n w. lm_burst lm < n \<longrightarrow> fst (env_WaitN env lm n w) \<noteq> None)"

definition policy_client :: "'c Client \<Rightarrow> bool" where
  "policy_client c \<longleftrightarrow> (\<exists>p \<in> snd ` set rpcPolicies.
     cl_limitType c = po_LimitType p \<and> lm_burst (cl_limiter c) = po_Burst p)"

lemma newClients_policy:
  assumes "newClients env rpcs ps cs w = (Inr cs', w')" "\<forall>c \<in> set cs. policy_client c"
  shows "\<forall>c \<in> set cs'. policy_client c"
  using assms
proof (induction env rpcs ps cs w rule: newClients.induct)
  case (2 env rpcs provider ps cs w)
  from 2(3) obtain p where p: "map_of rpcPolicies provider = Some p" by (auto split: option.splits)
  obtain c w1 where n: "NewEthClient env (length cs) provider (the (fmlookup rpcs provider)) p w = (c, w1)" by fastforce
  have mem: "p \<in> snd ` set rpcPolicies" using map_of_SomeD [OF p] by force
  have pol: "policy_client c'" if c: "c = Some c'" for c'
  proof -
    from n c have "cl_limitType c' = po_LimitType p" "lm_burst (cl_limiter c') = po_Burst p"
      by (auto simp: NewEthClient_def split: prod.splits option.splits)
    with mem show ?thesis unfolding policy_client_def by blast
  qed
  show ?case
  proof (cases c)
    case None
    with 2(3,4) p n show ?thesis by (intro 2(1) [OF p n [symmetric] None]) auto
  next
    case (Some c')
    with 2(3,4) p n pol show ?thesis by (intro 2(2) [OF p n [symmetric] Some]) auto
  qed
qed simp

lemma NewRpcManager_policy:
  "NewRpcManager env ord rpcs w = (Inr r, w') \<Longrightarrow> \<forall>c \<in> set (rm_clients r). policy_client c"
  by (auto simp: NewRpcManager_def Let_def split: prod.splits sum.splits if_splits dest: newClients_policy)

lemma wait_over_burst:
  assumes "burst_law env" "policy_client c" "400 < co_CU cost" "20 < co_RPC cost"
  shows "\<exists>e w'. Client_Wait env c cost w = (Some e, w')"
proof -
  obtain p where p: "p \<in> snd ` set rpcPolicies" "cl_limitType c = po_LimitType p"
    "lm_burst (cl_limiter c) = po_Burst p" using assms(2) by (auto simp: policy_client_def)
  have "fst (Client_Wait env c cost w) \<noteq> None"
    using p assms by (auto simp: rpcPolicies_def Client_Wait_def burst_law_def)
  then show ?thesis by (cases "Client_Wait env c cost w") auto
qed

lemma attempt_over_burst:
  assumes "burst_law env" "policy_client c" "400 < co_CU cost" "20 < co_RPC cost"
  shows "\<exists>e w'. \<forall>fn :: 'c \<Rightarrow> 'w \<Rightarrow> (string + 'r) \<times> 'w. attempt env cost fn c w = (Inl e, w')"
  using wait_over_burst [OF assms, of w] by (cases "cl_EthClient c") (auto simp: attempt_def)

lemma failover_over_burst:
  assumes "burst_law env" "\<forall>c \<in> set (rm_clients r). policy_client c" "rm_clients r \<noteq> []"
    "400 < co_CU cost" "20 < co_RPC cost"
  shows "\<exists>e' w'. \<forall>fn :: 'c \<Rightarrow> 'w \<Rightarrow> (string + 'r) \<times> 'w.
    failover env cost fn idx js e r w = (Inl (AllProvidersFailed e'), r, w')"
proof (induction js arbitrary: e w)
  case (Cons i js)
  let ?c = "rm_clients r ! ((idx + i) mod length (rm_clients r))"
  have "policy_client ?c" using assms(2,3) by simp
  from attempt_over_burst [OF assms(1) this assms(4,5), of w] obtain a w1 where
    a: "\<And>fn :: 'c \<Rightarrow> 'w \<Rightarrow> (string + 'r) \<times> 'w. attempt env cost fn ?c w = (Inl a, w1)" by blast
  from Cons.IH [where w = w1 and e = "keepErr a e"] show ?case by (simp add: a Let_def)
qed auto

lemma over_burst_fails:
  assumes "burst_law env" "\<forall>c \<in> set (rm_clients r). policy_client c" "mgr_ok r"
    "400 < co_CU cost" "20 < co_RPC cost"
  shows "\<exists>e r' w'. \<forall>fn :: 'c \<Rightarrow> 'w \<Rightarrow> (string + 'r) \<times> 'w.
    EthClientFunc env cost fn r w = (Inl (AllProvidersFailed e), r', w')"
proof -
  obtain now w0 where now: "env_Now env w = (now, w0)" by fastforce
  define r1 where "r1 = (if now - rm_lastRotateAt r \<ge> rm_rotateInterval r
    then r\<lparr>rm_active := (rm_active r + 1) mod length (rm_clients r), rm_lastRotateAt := now\<rparr> else r)"
  have r1: "rm_clients r1 = rm_clients r" "rm_active r1 < length (rm_clients r)" "rm_clients r \<noteq> []"
    using assms(3) by (auto simp: r1_def mgr_ok_def)
  have "policy_client (rm_clients r1 ! rm_active r1)" using assms(2) r1 by simp
  from attempt_over_burst [OF assms(1) this assms(4,5), of w0] obtain a w1 where
    a: "\<And>fn :: 'c \<Rightarrow> 'w \<Rightarrow> (string + 'r) \<times> 'w. attempt env cost fn (rm_clients r1 ! rm_active r1) w0 = (Inl a, w1)"
    by blast
  have run: "EthClientFunc env cost fn r w =
     failover env cost fn (rm_active r1) [1 ..< length (rm_clients r1)] (keepErr a None) r1 w1"
    for fn :: "'c \<Rightarrow> 'w \<Rightarrow> (string + 'r) \<times> 'w"
    using r1(3) by (simp add: EthClientFunc_def now r1_def [symmetric] a Let_def)
  have "\<forall>c \<in> set (rm_clients r1). policy_client c" "rm_clients r1 \<noteq> []" using assms(2) r1 by simp_all
  from failover_over_burst [OF assms(1) this assms(4,5), of "rm_active r1" "[1 ..< length (rm_clients r1)]" "keepErr a None" w1]
  show ?thesis unfolding run by blast
qed

end
