(* ===== verification/Grpc_Client.thy ===== *)
theory Grpc_Client
  imports Gas_Analyzer
begin

text \<open>
  The gRPC client (\<open>internal/network/grpcClient/client.go\<close>): two buffered channels, filled by the
  analyzer and by the block processor and emptied by one worker each. The messages are records of
  their protobuf fields. A producer never blocks: when the channel is full it drops the oldest
  message. Each of its three \<open>select\<close> statements is atomic and the worker may receive between
  them; the numbers \<open>k1\<close> and \<open>k2\<close> are how many messages it takes at the two points. Every
  channel has one producer.

  The gRPC service and the context are outside: \<open>'w\<close> is their state.
\<close>

section \<open>Messages and state\<close>

record GapEvent =
  ge_FromBlock :: u64
  ge_ToBlock :: u64

datatype GasPredictionStream =
    Prediction GasPredictionRequest
  | Gap GapEvent
  | NoEvent

record WaitBlockCount =
  wb_WaitBlock :: u32
  wb_TxCount :: u32

record FeeBucket =
  fe_Bucket :: u32
  fe_MinPriority :: float64
  fe_MaxPriority :: float64
  fe_TotalTxCount :: u32
  fe_AvrWaitBlocks :: float64
  fe_AvrWaitSeconds :: float64
  fe_WaitBlockCount :: "WaitBlockCount list"

record FeeStatisticsRequest =
  fs_Buckets :: "FeeBucket list"
  fs_UpdatedAt :: Time

definition gasPredictionBufferSize :: nat where
  "gasPredictionBufferSize = 3"

definition feeBucketBufferSize :: nat where
  "feeBucketBufferSize = 1"

definition unaryRetryDelay :: int where
  "unaryRetryDelay = 1000000000"

definition streamFastRetryCount :: nat where
  "streamFastRetryCount = 3"

definition streamFastRetryDelay :: int where
  "streamFastRetryDelay = 2 * 1000000000"

definition streamMaxRetryDelay :: int where
  "streamMaxRetryDelay = 30 * 1000000000"

definition maxFeeBucketAttempts :: nat where
  "maxFeeBucketAttempts = 3"

record GasPredictionClient =
  gc_GasPredictCh :: "GasPredictionStream option chan"
  gc_FeeBucketCh :: "FeeStatisticsRequest chan"
  gc_LastSentBlock :: u64
  gc_unaryRetryDelay :: int

text \<open>The client literal of \<open>NewGasPredictClient\<close> (the whole function is in \<open>Server_Main\<close>).\<close>

definition newGasPredictClient :: GasPredictionClient where
  "newGasPredictClient =
     \<lparr>gc_GasPredictCh = make_chan gasPredictionBufferSize,
      gc_FeeBucketCh = make_chan feeBucketBufferSize,
      gc_LastSentBlock = 0, gc_unaryRetryDelay = unaryRetryDelay\<rparr>"

section \<open>Producers\<close>

definition taken :: "nat \<Rightarrow> 'a chan \<Rightarrow> 'a chan" where
  "taken k ch = ch\<lparr>chan_buf := drop k (chan_buf ch)\<rparr>"

definition dropOldest :: "'a chan \<Rightarrow> 'a chan" where
  "dropOldest ch = (case chan_try_recv ch of None \<Rightarrow> ch | Some (_, ch') \<Rightarrow> ch')"

definition enqueue ::
  "nat \<Rightarrow> nat \<Rightarrow> GasPredictionStream option \<Rightarrow> GasPredictionClient \<Rightarrow> GasPredictionClient" where
  "enqueue k1 k2 req c =
     (case chan_try_send req (gc_GasPredictCh c) of
        (True, ch) \<Rightarrow> c\<lparr>gc_GasPredictCh := ch\<rparr>
      | (False, ch) \<Rightarrow> c\<lparr>gc_GasPredictCh := snd (chan_try_send req (taken k2 (dropOldest (taken k1 ch))))\<rparr>)"

definition GetPrediction_of :: "GasPredictionStream option \<Rightarrow> GasPredictionRequest option" where
  "GetPrediction_of req = (case req of Some (Prediction p) \<Rightarrow> Some p | _ \<Rightarrow> None)"

definition GasPredictResultSend ::
  "nat \<Rightarrow> nat \<Rightarrow> nat \<Rightarrow> nat \<Rightarrow> GasPredictionStream option \<Rightarrow> GasPredictionClient \<Rightarrow> GasPredictionClient" where
  "GasPredictResultSend k1 k2 k3 k4 req c =
     (case GetPrediction_of req of
        None \<Rightarrow> c
      | Some p \<Rightarrow>
          let last = gc_LastSentBlock c;
              c = (if last \<noteq> 0 \<and> pr_NextBlockNumber p > last + 1
                   then enqueue k1 k2 (Some (Gap \<lparr>ge_FromBlock = last + 1, ge_ToBlock = pr_NextBlockNumber p - 1\<rparr>)) c
                   else c)
          in enqueue k3 k4 req c)"

definition FeeBucketSend ::
  "nat \<Rightarrow> nat \<Rightarrow> FeeStatisticsRequest \<Rightarrow> GasPredictionClient \<Rightarrow> GasPredictionClient" where
  "FeeBucketSend k1 k2 req c =
     (case chan_try_send req (gc_FeeBucketCh c) of
        (True, ch) \<Rightarrow> c\<lparr>gc_FeeBucketCh := ch\<rparr>
      | (False, ch) \<Rightarrow> c\<lparr>gc_FeeBucketCh := snd (chan_try_send req (taken k2 (dropOldest (taken k1 ch))))\<rparr>)"

section \<open>The stream worker\<close>

record StreamResponse =
  sr_Success :: bool
  sr_Message :: string

text \<open>
  \<open>se_Done\<close> is the error of the cancelled context when the \<open>select\<close> takes that branch.
\<close>

record 'w stream_env =
  se_Done :: "'w \<Rightarrow> string option"
  se_Send :: "GasPredictionStream \<Rightarrow> 'w \<Rightarrow> string option \<times> 'w"
  se_Recv :: "'w \<Rightarrow> (string + StreamResponse) \<times> 'w"

text \<open>
  The body of the loop of \<open>processStream\<close> for one received message: \<open>Some err\<close> is the return.
\<close>

definition processMsg ::
  "'w stream_env \<Rightarrow> GasPredictionStream option \<Rightarrow> GasPredictionClient \<Rightarrow> 'w \<Rightarrow>
   string option \<times> GasPredictionClient \<times> 'w" where
  "processMsg env req c w =
     (case req of
        None \<Rightarrow> (None, c, w)
      | Some m \<Rightarrow>
          (case se_Send env m w of
             (Some err, w) \<Rightarrow> (Some err, c, w)
           | (None, w) \<Rightarrow>
               (case se_Recv env w of
                  (Inl err, w) \<Rightarrow> (Some err, c, w)
                | (Inr res, w) \<Rightarrow>
                    if \<not> sr_Success res then (Some (''server rejected: '' @ sr_Message res), c, w)
                    else
                      (None,
                       (case GetPrediction_of req of
                          None \<Rightarrow> c
                        | Some p \<Rightarrow> c\<lparr>gc_LastSentBlock := pr_NextBlockNumber p\<rparr>), w))))"

lemma processMsg_ch: "processMsg env req c w = (e, c', w') \<Longrightarrow> gc_GasPredictCh c' = gc_GasPredictCh c"
  by (auto simp: processMsg_def split: option.splits prod.splits sum.splits if_splits)

text \<open>
  \<open>processStream\<close> until the channel is empty (where the worker waits) or the stream is lost.
\<close>

function processStream ::
  "'w stream_env \<Rightarrow> GasPredictionClient \<Rightarrow> 'w \<Rightarrow> string option \<times> GasPredictionClient \<times> 'w" where
  "processStream env c w =
     (case se_Done env w of
        Some err \<Rightarrow> (Some err, c, w)
      | None \<Rightarrow>
          (case chan_buf (gc_GasPredictCh c) of
             [] \<Rightarrow> (None, c, w)
           | req # reqs \<Rightarrow>
               (case processMsg env req (c\<lparr>gc_GasPredictCh := (gc_GasPredictCh c)\<lparr>chan_buf := reqs\<rparr>\<rparr>) w of
                  (Some err, c, w) \<Rightarrow> (Some err, c, w)
                | (None, c, w) \<Rightarrow> processStream env c w)))"
  by pat_completeness auto
termination
  by (relation "measure (\<lambda>(_, c, _). length (chan_buf (gc_GasPredictCh c)))")
    (auto dest!: processMsg_ch [OF sym])

declare processStream.simps [simp del]

text \<open>
  The reconnect policy of \<open>startStreamWorker\<close>: from the retry state and whether the connection was
  made, the delay before the next try and the new state.
\<close>

definition reconnect :: "bool \<Rightarrow> nat \<times> int \<Rightarrow> int \<times> (nat \<times> int)" where
  "reconnect isConnected st =
     (let (retryCount, retryDelay) = (if isConnected then (0, streamFastRetryDelay) else st)
      in if retryCount < streamFastRetryCount then (streamFastRetryDelay, (retryCount + 1, retryDelay))
         else
           (retryDelay,
            (retryCount, if retryDelay * 2 > streamMaxRetryDelay then streamMaxRetryDelay else retryDelay * 2)))"

text \<open>
  The \<open>select\<close> of \<open>WaitForRetry\<close> between the cancelled context and the timer of the given duration.
\<close>

datatype wait_branch = DoneFirst | TimerFired

definition WaitForRetry :: "(int \<Rightarrow> 'w \<Rightarrow> wait_branch \<times> 'w) \<Rightarrow> int \<Rightarrow> 'w \<Rightarrow> bool \<times> 'w" where
  "WaitForRetry select delay w =
     (case select delay w of
        (DoneFirst, w) \<Rightarrow> (False, w)
      | (TimerFired, w) \<Rightarrow> (True, w))"

text \<open>
  The goroutine \<open>startStreamWorker\<close>: it connects, or it drains the channel over a stream, or it has
  returned. A step is one iteration up to the next wait.
\<close>

datatype stream_worker = Connecting "nat \<times> int" | Streaming | Stopped

record 'w conn_env =
  ce_CtxDone :: "'w \<Rightarrow> bool"
  ce_Connect :: "'w \<Rightarrow> bool \<times> 'w"
  ce_Select :: "int \<Rightarrow> 'w \<Rightarrow> wait_branch \<times> 'w"
  ce_stream :: "'w stream_env"

definition waitReconnect :: "'w conn_env \<Rightarrow> bool \<Rightarrow> nat \<times> int \<Rightarrow> 'w \<Rightarrow> stream_worker \<times> 'w" where
  "waitReconnect env isConnected st w =
     (if ce_CtxDone env w then (Stopped, w)
      else
        case reconnect isConnected st of
          (delay, st') \<Rightarrow>
            (case WaitForRetry (ce_Select env) delay w of
               (False, w) \<Rightarrow> (Stopped, w)
             | (True, w) \<Rightarrow> (Connecting st', w)))"

fun startStreamWorker ::
  "'w conn_env \<Rightarrow> stream_worker \<Rightarrow> GasPredictionClient \<Rightarrow> 'w \<Rightarrow> stream_worker \<times> GasPredictionClient \<times> 'w" where
  "startStreamWorker env (Connecting st) c w =
     (if ce_CtxDone env w then (Stopped, c, w)
      else
        case ce_Connect env w of
          (True, w) \<Rightarrow> (Streaming, c, w)
        | (False, w) \<Rightarrow> (case waitReconnect env False st w of (s, w) \<Rightarrow> (s, c, w)))"
| "startStreamWorker env Streaming c w =
     (case processStream (ce_stream env) c w of
        (None, c, w) \<Rightarrow> (Streaming, c, w)
      | (Some err, c, w) \<Rightarrow>
          (case waitReconnect env True (0, streamFastRetryDelay) w of (s, w) \<Rightarrow> (s, c, w)))"
| "startStreamWorker env Stopped c w = (Stopped, c, w)"

fun reconnects :: "bool list \<Rightarrow> nat \<times> int \<Rightarrow> int list" where
  "reconnects [] st = []"
| "reconnects (b # bs) st = (case reconnect b st of (d, st') \<Rightarrow> d # reconnects bs st')"

section \<open>The unary worker\<close>

datatype ResponseCode = SUCCESS | INVALID_REQUEST | OtherCode int

record CommonResponse =
  cr_Success :: bool
  cr_Code :: ResponseCode
  cr_Message :: string

record 'w unary_env =
  ue_CtxErr :: "'w \<Rightarrow> string option"
  ue_Upload :: "FeeStatisticsRequest \<Rightarrow> 'w \<Rightarrow> (string + CommonResponse option) \<times> 'w"
  ue_Select :: "int \<Rightarrow> 'w \<Rightarrow> wait_branch \<times> 'w"
  ue_Done :: "'w \<Rightarrow> bool"

definition ctxErr :: "'w unary_env \<Rightarrow> 'w \<Rightarrow> string" where
  "ctxErr env w = (case ue_CtxErr env w of None \<Rightarrow> '''' | Some e \<Rightarrow> e)"

text \<open>What one response means: \<open>Inl\<close> is the error to remember and whether to give up at once.\<close>

definition judge :: "(string + CommonResponse option) \<Rightarrow> (string \<times> bool) + unit" where
  "judge res = (case res of
       Inl err \<Rightarrow> Inl (err, False)
     | Inr None \<Rightarrow> Inl (''empty response from UploadFeeBuckets'', False)
     | Inr (Some r) \<Rightarrow>
         if \<not> cr_Success r
         then Inl (''fee statistics rejected by server: '' @ cr_Message r, cr_Code r = INVALID_REQUEST)
         else Inr ())"

text \<open>\<open>n\<close> is the number of attempts left, the current one included.\<close>

fun feeAttempts ::
  "'w unary_env \<Rightarrow> int \<Rightarrow> FeeStatisticsRequest \<Rightarrow> nat \<Rightarrow> string option \<Rightarrow> 'w \<Rightarrow> string option \<times> 'w" where
  "feeAttempts env delay req 0 lastErr w = (lastErr, w)"
| "feeAttempts env delay req (Suc n) lastErr w =
     (case ue_CtxErr env w of
        Some e \<Rightarrow> (Some e, w)
      | None \<Rightarrow>
          (case ue_Upload env req w of
             (res, w) \<Rightarrow>
               (case judge res of
                  Inr _ \<Rightarrow> (None, w)
                | Inl (err, giveUp) \<Rightarrow>
                    if giveUp \<or> n = 0 then (Some err, w)
                    else
                      (case WaitForRetry (ue_Select env) delay w of
                         (False, w) \<Rightarrow> (ue_CtxErr env w, w)
                       | (True, w) \<Rightarrow> feeAttempts env delay req n (Some err) w))))"

definition sendFeeBucket ::
  "'w unary_env \<Rightarrow> FeeStatisticsRequest \<Rightarrow> GasPredictionClient \<Rightarrow> 'w \<Rightarrow> string option \<times> 'w" where
  "sendFeeBucket env req c w =
     (let delay = gc_unaryRetryDelay c;
          delay = (if delay \<le> 0 then gc_unaryRetryDelay c else delay)
      in feeAttempts env delay req maxFeeBucketAttempts None w)"

text \<open>
  One iteration of \<open>startUnaryWoker\<close>; the flag says whether the worker goes on. \<open>isCtx\<close> is
  \<open>errors.Is\<close> for the two errors of a context; \<open>ue_Done\<close> says that the \<open>select\<close> takes the branch of the
  cancelled context.
\<close>

definition startUnaryWoker ::
  "'w unary_env \<Rightarrow> (string \<Rightarrow> bool) \<Rightarrow> GasPredictionClient \<Rightarrow> 'w \<Rightarrow> bool \<times> GasPredictionClient \<times> 'w" where
  "startUnaryWoker env isCtx c w =
     (if ue_Done env w then (False, c, w)
      else
        case chan_try_recv (gc_FeeBucketCh c) of
          None \<Rightarrow> (True, c, w)
        | Some (req, ch) \<Rightarrow>
            let c = c\<lparr>gc_FeeBucketCh := ch\<rparr>
            in case sendFeeBucket env req c w of
                 (None, w) \<Rightarrow> (True, c, w)
               | (Some err, w) \<Rightarrow> (\<not> isCtx err, c, w))"

end
