(* ===== verification/Grpc_Client_Props.thy ===== *)
theory Grpc_Client_Props
  imports Grpc_Client
begin

text \<open>
  Properties of the gRPC client. Both producers obey one contract, the locale \<open>latest_queue\<close>: the
  new message is always the last of the channel and what precedes it is a final part of the old
  content.
\<close>

section \<open>Channels that keep the latest\<close>

locale latest_queue =
  fixes put :: "'a \<Rightarrow> 'q \<Rightarrow> 'q"
    and items :: "'q \<Rightarrow> 'a list"
    and cap :: "'q \<Rightarrow> nat"
    and ok :: "'q \<Rightarrow> bool"
  assumes put_ok: "ok q \<Longrightarrow> ok (put x q)"
    and put_cap: "cap (put x q) = cap q"
    and put_items: "ok q \<Longrightarrow> \<exists>n. items (put x q) = drop n (items q) @ [x]"
    and put_room: "ok q \<Longrightarrow> length (items q) < cap q \<Longrightarrow> items (put x q) = items q @ [x]"
    and ok_bound: "ok q \<Longrightarrow> length (items q) \<le> cap q"
begin

lemma put_all_ok: "ok q \<Longrightarrow> ok (fold put xs q)"
  by (induction xs arbitrary: q) (simp_all add: put_ok)

text \<open>Whatever is put, the channel is a final part of everything ever put, newest last.\<close>

lemma put_all_items: "ok q \<Longrightarrow> \<exists>n. items (fold put xs q) = drop n (items q @ xs)"
proof (induction xs arbitrary: q)
  case Nil
  have "items (fold put [] q) = drop 0 (items q @ [])" by simp
  then show ?case by blast
next
  case (Cons x xs)
  obtain m where m: "items (put x q) = drop m (items q) @ [x]" using put_items [OF Cons.prems] by blast
  obtain n where "items (fold put xs (put x q)) = drop n (items (put x q) @ xs)"
    using Cons.IH [OF put_ok [OF Cons.prems]] by blast
  also have "items (put x q) @ xs = drop (min m (length (items q))) (items q @ x # xs)"
    by (cases "m \<le> length (items q)") (simp_all add: m)
  finally show ?case by (auto simp: drop_drop)
qed

lemma put_all_last: "ok q \<Longrightarrow> xs \<noteq> [] \<Longrightarrow> last (items (fold put xs q)) = last xs"
proof (induction xs arbitrary: q rule: rev_induct)
  case (snoc x xs)
  obtain n where "items (put x (fold put xs q)) = drop n (items (fold put xs q)) @ [x]"
    using put_items [OF put_all_ok [OF snoc.prems(1)]] by blast
  then show ?case by simp
qed simp

end

lemma latest_chan:
  assumes "chan_ok ch" "0 < chan_cap ch" "chan_try_send x ch = (False, ch)"
  shows "\<exists>n. chan_buf (snd (chan_try_send x (taken k2 (dropOldest (taken k1 ch))))) = drop n (chan_buf ch) @ [x]"
    "chan_ok (snd (chan_try_send x (taken k2 (dropOldest (taken k1 ch)))))"
proof -
  let ?c = "taken k2 (dropOldest (taken k1 ch))"
  have "chan_buf (dropOldest c) = tl (chan_buf c)" for c :: "'a chan"
    by (simp add: dropOldest_def chan_try_recv_def split: list.splits)
  then have buf: "chan_buf ?c = drop (k2 + (1 + k1)) (chan_buf ch)"
    by (simp add: taken_def drop_Suc tl_drop flip: drop_drop)
  have cap: "chan_cap ?c = chan_cap ch"
    by (simp add: taken_def dropOldest_def chan_try_recv_def split: list.splits)
  have room: "length (chan_buf ?c) < chan_cap ?c"
    using assms(1,2) unfolding buf cap by (simp add: chan_ok_def)
  then have send: "chan_try_send x ?c = (True, ?c\<lparr>chan_buf := chan_buf ?c @ [x]\<rparr>)"
    by (simp add: chan_try_send_def chan_full_def)
  show "\<exists>n. chan_buf (snd (chan_try_send x ?c)) = drop n (chan_buf ch) @ [x]"
    unfolding send using buf by auto
  show "chan_ok (snd (chan_try_send x ?c))" unfolding send using room by (simp add: chan_ok_def)
qed

definition client_ok :: "GasPredictionClient \<Rightarrow> bool" where
  "client_ok c \<longleftrightarrow> chan_ok (gc_GasPredictCh c) \<and> chan_cap (gc_GasPredictCh c) = gasPredictionBufferSize \<and>
     chan_ok (gc_FeeBucketCh c) \<and> chan_cap (gc_FeeBucketCh c) = feeBucketBufferSize"

lemma newGasPredictClient_ok: "client_ok newGasPredictClient"
  by (simp add: client_ok_def newGasPredictClient_def)

lemmas buffer_sizes = gasPredictionBufferSize_def feeBucketBufferSize_def

lemma try_send_cap: "chan_cap (snd (chan_try_send x ch)) = chan_cap ch"
  by (simp add: chan_try_send_def)

lemma taken_cap: "chan_cap (taken k ch) = chan_cap ch" "chan_cap (dropOldest ch) = chan_cap ch"
  by (auto simp: taken_def dropOldest_def chan_try_recv_def split: list.splits)

lemma try_send_cases:
  obtains (room) "chan_try_send x ch = (True, ch\<lparr>chan_buf := chan_buf ch @ [x]\<rparr>)" "length (chan_buf ch) < chan_cap ch"
  | (full) "chan_try_send x ch = (False, ch)" "chan_cap ch \<le> length (chan_buf ch)"
proof (cases "chan_full ch")
  case True
  then show ?thesis by (intro full) (simp_all add: chan_try_send_def chan_full_def)
next
  case False
  then show ?thesis by (intro room) (simp_all add: chan_try_send_def chan_full_def)
qed

lemma enqueue_spec:
  assumes "client_ok c"
  shows "client_ok (enqueue k1 k2 req c)"
    "\<exists>n. chan_buf (gc_GasPredictCh (enqueue k1 k2 req c)) = drop n (chan_buf (gc_GasPredictCh c)) @ [req]"
    "length (chan_buf (gc_GasPredictCh c)) < gasPredictionBufferSize \<Longrightarrow>
     chan_buf (gc_GasPredictCh (enqueue k1 k2 req c)) = chan_buf (gc_GasPredictCh c) @ [req]"
    "chan_cap (gc_GasPredictCh (enqueue k1 k2 req c)) = chan_cap (gc_GasPredictCh c)"
proof -
  let ?ch = "gc_GasPredictCh c"
  have ok: "chan_ok ?ch" "0 < chan_cap ?ch" "chan_cap ?ch = gasPredictionBufferSize"
    using assms by (auto simp: client_ok_def buffer_sizes)
  have *: "client_ok (enqueue k1 k2 req c) \<and>
    (\<exists>n. chan_buf (gc_GasPredictCh (enqueue k1 k2 req c)) = drop n (chan_buf ?ch) @ [req]) \<and>
    (length (chan_buf ?ch) < gasPredictionBufferSize \<longrightarrow>
      chan_buf (gc_GasPredictCh (enqueue k1 k2 req c)) = chan_buf ?ch @ [req]) \<and>
    chan_cap (gc_GasPredictCh (enqueue k1 k2 req c)) = chan_cap ?ch"
  proof (cases req ?ch rule: try_send_cases)
    case room
    have "chan_buf ?ch @ [req] = drop 0 (chan_buf ?ch) @ [req]" by simp
    moreover have "enqueue k1 k2 req c = c\<lparr>gc_GasPredictCh := ?ch\<lparr>chan_buf := chan_buf ?ch @ [req]\<rparr>\<rparr>"
      using room(1) by (simp add: enqueue_def)
    ultimately show ?thesis
      using room(2) assms by (simp add: client_ok_def chan_ok_def) (metis drop_0)
  next
    case full
    with latest_chan [OF ok(1,2) full(1), of k2 k1] assms ok(3) show ?thesis
      by (simp add: enqueue_def client_ok_def try_send_cap taken_cap)
  qed
  then show "client_ok (enqueue k1 k2 req c)"
    "\<exists>n. chan_buf (gc_GasPredictCh (enqueue k1 k2 req c)) = drop n (chan_buf ?ch) @ [req]"
    "length (chan_buf ?ch) < gasPredictionBufferSize \<Longrightarrow>
     chan_buf (gc_GasPredictCh (enqueue k1 k2 req c)) = chan_buf ?ch @ [req]"
    "chan_cap (gc_GasPredictCh (enqueue k1 k2 req c)) = chan_cap ?ch" by blast+
qed

lemma FeeBucketSend_spec:
  assumes "client_ok c"
  shows "client_ok (FeeBucketSend k1 k2 req c)"
    "chan_buf (gc_FeeBucketCh (FeeBucketSend k1 k2 req c)) = [req]"
    "gc_GasPredictCh (FeeBucketSend k1 k2 req c) = gc_GasPredictCh c"
    "gc_LastSentBlock (FeeBucketSend k1 k2 req c) = gc_LastSentBlock c"
proof -
  let ?ch = "gc_FeeBucketCh c"
  have ok: "chan_ok ?ch" "0 < chan_cap ?ch" "chan_cap ?ch = 1"
    using assms by (auto simp: client_ok_def buffer_sizes)
  have *: "client_ok (FeeBucketSend k1 k2 req c) \<and> chan_buf (gc_FeeBucketCh (FeeBucketSend k1 k2 req c)) = [req]"
  proof (cases req ?ch rule: try_send_cases)
    case room
    then have "chan_buf ?ch = []" using ok by simp
    with room assms show ?thesis by (auto simp: FeeBucketSend_def client_ok_def chan_ok_def)
  next
    case full
    note l = latest_chan [OF ok(1,2) full(1), of k2 k1]
    obtain n where n: "chan_buf (snd (chan_try_send req (taken k2 (dropOldest (taken k1 ?ch))))) = drop n (chan_buf ?ch) @ [req]"
      using l(1) by blast
    have "length (chan_buf (snd (chan_try_send req (taken k2 (dropOldest (taken k1 ?ch)))))) \<le> 1"
      using l(2) ok(3) by (simp add: chan_ok_def try_send_cap taken_cap)
    with n have "drop n (chan_buf ?ch) = []" by simp
    with n l(2) full assms show ?thesis by (simp add: FeeBucketSend_def client_ok_def try_send_cap taken_cap)
  qed
  then show "client_ok (FeeBucketSend k1 k2 req c)"
    "chan_buf (gc_FeeBucketCh (FeeBucketSend k1 k2 req c)) = [req]" by blast+
  show "gc_GasPredictCh (FeeBucketSend k1 k2 req c) = gc_GasPredictCh c"
    "gc_LastSentBlock (FeeBucketSend k1 k2 req c) = gc_LastSentBlock c"
    by (simp_all add: FeeBucketSend_def split: prod.splits bool.splits)
qed

interpretation predictions: latest_queue "enqueue k1 k2" "\<lambda>c. chan_buf (gc_GasPredictCh c)"
  "\<lambda>c. chan_cap (gc_GasPredictCh c)" client_ok
  for k1 k2 :: nat
proof
  show "chan_cap (gc_GasPredictCh (enqueue k1 k2 x q)) = chan_cap (gc_GasPredictCh q)" for x q
    by (simp add: enqueue_def try_send_cap taken_cap chan_try_send_def split: prod.splits bool.splits if_splits)
  show "length (chan_buf (gc_GasPredictCh q)) \<le> chan_cap (gc_GasPredictCh q)" if "client_ok q" for q
    using that by (simp add: client_ok_def chan_ok_def)
  show "chan_buf (gc_GasPredictCh (enqueue k1 k2 x q)) = chan_buf (gc_GasPredictCh q) @ [x]"
    if "client_ok q" "length (chan_buf (gc_GasPredictCh q)) < chan_cap (gc_GasPredictCh q)" for x q
    using that by (intro enqueue_spec(3)) (simp_all add: client_ok_def)
qed (simp_all add: enqueue_spec)

interpretation fee_buckets: latest_queue "FeeBucketSend k1 k2" "\<lambda>c. chan_buf (gc_FeeBucketCh c)"
  "\<lambda>c. chan_cap (gc_FeeBucketCh c)" client_ok
  for k1 k2 :: nat
proof
  show "chan_cap (gc_FeeBucketCh (FeeBucketSend k1 k2 x q)) = chan_cap (gc_FeeBucketCh q)" for x q
    by (simp add: FeeBucketSend_def try_send_cap taken_cap chan_try_send_def split: prod.splits bool.splits if_splits)
  show "\<exists>n. chan_buf (gc_FeeBucketCh (FeeBucketSend k1 k2 x q)) = drop n (chan_buf (gc_FeeBucketCh q)) @ [x]"
    if "client_ok q" for x q
    using FeeBucketSend_spec(2) [OF that] by (metis append_Nil drop_all order_refl)
  show "chan_buf (gc_FeeBucketCh (FeeBucketSend k1 k2 x q)) = chan_buf (gc_FeeBucketCh q) @ [x]"
    if "client_ok q" "length (chan_buf (gc_FeeBucketCh q)) < chan_cap (gc_FeeBucketCh q)" for x q
    using FeeBucketSend_spec(2) [OF that(1)] that by (simp add: client_ok_def buffer_sizes)
  show "length (chan_buf (gc_FeeBucketCh q)) \<le> chan_cap (gc_FeeBucketCh q)" if "client_ok q" for q
    using that by (simp add: client_ok_def chan_ok_def)
qed (simp_all add: FeeBucketSend_spec)

section \<open>Predictions and gaps\<close>

definition gap_before :: "GasPredictionRequest \<Rightarrow> GasPredictionClient \<Rightarrow> GasPredictionStream option list" where
  "gap_before p c =
     (if gc_LastSentBlock c \<noteq> 0 \<and> gc_LastSentBlock c + 1 < pr_NextBlockNumber p
      then [Some (Gap \<lparr>ge_FromBlock = gc_LastSentBlock c + 1, ge_ToBlock = pr_NextBlockNumber p - 1\<rparr>)] else [])"

text \<open>
  C26. Sending a prediction never blocks and never loses the newest one. After
  \<open>GasPredictResultSend\<close>, however many messages the worker takes meanwhile, the channel is within
  its capacity, its last message is the prediction, and the rest is a final part of the old
  content followed by the gap event; the gap event is made exactly when blocks were skipped since
  the last one sent and then names all of them.
\<close>

theorem GasPredictResultSend_latest:
  assumes "client_ok c"
  shows "\<exists>n. chan_buf (gc_GasPredictCh (GasPredictResultSend k1 k2 k3 k4 (Some (Prediction p)) c)) =
      drop n (chan_buf (gc_GasPredictCh c) @ gap_before p c) @ [Some (Prediction p)] \<and>
    client_ok (GasPredictResultSend k1 k2 k3 k4 (Some (Prediction p)) c) \<and>
    (\<forall>f t. gap_before p c = [Some (Gap \<lparr>ge_FromBlock = f, ge_ToBlock = t\<rparr>)] \<longrightarrow>
      f \<le> t \<and> f = gc_LastSentBlock c + 1 \<and> t + 1 = pr_NextBlockNumber p)"
proof -
  let ?c = "if gc_LastSentBlock c \<noteq> 0 \<and> gc_LastSentBlock c + 1 < pr_NextBlockNumber p
    then enqueue k1 k2 (Some (Gap \<lparr>ge_FromBlock = gc_LastSentBlock c + 1, ge_ToBlock = pr_NextBlockNumber p - 1\<rparr>)) c
    else c"
  have run: "GasPredictResultSend k1 k2 k3 k4 (Some (Prediction p)) c = enqueue k3 k4 (Some (Prediction p)) ?c"
    by (simp add: GasPredictResultSend_def GetPrediction_of_def Let_def)
  have ok: "client_ok ?c" using enqueue_spec(1) [OF assms] assms by simp
  have "\<exists>m. chan_buf (gc_GasPredictCh ?c) = drop m (chan_buf (gc_GasPredictCh c) @ gap_before p c)"
  proof (cases "gap_before p c = []")
    case True
    then have c: "?c = c" by (auto simp: gap_before_def split: if_splits)
    show ?thesis unfolding c True by (rule exI [of _ 0]) simp
  next
    case False
    then have "?c = fold (enqueue k1 k2) (gap_before p c) c" by (simp add: gap_before_def split: if_splits)
    then show ?thesis using predictions.put_all_items [OF assms, of k1 k2 "gap_before p c"] by (simp only:)
  qed
  then obtain m where m: "chan_buf (gc_GasPredictCh ?c) = drop m (chan_buf (gc_GasPredictCh c) @ gap_before p c)" ..
  obtain k where "chan_buf (gc_GasPredictCh (enqueue k3 k4 (Some (Prediction p)) ?c)) =
      drop k (chan_buf (gc_GasPredictCh ?c)) @ [Some (Prediction p)]"
    using enqueue_spec(2) [OF ok, of k3 k4 "Some (Prediction p)"] ..
  then have "chan_buf (gc_GasPredictCh (enqueue k3 k4 (Some (Prediction p)) ?c)) =
      drop (k + m) (chan_buf (gc_GasPredictCh c) @ gap_before p c) @ [Some (Prediction p)]"
    by (simp only: m drop_drop)
  moreover have "client_ok (enqueue k3 k4 (Some (Prediction p)) ?c)" by (rule enqueue_spec(1) [OF ok])
  moreover have "f \<le> t \<and> f = gc_LastSentBlock c + 1 \<and> t + 1 = pr_NextBlockNumber p"
    if "gap_before p c = [Some (Gap \<lparr>ge_FromBlock = f, ge_ToBlock = t\<rparr>)]" for f t
  proof -
    have lt: "gc_LastSentBlock c + 1 < pr_NextBlockNumber p"
      and f: "f = gc_LastSentBlock c + 1" and t: "t = pr_NextBlockNumber p - 1"
      using that by (auto simp: gap_before_def split: if_splits)
    have "unat t = unat (pr_NextBlockNumber p) - 1"
      unfolding t using lt by (subst unat_sub) (simp_all add: word_le_nat_alt word_less_nat_alt)
    then have "f \<le> t" using lt unfolding f by (simp add: word_le_nat_alt word_less_nat_alt)
    with f t show ?thesis by simp
  qed
  ultimately show ?thesis unfolding run by blast
qed

definition sample_prediction :: "u64 \<Rightarrow> GasPredictionRequest" where
  "sample_prediction n =
     \<lparr>pr_NextBlockNumber = n, pr_NextBaseFee = 10, pr_PredictResult = fmempty, pr_UpdatedAt = 0\<rparr>"

text \<open>Blocks 101 to 104 were skipped.\<close>

theorem GasPredictResultSend_latest_witness:
  "\<exists>n. chan_buf (gc_GasPredictCh (GasPredictResultSend 0 0 1 0 (Some (Prediction (sample_prediction 105)))
        (newGasPredictClient\<lparr>gc_LastSentBlock := 100\<rparr>))) =
      drop n [Some (Gap \<lparr>ge_FromBlock = 101, ge_ToBlock = 104\<rparr>)] @ [Some (Prediction (sample_prediction 105))]"
proof -
  let ?c = "newGasPredictClient\<lparr>gc_LastSentBlock := 100\<rparr>"
  have ok: "client_ok ?c" by (simp add: client_ok_def newGasPredictClient_def)
  have "gap_before (sample_prediction 105) ?c = [Some (Gap \<lparr>ge_FromBlock = 101, ge_ToBlock = 104\<rparr>)]"
    "chan_buf (gc_GasPredictCh ?c) = []"
    by (simp_all add: gap_before_def sample_prediction_def newGasPredictClient_def)
  with GasPredictResultSend_latest [OF ok, of 0 0 1 0 "sample_prediction 105"] show ?thesis by auto
qed

section \<open>The stream worker\<close>

definition last_prediction :: "u64 \<Rightarrow> GasPredictionStream option list \<Rightarrow> u64" where
  "last_prediction n reqs = fold (\<lambda>req k. case GetPrediction_of req of None \<Rightarrow> k | Some p \<Rightarrow> pr_NextBlockNumber p) reqs n"

lemma processMsg_None:
  assumes "processMsg env req c w = (None, c', w')"
  shows "gc_LastSentBlock c' = (case GetPrediction_of req of None \<Rightarrow> gc_LastSentBlock c | Some p \<Rightarrow> pr_NextBlockNumber p)"
    "gc_FeeBucketCh c' = gc_FeeBucketCh c"
  using assms
  by (auto simp: processMsg_def GetPrediction_of_def split: option.splits prod.splits sum.splits if_splits
      GasPredictionStream.splits)

lemma processMsg_sent:
  assumes "processMsg env req c w = (None, c', w')"
    and "\<And>m w. sent (snd (se_Send env m w)) = sent w @ [m]" "\<And>w. sent (snd (se_Recv env w)) = sent w"
  shows "sent w' = sent w @ (case req of None \<Rightarrow> [] | Some m \<Rightarrow> [m])"
proof (cases req)
  case None
  with assms(1) show ?thesis by (simp add: processMsg_def)
next
  case (Some m)
  obtain e1 w1 where s: "se_Send env m w = (e1, w1)" by fastforce
  obtain r w2 where r: "se_Recv env w1 = (r, w2)" by fastforce
  from assms(1) Some s r have "w' = w2" by (auto simp: processMsg_def split: option.splits sum.splits if_splits)
  with Some s r assms(2) [of m w] assms(3) [of w1] show ?thesis by simp
qed

text \<open>The messages of the channel that are not nil, in order.\<close>

definition messages :: "GasPredictionStream option list \<Rightarrow> GasPredictionStream list" where
  "messages reqs = concat (map (\<lambda>req. case req of None \<Rightarrow> [] | Some m \<Rightarrow> [m]) reqs)"

text \<open>
  C36. Stream worker. Let \<open>sent\<close> be the messages the stream was given so far. When \<open>processStream\<close> comes to
  wait for messages with the stream intact, it has sent all that were in the channel, each once and in
  the order of the channel, and the number of the last sent block is that of the last prediction among
  them (unchanged when there was none).
\<close>

theorem processStream_drains:
  assumes "processStream env c w = (None, c', w')"
    and "\<And>m w. sent (snd (se_Send env m w)) = sent w @ [m]" "\<And>w. sent (snd (se_Recv env w)) = sent w"
  shows "chan_buf (gc_GasPredictCh c') = [] \<and>
    sent w' = sent w @ messages (chan_buf (gc_GasPredictCh c)) \<and>
    gc_LastSentBlock c' = last_prediction (gc_LastSentBlock c) (chan_buf (gc_GasPredictCh c))"
  using assms
proof (induction env c w rule: processStream.induct)
  case (1 env c w)
  from 1(2) have alive: "se_Done env w = None"
    by (simp add: processStream.simps [of env c w] split: option.splits)
  show ?case
  proof (cases "chan_buf (gc_GasPredictCh c)")
    case Nil
    with 1(2) alive show ?thesis by (simp add: processStream.simps [of env c w] last_prediction_def messages_def)
  next
    case (Cons req reqs)
    let ?c = "c\<lparr>gc_GasPredictCh := (gc_GasPredictCh c)\<lparr>chan_buf := reqs\<rparr>\<rparr>"
    obtain e c1 w1 where m: "processMsg env req ?c w = (e, c1, w1)" by (cases "processMsg env req ?c w") auto
    with Cons 1(2) alive have e: "e = None" and rest: "processStream env c1 w1 = (None, c', w')"
      by (auto simp: processStream.simps [of env c w] split: option.splits)
    note IH = 1(1) [OF alive Cons m [symmetric] e refl rest 1(3,4)]
    have "gc_GasPredictCh c1 = (gc_GasPredictCh c)\<lparr>chan_buf := reqs\<rparr>" using processMsg_ch [OF m] by simp
    moreover have "gc_LastSentBlock c1 =
        (case GetPrediction_of req of None \<Rightarrow> gc_LastSentBlock c | Some p \<Rightarrow> pr_NextBlockNumber p)"
      using processMsg_None(1) [OF m [unfolded e]] by (cases "GetPrediction_of req") simp_all
    ultimately show ?thesis
      using IH Cons processMsg_sent [OF m [unfolded e] 1(3,4)] by (simp add: last_prediction_def messages_def)
  qed
qed

definition sample_stream :: "GasPredictionStream list stream_env" where
  "sample_stream =
     \<lparr>se_Done = (\<lambda>_. None), se_Send = (\<lambda>m w. (None, w @ [m])),
      se_Recv = (\<lambda>w. (Inr \<lparr>sr_Success = True, sr_Message = ''''\<rparr>, w))\<rparr>"

theorem processStream_drains_witness:
  "\<exists>c' w'. processStream sample_stream
      (newGasPredictClient\<lparr>gc_GasPredictCh := \<lparr>chan_buf = [None, Some (Prediction (sample_prediction 7))], chan_cap = 3\<rparr>\<rparr>) [] =
      (None, c', w') \<and> w' = [Prediction (sample_prediction 7)] \<and> gc_LastSentBlock c' = 7"
proof -
  let ?c = "newGasPredictClient\<lparr>gc_GasPredictCh := \<lparr>chan_buf = [None, Some (Prediction (sample_prediction 7))], chan_cap = 3\<rparr>\<rparr>"
  have "\<exists>c' w'. processStream sample_stream ?c [] = (None, c', w')"
    by (simp add: processStream.simps processMsg_def sample_stream_def GetPrediction_of_def)
  then obtain c' w' where run: "processStream sample_stream ?c [] = (None, c', w')" by blast
  have log: "\<And>m w. id (snd (se_Send sample_stream m w)) = id w @ [m]"
    "\<And>w. id (snd (se_Recv sample_stream w)) = id w"
    by (simp_all add: sample_stream_def)
  from processStream_drains [OF run log]
  have "w' = [Prediction (sample_prediction 7)]" "gc_LastSentBlock c' = 7"
    by (simp_all add: last_prediction_def messages_def GetPrediction_of_def sample_prediction_def)
  with run show ?thesis by blast
qed

section \<open>Reconnecting\<close>

lemmas retry_defs = streamFastRetryDelay_def streamMaxRetryDelay_def streamFastRetryCount_def

lemma reconnects_bounds:
  assumes "streamFastRetryDelay \<le> snd st" "snd st \<le> streamMaxRetryDelay"
  shows "list_all (\<lambda>d. streamFastRetryDelay \<le> d \<and> d \<le> streamMaxRetryDelay) (reconnects bs st)"
  using assms
proof (induction bs arbitrary: st)
  case (Cons b bs)
  obtain d st' where r: "reconnect b st = (d, st')" by (cases "reconnect b st")
  have "streamFastRetryDelay \<le> d \<and> d \<le> streamMaxRetryDelay \<and>
      streamFastRetryDelay \<le> snd st' \<and> snd st' \<le> streamMaxRetryDelay"
    using r Cons.prems by (cases st) (auto simp: reconnect_def Let_def retry_defs split: if_splits)
  with Cons.IH [of st'] r show ?case by simp
qed simp

text \<open>
  Reconnect delays. Whatever the history of connections and failures, every delay is between 2
  and 30 seconds; a run of failures waits 2 seconds four times and then doubles up to 30.
\<close>

theorem reconnect_delays_bounded:
  "list_all (\<lambda>d. streamFastRetryDelay \<le> d \<and> d \<le> streamMaxRetryDelay)
     (reconnects bs (0, streamFastRetryDelay)) \<and>
   map (\<lambda>d. d div 1000000000) (reconnects (replicate 10 False) (0, streamFastRetryDelay)) =
     [2, 2, 2, 2, 4, 8, 16, 30, 30, 30]"
proof
  show "list_all (\<lambda>d. streamFastRetryDelay \<le> d \<and> d \<le> streamMaxRetryDelay)
     (reconnects bs (0, streamFastRetryDelay))"
    by (rule reconnects_bounds) (simp_all add: retry_defs)
qed code_simp

section \<open>Fee statistics\<close>

lemma feeAttempts_calls:
  assumes up: "\<And>req w. calls (snd (ue_Upload env req w)) = calls w + (1 :: nat)"
    and wait: "\<And>d w. calls (snd (WaitForRetry (ue_Select env) d w)) = calls w"
  shows "calls (snd (feeAttempts env delay req n e w)) \<le> calls w + n"
proof (induction n arbitrary: e w)
  case (Suc n)
  obtain res w1 where u: "ue_Upload env req w = (res, w1)" by fastforce
  obtain b w2 where v: "WaitForRetry (ue_Select env) delay w1 = (b, w2)" by fastforce
  have c: "calls w1 = calls w + 1" "calls w2 = calls w + 1"
    using up [of req w] wait [of delay w1] u v by simp_all
  show ?case using Suc [where w = w2] c by (auto simp: u v split: option.splits sum.splits bool.splits)
qed simp

lemma feeAttempts_exhausted:
  assumes up: "\<And>req w. calls (snd (ue_Upload env req w)) = calls w + (1 :: nat)"
    and wait: "\<And>d w. calls (snd (WaitForRetry (ue_Select env) d w)) = calls w"
    and alive: "\<And>w. ue_CtxErr env w = None" "\<And>d w. fst (WaitForRetry (ue_Select env) d w)"
    and fail: "\<And>req w. \<exists>err. judge (fst (ue_Upload env req w)) = Inl (err, False)"
  shows "0 < n \<Longrightarrow> fst (feeAttempts env delay req n e w) \<noteq> None \<and>
    calls (snd (feeAttempts env delay req n e w)) = calls w + n"
proof (induction n arbitrary: e w)
  case (Suc n)
  obtain res w1 where u: "ue_Upload env req w = (res, w1)" by fastforce
  obtain b w2 where v: "WaitForRetry (ue_Select env) delay w1 = (b, w2)" by fastforce
  obtain err where j: "judge res = Inl (err, False)" using fail [of req w] u by auto
  have c: "calls w1 = calls w + 1" "calls w2 = calls w + 1" "b"
    using up [of req w] wait [of delay w1] alive(2) [of delay w1] u v by simp_all
  show ?case using Suc.IH [where w = w2 and e = "Some err"] c by (cases n) (simp_all add: u v j alive(1))
qed simp

text \<open>
  C37. Attempts for fee statistics. \<open>sendFeeBucket\<close> uploads at most three times (\<open>calls\<close> counts the
  uploads the server has seen), and exactly three times, with an error, when the context stays
  alive and every answer is a failure that is not an invalid request.
\<close>

theorem sendFeeBucket_attempts:
  assumes "\<And>req w. calls (snd (ue_Upload env req w)) = calls w + (1 :: nat)"
    and "\<And>d w. calls (snd (WaitForRetry (ue_Select env) d w)) = calls w"
  shows "calls (snd (sendFeeBucket env req c w)) \<le> calls w + 3 \<and>
    ((\<forall>w. ue_CtxErr env w = None) \<and> (\<forall>d w. fst (WaitForRetry (ue_Select env) d w)) \<and>
     (\<forall>req w. \<exists>err. judge (fst (ue_Upload env req w)) = Inl (err, False)) \<longrightarrow>
       fst (sendFeeBucket env req c w) \<noteq> None \<and> calls (snd (sendFeeBucket env req c w)) = calls w + 3)"
  using feeAttempts_calls [of calls env, OF assms] feeAttempts_exhausted [of calls env 3, OF assms]
  by (auto simp: sendFeeBucket_def maxFeeBucketAttempts_def)

definition sample_unary :: "nat unary_env" where
  "sample_unary =
     \<lparr>ue_CtxErr = (\<lambda>_. None), ue_Upload = (\<lambda>_ w. (Inl ''unavailable'', w + 1)), ue_Select = (\<lambda>_ w. (TimerFired, w)), ue_Done = (\<lambda>_. False)\<rparr>"

theorem sendFeeBucket_attempts_witness:
  "snd (sendFeeBucket sample_unary \<lparr>fs_Buckets = [], fs_UpdatedAt = 0\<rparr> newGasPredictClient 0) = 3"
  using sendFeeBucket_attempts [of "\<lambda>w. w" sample_unary "\<lparr>fs_Buckets = [], fs_UpdatedAt = 0\<rparr>" newGasPredictClient 0]
  by (simp add: sample_unary_def judge_def WaitForRetry_def)

end
