(* ===== verification/Report.thy ===== *)
theory Report
  imports Go_Prelude
begin

text \<open>
  The process-wide counters (\<open>internal/report\<close>). Every update is one atomic addition or swap on a
  \<open>uint64\<close>, so a history of the program is a list of events. The reporter swaps each counter with
  zero and prints what it read; the three swaps of a tick are separate, but they concern three
  counters, and each counter sees its own events in one order.
\<close>

section \<open>Error counters\<close>

record ErrorCount =
  er_TxRPCFailed :: u64
  er_TxIndividualRPCFailed :: u64
  er_BlockReceiptRPCFailed :: u64
  er_BlockProcessingFailed :: u64
  er_BlockDropped :: u64
  er_FeeHistoryFailed :: u64

definition IncTxRPCFailed :: "ErrorCount \<Rightarrow> ErrorCount" where
  "IncTxRPCFailed e = e\<lparr>er_TxRPCFailed := er_TxRPCFailed e + 1\<rparr>"

definition IncTxIndividualRPCFailed :: "ErrorCount \<Rightarrow> ErrorCount" where
  "IncTxIndividualRPCFailed e = e\<lparr>er_TxIndividualRPCFailed := er_TxIndividualRPCFailed e + 1\<rparr>"

definition IncBlockReceiptRPCFailed :: "ErrorCount \<Rightarrow> ErrorCount" where
  "IncBlockReceiptRPCFailed e = e\<lparr>er_BlockReceiptRPCFailed := er_BlockReceiptRPCFailed e + 1\<rparr>"

definition IncBlockProcessingFailed :: "ErrorCount \<Rightarrow> ErrorCount" where
  "IncBlockProcessingFailed e = e\<lparr>er_BlockProcessingFailed := er_BlockProcessingFailed e + 1\<rparr>"

definition IncBlockDropped :: "ErrorCount \<Rightarrow> ErrorCount" where
  "IncBlockDropped e = e\<lparr>er_BlockDropped := er_BlockDropped e + 1\<rparr>"

definition IncFeeHistoryFailed :: "ErrorCount \<Rightarrow> ErrorCount" where
  "IncFeeHistoryFailed e = e\<lparr>er_FeeHistoryFailed := er_FeeHistoryFailed e + 1\<rparr>"

section \<open>Throughput counters\<close>

record Count =
  ct_PendingTx :: u64
  ct_TxFeched :: u64
  ct_MempoolStored :: u64

definition zero_Count :: Count where
  "zero_Count = \<lparr>ct_PendingTx = 0, ct_TxFeched = 0, ct_MempoolStored = 0\<rparr>"

definition IncPendginRecieved :: "Count \<Rightarrow> Count" where
  "IncPendginRecieved m = m\<lparr>ct_PendingTx := ct_PendingTx m + 1\<rparr>"

definition IncTxFetched :: "u64 \<Rightarrow> Count \<Rightarrow> Count" where
  "IncTxFetched cnt m = m\<lparr>ct_TxFeched := ct_TxFeched m + cnt\<rparr>"

definition IncMempoolStored :: "Count \<Rightarrow> Count" where
  "IncMempoolStored m = m\<lparr>ct_MempoolStored := ct_MempoolStored m + 1\<rparr>"

text \<open>One tick of \<open>StartReporter\<close>: the line it prints and the counters after the swaps.\<close>

definition reporterTick :: "Count \<Rightarrow> (u64 \<times> u64 \<times> u64) \<times> Count" where
  "reporterTick m =
     ((ct_PendingTx m, ct_TxFeched m, ct_MempoolStored m),
      m\<lparr>ct_PendingTx := 0, ct_TxFeched := 0, ct_MempoolStored := 0\<rparr>)"

datatype count_event = PendingReceived | TxFetched u64 | MempoolStored | Tick

fun run_counts :: "count_event list \<Rightarrow> Count \<Rightarrow> (u64 \<times> u64 \<times> u64) list \<times> Count" where
  "run_counts [] m = ([], m)"
| "run_counts (PendingReceived # es) m = run_counts es (IncPendginRecieved m)"
| "run_counts (TxFetched n # es) m = run_counts es (IncTxFetched n m)"
| "run_counts (MempoolStored # es) m = run_counts es (IncMempoolStored m)"
| "run_counts (Tick # es) m =
     (case reporterTick m of (line, m) \<Rightarrow> case run_counts es m of (lines, m) \<Rightarrow> (line # lines, m))"

lemma run_counts_balance:
  assumes "run_counts es m = (lines, m')"
  shows "sum_list (map fst lines) + ct_PendingTx m' =
      ct_PendingTx m + of_nat (length (filter (\<lambda>e. e = PendingReceived) es))"
    "sum_list (map (\<lambda>l. fst (snd l)) lines) + ct_TxFeched m' =
      ct_TxFeched m + sum_list (map (\<lambda>e. case e of TxFetched n \<Rightarrow> n | _ \<Rightarrow> 0) es)"
    "sum_list (map (\<lambda>l. snd (snd l)) lines) + ct_MempoolStored m' =
      ct_MempoolStored m + of_nat (length (filter (\<lambda>e. e = MempoolStored) es))"
  using assms
proof (induction es m arbitrary: lines m' rule: run_counts.induct)
  case (5 es m)
  { case 1 with 5 show ?case by (auto simp: reporterTick_def split: prod.splits) }
  { case 2 with 5 show ?case by (auto simp: reporterTick_def split: prod.splits) }
  { case 3 with 5 show ?case by (auto simp: reporterTick_def split: prod.splits) }
qed (auto simp: IncPendginRecieved_def IncTxFetched_def IncMempoolStored_def algebra_simps)

text \<open>
  Nothing is counted twice or lost. Over any history that starts with zero counters, the
  numbers the reporter has printed for a counter and the number still in it add up to what was
  added (in 64-bit arithmetic).
\<close>

theorem reporter_conserves_counts:
  assumes "run_counts es zero_Count = (lines, m)"
  shows "sum_list (map fst lines) + ct_PendingTx m = of_nat (length (filter (\<lambda>e. e = PendingReceived) es)) \<and>
    sum_list (map (\<lambda>l. fst (snd l)) lines) + ct_TxFeched m =
      sum_list (map (\<lambda>e. case e of TxFetched n \<Rightarrow> n | _ \<Rightarrow> 0) es) \<and>
    sum_list (map (\<lambda>l. snd (snd l)) lines) + ct_MempoolStored m =
      of_nat (length (filter (\<lambda>e. e = MempoolStored) es))"
  using run_counts_balance [OF assms] by (simp add: zero_Count_def)

theorem reporter_conserves_counts_witness:
  "\<exists>lines m. run_counts [PendingReceived, TxFetched 8, Tick, PendingReceived] zero_Count = (lines, m) \<and>
     sum_list (map fst lines) + ct_PendingTx m = 2"
proof -
  obtain lines m where run: "run_counts [PendingReceived, TxFetched 8, Tick, PendingReceived] zero_Count = (lines, m)"
    by fastforce
  from reporter_conserves_counts [OF run] run show ?thesis by auto
qed

end
