(* ===== verification/Eth_Processor.thy ===== *)
theory Eth_Processor
  imports Gas_Analyzer_Props Rpc_Manager Grpc_Client_Props Report
begin

text \<open>
  The block processor (\<open>internal/processor\<close>): the component that calls all others. The record
  \<open>Process\<close> holds their states and the state of the world outside; an operation maps it to a
  result and the new record, and \<open>None\<close> is a panic. The ethclient calls are the record \<open>eth_api\<close>
  over the world; each goes through \<open>EthClientFunc\<close> of the RPC manager, with the cost the code
  gives it. What Go leaves open (orders of map ranges, ties of the sort, out-of-range
  conversions) and the messages the gRPC worker takes meanwhile are fields of \<open>proc_env\<close>.
  Log output is not modelled.
\<close>

section \<open>Environment, errors and state\<close>

record FeeHistory =
  fh_Reward :: "int option list list"
  fh_BaseFee :: "int option list"

record ('c, 'w) eth_api =
  api_HeaderByNumber :: "'c \<Rightarrow> u64 option \<Rightarrow> 'w \<Rightarrow> (string + Header option) \<times> 'w"
  api_BlockReceipts :: "'c \<Rightarrow> Hash \<Rightarrow> 'w \<Rightarrow> (string + Receipt option list) \<times> 'w"
  api_TxCount :: "'c \<Rightarrow> Hash \<Rightarrow> 'w \<Rightarrow> (string + string) \<times> 'w"
  api_FeeHistory :: "'c \<Rightarrow> int \<Rightarrow> float64 list \<Rightarrow> 'w \<Rightarrow> (string + FeeHistory) \<times> 'w"
  api_BatchTx :: "'c \<Rightarrow> Hash list \<Rightarrow> 'w \<Rightarrow> (string + (nat \<Rightarrow> string option \<times> Transaction option)) \<times> 'w"
  api_BatchReceipt :: "'c \<Rightarrow> Hash list \<Rightarrow> 'w \<Rightarrow> (string + (nat \<Rightarrow> string option \<times> Receipt option)) \<times> 'w"
  api_DecodeUint64 :: "string \<Rightarrow> string + u64"

record ('c, 'w) proc_env =
  pe_rpc :: "('c, 'w) rpc_env"
  pe_api :: "('c, 'w) eth_api"
  pe_ordStat :: "u32 fset \<Rightarrow> u32 list"
  pe_ordBlock :: "u64 fset \<Rightarrow> u64 list"
  pe_sort :: "WeightedTip list \<Rightarrow> WeightedTip list"
  pe_oor :: "float64 \<Rightarrow> u64"
  pe_k1 :: nat
  pe_k2 :: nat

datatype ProcError =
    ErrLatestBlockHeaderNil
  | ErrLatestBlockNumberNil
  | ErrLatestBlockHeaderFetch rpc_error
  | ErrReceiptsCall rpc_error
  | ErrTxCountCall rpc_error
  | ErrDecodeTxCount string
  | ErrReceiptMismatch u64
  | ErrBlockReceiptsEmpty
  | ErrBlockReceiptFetch ProcError
  | ErrFetchReceipts u64 ProcError
  | ErrHeaderCall rpc_error
  | ErrHeaderNotFound
  | ErrInvalidBlockHeader

record ('c, 'w) Process =
  ps_pool :: PendingMemPool
  ps_store :: Store
  ps_rpc :: "'c RPCManager"
  ps_analyzer :: Analyzer
  ps_grpc :: GasPredictionClient
  ps_errors :: ErrorCount
  ps_counts :: Count
  ps_world :: 'w

definition getTxChunkSize :: nat where "getTxChunkSize = 8"
definition getTxCuPerTx :: int where "getTxCuPerTx = 11"
definition feeHistoryCu :: int where "feeHistoryCu = 15"
definition getBlockTxCountCu :: int where "getBlockTxCountCu = 20"
definition getBlockByNumberCu :: int where "getBlockByNumberCu = 16"
definition receiptChunkSize :: nat where "receiptChunkSize = 30"
definition receiptCuPerTx :: int where "receiptCuPerTx = 15"
definition getBlockReceiptCu :: int where "getBlockReceiptCu = 250"

lemmas cost_defs = getTxChunkSize_def getTxCuPerTx_def feeHistoryCu_def getBlockTxCountCu_def
  getBlockByNumberCu_def receiptChunkSize_def receiptCuPerTx_def getBlockReceiptCu_def

definition mkCost :: "int \<Rightarrow> int \<Rightarrow> RPCCost" where
  "mkCost cu n = \<lparr>co_CU = cu, co_RPC = n\<rparr>"

definition rpcCall ::
  "('c, 'w) proc_env \<Rightarrow> RPCCost \<Rightarrow> ('c \<Rightarrow> 'w \<Rightarrow> (string + 'r) \<times> 'w) \<Rightarrow> ('c, 'w) Process \<Rightarrow>
   (rpc_error + 'r) \<times> ('c, 'w) Process" where
  "rpcCall env cost fn p =
     (case EthClientFunc (pe_rpc env) cost fn (ps_rpc p) (ps_world p) of
        (res, r, w) \<Rightarrow> (res, p\<lparr>ps_rpc := r, ps_world := w\<rparr>))"

definition readClock :: "('c, 'w) proc_env \<Rightarrow> ('c, 'w) Process \<Rightarrow> Time \<times> ('c, 'w) Process" where
  "readClock env p =
     (case env_Now (pe_rpc env) (ps_world p) of (now, w) \<Rightarrow> (now, p\<lparr>ps_world := w\<rparr>))"

section \<open>Pending transactions\<close>

text \<open>The results of one chunk: the individual errors are counted, the rest is collected.\<close>

fun collectResults ::
  "(nat \<Rightarrow> string option \<times> Transaction option) \<Rightarrow> nat list \<Rightarrow> Transaction option list \<Rightarrow> ErrorCount \<Rightarrow>
   Transaction option list \<times> ErrorCount" where
  "collectResults elem [] valid e = (valid, e)"
| "collectResults elem (j # js) valid e =
     (case elem j of
        (Some err, _) \<Rightarrow> collectResults elem js valid (IncTxIndividualRPCFailed e)
      | (None, None) \<Rightarrow> collectResults elem js valid e
      | (None, Some tx) \<Rightarrow> collectResults elem js (valid @ [Some tx]) e)"

definition getTxChunk :: "('c, 'w) proc_env \<Rightarrow> Hash list \<Rightarrow> ('c, 'w) Process \<Rightarrow> ('c, 'w) Process" where
  "getTxChunk env chunkHashes p =
     (let chunkSize = length chunkHashes;
          cost = mkCost (int chunkSize * getTxCuPerTx) (int chunkSize)
      in case rpcCall env cost (\<lambda>c. api_BatchTx (pe_api env) c chunkHashes) p of
           (Inl err, p) \<Rightarrow> p\<lparr>ps_errors := IncTxRPCFailed (ps_errors p)\<rparr>
         | (Inr elem, p) \<Rightarrow>
             (case collectResults elem [0 ..< chunkSize] [] (ps_errors p) of
                (validResults, e) \<Rightarrow>
                  let p = p\<lparr>ps_errors := e\<rparr>
                  in if validResults = [] then p
                     else
                       let (blockNum, blockTime) = GetCurrentBlockNumAndTime (ps_analyzer p)
                       in p\<lparr>ps_counts := IncTxFetched (of_nat (length validResults)) (ps_counts p),
                            ps_pool := PushBatch validResults blockNum blockTime (ps_pool p)\<rparr>))"

function getTxLoop :: "('c, 'w) proc_env \<Rightarrow> Hash list \<Rightarrow> ('c, 'w) Process \<Rightarrow> ('c, 'w) Process" where
  "getTxLoop env hashes p =
     (if hashes = [] then p
      else getTxLoop env (drop getTxChunkSize hashes) (getTxChunk env (take getTxChunkSize hashes) p))"
  by pat_completeness auto
termination
  by (relation "measure (\<lambda>(_, hashes, _). length hashes)") (auto simp: getTxChunkSize_def)

declare getTxLoop.simps [simp del]

definition GetTxInfo :: "('c, 'w) proc_env \<Rightarrow> Hash list \<Rightarrow> ('c, 'w) Process \<Rightarrow> ('c, 'w) Process" where
  "GetTxInfo env hashes p = (if hashes = [] then p else getTxLoop env hashes p)"

section \<open>Fetching\<close>

definition fetchBlockReceipts ::
  "('c, 'w) proc_env \<Rightarrow> Hash \<Rightarrow> ('c, 'w) Process \<Rightarrow> (ProcError + Receipt option list) \<times> ('c, 'w) Process" where
  "fetchBlockReceipts env blockHash p =
     (case rpcCall env (mkCost getBlockReceiptCu 1) (\<lambda>c. api_BlockReceipts (pe_api env) c blockHash) p of
        (Inl err, p) \<Rightarrow> (Inl (ErrReceiptsCall err), p)
      | (Inr receipts, p) \<Rightarrow>
          if receipts \<noteq> [] then (Inr receipts, p)
          else
            (case rpcCall env (mkCost getBlockTxCountCu 1) (\<lambda>c. api_TxCount (pe_api env) c blockHash) p of
               (Inl err, p) \<Rightarrow> (Inl (ErrTxCountCall err), p)
             | (Inr txCountHex, p) \<Rightarrow>
                 (case api_DecodeUint64 (pe_api env) txCountHex of
                    Inl err \<Rightarrow> (Inl (ErrDecodeTxCount err), p)
                  | Inr txCount \<Rightarrow>
                      if txCount > 0 then (Inl (ErrReceiptMismatch txCount), p) else (Inr receipts, p))))"

text \<open>\<open>fetchReceiptsBatch\<close>, which no other code calls: one RPC batch per chunk of 30 transactions.\<close>

function receiptsBatchLoop ::
  "('c, 'w) proc_env \<Rightarrow> Hash list \<Rightarrow> Receipt list \<Rightarrow> ('c, 'w) Process \<Rightarrow>
   (rpc_error + Receipt list) \<times> ('c, 'w) Process" where
  "receiptsBatchLoop env txs receipts p =
     (if txs = [] then (Inr receipts, p)
      else
        let chunk = take receiptChunkSize txs; chunkSize = length chunk;
            cost = mkCost (int chunkSize * receiptCuPerTx) (int chunkSize)
        in case rpcCall env cost (\<lambda>c. api_BatchReceipt (pe_api env) c chunk) p of
             (Inl err, p) \<Rightarrow> (Inl err, p)
           | (Inr elem, p) \<Rightarrow>
               receiptsBatchLoop env (drop receiptChunkSize txs)
                 (receipts @ List.map_filter (\<lambda>j. case elem j of (Some _, _) \<Rightarrow> None | (None, r) \<Rightarrow> r) [0 ..< chunkSize]) p)"
  by pat_completeness auto
termination
  by (relation "measure (\<lambda>(_, txs, _, _). length txs)") (auto simp: receiptChunkSize_def)

declare receiptsBatchLoop.simps [simp del]

definition fetchReceiptsBatch ::
  "('c, 'w) proc_env \<Rightarrow> Hash list \<Rightarrow> ('c, 'w) Process \<Rightarrow> (rpc_error + Receipt list) \<times> ('c, 'w) Process" where
  "fetchReceiptsBatch env txs p = (if txs = [] then (Inr [], p) else receiptsBatchLoop env txs [] p)"

definition getLastestBlockHeader ::
  "('c, 'w) proc_env \<Rightarrow> ('c, 'w) Process \<Rightarrow> (ProcError + Header) \<times> ('c, 'w) Process" where
  "getLastestBlockHeader env p =
     (case rpcCall env (mkCost getBlockReceiptCu 1) (\<lambda>c. api_HeaderByNumber (pe_api env) c None) p of
        (Inl err, p) \<Rightarrow> (Inl (ErrLatestBlockHeaderFetch err), p)
      | (Inr None, p) \<Rightarrow> (Inl ErrLatestBlockHeaderNil, p)
      | (Inr (Some header), p) \<Rightarrow>
          if hd_Number header = None then (Inl ErrLatestBlockNumberNil, p) else (Inr header, p))"

definition HeaderByNumber ::
  "('c, 'w) proc_env \<Rightarrow> u64 \<Rightarrow> ('c, 'w) Process \<Rightarrow> (ProcError + Header) \<times> ('c, 'w) Process" where
  "HeaderByNumber env number p =
     (case rpcCall env (mkCost getBlockByNumberCu 1) (\<lambda>c. api_HeaderByNumber (pe_api env) c (Some number)) p of
        (Inl err, p) \<Rightarrow> (Inl (ErrHeaderCall err), p)
      | (Inr None, p) \<Rightarrow> (Inl ErrHeaderNotFound, p)
      | (Inr (Some header), p) \<Rightarrow> (Inr header, p))"

section \<open>Block data\<close>

definition receiptTxInfo :: "Header \<Rightarrow> Receipt option \<Rightarrow> TxInfo option" where
  "receiptTxInfo header receipt =
     (case receipt of
        None \<Rightarrow> None
      | Some r \<Rightarrow>
          (case EffectiveTipFromReceipt (rc_EffectiveGasPrice r) (hd_BaseFee header) of
             (tip, ok) \<Rightarrow>
               if \<not> ok then None
               else Some
                 \<lparr>ti_Hash = rc_TxHash r, ti_Tip = tip, ti_GasUsed = rc_GasUsed r,
                  ti_GasWeight = CalculateWeightForGasUsed (rc_GasUsed r) (hd_GasLimit header)\<rparr>))"

definition CalculateBlockTxTip :: "Header \<Rightarrow> Receipt option list \<Rightarrow> BlockData go" where
  "CalculateBlockTxTip header receipts =
     do {
       num \<leftarrow> hd_Number header;
       ret \<lparr>bd_Number = big_Uint64 num, bd_BaseFee = hd_BaseFee header, bd_GasLimit = hd_GasLimit header,
            bd_Txs = List.map_filter (receiptTxInfo header) receipts, bd_FeeBuckets = []\<rparr>
     }"

definition ClearMempoolToReceipts ::
  "('c, 'w) proc_env \<Rightarrow> Header \<Rightarrow> Receipt option list \<Rightarrow> ('c, 'w) Process \<Rightarrow>
   (FeeBucketStat list \<times> ('c, 'w) Process) go" where
  "ClearMempoolToReceipts env header receipts p =
     (if receipts = [] then ret ([], p)
      else do {
        (feeBucket, removedCnt, pool) \<leftarrow> RemoveByReceipts (pe_ordStat env) header receipts (ps_pool p);
        ret (feeBucket, p\<lparr>ps_pool := pool\<rparr>)
      })"

definition removeExpired :: "('c, 'w) proc_env \<Rightarrow> u64 \<Rightarrow> ('c, 'w) Process \<Rightarrow> ('c, 'w) Process" where
  "removeExpired env blockNum p =
     p\<lparr>ps_pool := fst (RemoveExpired (pe_ordBlock env) blockNum (ps_pool p))\<rparr>"

text \<open>The weighted tips of the stored blocks, newest first, as far as the decay table reaches.\<close>

definition blockPool :: "float64 list \<Rightarrow> BlockData list \<Rightarrow> WeightedTip list" where
  "blockPool decayTable blockData =
     concat (map (\<lambda>(b, decay).
         map (\<lambda>tx. \<lparr>wt_Tip = ti_Tip tx, wt_Weight = f64_mul (ti_GasWeight tx) decay\<rparr>) (bd_Txs b))
       (zip blockData decayTable))"

definition UpdateBlockInfoForAnalysis ::
  "('c, 'w) proc_env \<Rightarrow> Header \<Rightarrow> ('c, 'w) Process \<Rightarrow> (('c, 'w) Process) go" where
  "UpdateBlockInfoForAnalysis env header p =
     (if hd_Number header = None then ret p
      else do {
        nextBaseFee \<leftarrow> CalculateNextBaseFee (hd_BaseFee header) (hd_GasUsed header) (hd_GasLimit header);
        let blockData = GetBlockData (ps_store p);
        if blockData = [] then ret p
        else do {
          let pool = blockPool (DecayValues (ps_analyzer p)) blockData;
          (blockResult, cutoff) \<leftarrow> BlockPercentiles (pe_sort env) (pe_oor env) pool;
          let (now, p) = readClock env p;
          a \<leftarrow> UpdateLatestBlockData now header (big_Uint64 nextBaseFee) cutoff (ps_analyzer p);
          ret (p\<lparr>ps_analyzer := UpdateAnalBlockTxPredictionGasResult blockResult a\<rparr>)
        }
      })"

section \<open>Fee statistics\<close>

definition addStat :: "FeeBucketStat \<Rightarrow> FeeBucketStat \<Rightarrow> FeeBucketStat" where
  "addStat bucket stat =
     stat\<lparr>fb_TxCount := fb_TxCount stat + fb_TxCount bucket,
          fb_TotalWaitBlocks := fb_TotalWaitBlocks stat + fb_TotalWaitBlocks bucket,
          fb_TotalWaitSeconds := fb_TotalWaitSeconds stat + fb_TotalWaitSeconds bucket,
          fb_WaitBlockCount := map2 (+) (fb_WaitBlockCount stat) (fb_WaitBlockCount bucket)\<rparr>"

definition aggregateStep :: "FeeBucketStat \<Rightarrow> (u32, FeeBucketStat) fmap \<Rightarrow> (u32, FeeBucketStat) fmap" where
  "aggregateStep bucket stats =
     (let stat = (case fmlookup stats (fb_Bucket bucket) of
          None \<Rightarrow> zero_stat (fb_Bucket bucket) | Some s \<Rightarrow> s)
      in fmupd (fb_Bucket bucket) (addStat bucket stat) stats)"

definition aggregateFeeBucket :: "BlockData list \<Rightarrow> (u32, FeeBucketStat) fmap" where
  "aggregateFeeBucket blockData = fold (\<lambda>block. fold aggregateStep (bd_FeeBuckets block)) blockData fmempty"

definition getFeeBucketRange :: "u32 \<Rightarrow> float64 \<times> float64" where
  "getFeeBucketRange bucket =
     (let weiPerGwei = Fin 1000000000;
          width = f64_div (Fin (of_int FeeBucketSize)) weiPerGwei;
          minP = f64_mul width (f64_of_u32 bucket)
      in (minP, f64_add minP width))"

definition waitCounts :: "u32 list \<Rightarrow> WaitBlockCount list" where
  "waitCounts counts =
     List.map_filter (\<lambda>(waitBlock, txCount).
         if txCount = 0 then None else Some \<lparr>wb_WaitBlock = of_nat waitBlock, wb_TxCount = txCount\<rparr>)
       (List.enumerate 0 counts)"

definition toProto :: "FeeBucketStat \<Rightarrow> FeeBucket option" where
  "toProto stat =
     (if fb_TxCount stat = 0 then None
      else
        let (minP, maxP) = getFeeBucketRange (fb_Bucket stat)
        in Some
          \<lparr>fe_Bucket = fb_Bucket stat, fe_MinPriority = minP, fe_MaxPriority = maxP,
           fe_TotalTxCount = fb_TxCount stat,
           fe_AvrWaitBlocks = f64_div (f64_of_u64 (fb_TotalWaitBlocks stat)) (f64_of_u32 (fb_TxCount stat)),
           fe_AvrWaitSeconds = f64_div (f64_of_u64 (fb_TotalWaitSeconds stat)) (f64_of_u32 (fb_TxCount stat)),
           fe_WaitBlockCount = waitCounts (fb_WaitBlockCount stat)\<rparr>)"

definition convertFeeBucketToProto ::
  "(u32 fset \<Rightarrow> u32 list) \<Rightarrow> (u32, FeeBucketStat) fmap \<Rightarrow> FeeBucket list" where
  "convertFeeBucketToProto ord stats =
     List.map_filter toProto (List.map_filter (fmlookup stats) (ord (fmdom stats)))"

text \<open>The buckets have distinct numbers, so the sort by number has one result.\<close>

definition feeStatistics :: "(u32 fset \<Rightarrow> u32 list) \<Rightarrow> BlockData list \<Rightarrow> FeeBucket list" where
  "feeStatistics ord blockData =
     sort_key fe_Bucket (convertFeeBucketToProto ord (aggregateFeeBucket blockData))"

definition SendFeeBucketsToGrpc :: "('c, 'w) proc_env \<Rightarrow> ('c, 'w) Process \<Rightarrow> ('c, 'w) Process" where
  "SendFeeBucketsToGrpc env p =
     (let blockData = GetBlockData (ps_store p)
      in if blockData = [] then p
         else
           let stats = aggregateFeeBucket blockData
           in if stats = fmempty then p
              else
                let buckets = feeStatistics (pe_ordStat env) blockData
                in if buckets = [] then p
                   else
                     let (now, p) = readClock env p
                     in p\<lparr>ps_grpc := FeeBucketSend (pe_k1 env) (pe_k2 env)
                            \<lparr>fs_Buckets = buckets, fs_UpdatedAt = now\<rparr> (ps_grpc p)\<rparr>)"

section \<open>The operations of the processor\<close>

definition NewProcess ::
  "PendingMemPool \<Rightarrow> Store \<Rightarrow> 'c RPCManager \<Rightarrow> Analyzer \<Rightarrow> GasPredictionClient \<Rightarrow> ErrorCount \<Rightarrow> Count \<Rightarrow> 'w \<Rightarrow>
   ('c, 'w) Process" where
  "NewProcess pendingPool blockstore rpcManager gasanalyzer grpcClient errs counts w =
     \<lparr>ps_pool = pendingPool, ps_store = blockstore, ps_rpc = rpcManager, ps_analyzer = gasanalyzer,
      ps_grpc = grpcClient, ps_errors = errs, ps_counts = counts, ps_world = w\<rparr>"

definition incErrors :: "(ErrorCount \<Rightarrow> ErrorCount) \<Rightarrow> ('c, 'w) Process \<Rightarrow> ('c, 'w) Process" where
  "incErrors f p = p\<lparr>ps_errors := f (ps_errors p)\<rparr>"

definition ProcessBlock ::
  "('c, 'w) proc_env \<Rightarrow> Header option \<Rightarrow> ('c, 'w) Process \<Rightarrow> (ProcError option \<times> ('c, 'w) Process) go" where
  "ProcessBlock env hdr p =
     (case hdr of
        None \<Rightarrow> ret (Some ErrLatestBlockHeaderNil, incErrors IncBlockProcessingFailed p)
      | Some header \<Rightarrow>
          (case hd_Number header of
             None \<Rightarrow> ret (Some ErrLatestBlockNumberNil, incErrors IncBlockProcessingFailed p)
           | Some num \<Rightarrow>
               let blockNumber = big_Uint64 num
               in case fetchBlockReceipts env (hd_Hash header) p of
                    (Inl err, p) \<Rightarrow>
                      ret (Some (ErrFetchReceipts blockNumber err),
                           incErrors IncBlockProcessingFailed (incErrors IncBlockReceiptRPCFailed p))
                  | (Inr receipts, p) \<Rightarrow>
                      if receipts = [] then
                        do {
                          p \<leftarrow> UpdateBlockInfoForAnalysis env header (removeExpired env blockNumber p);
                          ret (None, p)
                        }
                      else
                        do {
                          blockData \<leftarrow> CalculateBlockTxTip header receipts;
                          (feeBuckets, p) \<leftarrow> ClearMempoolToReceipts env header receipts p;
                          let p = p\<lparr>ps_store := AddBlock (blockData\<lparr>bd_FeeBuckets := feeBuckets\<rparr>) (ps_store p)\<rparr>;
                          p \<leftarrow> UpdateBlockInfoForAnalysis env header (removeExpired env blockNumber p);
                          ret (None, SendFeeBucketsToGrpc env p)
                        }))"

definition initialFromHeader ::
  "('c, 'w) proc_env \<Rightarrow> Header \<Rightarrow> ('c, 'w) Process \<Rightarrow> (ProcError option \<times> ('c, 'w) Process) go" where
  "initialFromHeader env header p =
     (case fetchBlockReceipts env (hd_Hash header) p of
        (Inl err, p) \<Rightarrow> ret (Some (ErrBlockReceiptFetch err), p)
      | (Inr receipt, p) \<Rightarrow>
          if receipt = [] then ret (Some ErrBlockReceiptsEmpty, p)
          else
            do {
              blockData \<leftarrow> CalculateBlockTxTip header receipt;
              p \<leftarrow> UpdateBlockInfoForAnalysis env header (p\<lparr>ps_store := AddBlock blockData (ps_store p)\<rparr>);
              ret (None, p)
            })"

definition Initialize ::
  "('c, 'w) proc_env \<Rightarrow> ('c, 'w) Process \<Rightarrow> ((ProcError + Header) \<times> ('c, 'w) Process) go" where
  "Initialize env p =
     (case getLastestBlockHeader env p of
        (Inl err, p) \<Rightarrow> ret (Inl err, p)
      | (Inr header, p) \<Rightarrow>
          do {
            (err, p) \<leftarrow> initialFromHeader env header p;
            case err of
              Some e \<Rightarrow> ret (Inl e, p)
            | None \<Rightarrow> ret (Inr header, p\<lparr>ps_analyzer := SetReady (ps_analyzer p)\<rparr>)
          })"

definition CleanupFailedBlock ::
  "('c, 'w) proc_env \<Rightarrow> Header option \<Rightarrow> ('c, 'w) Process \<Rightarrow> (ProcError option \<times> ('c, 'w) Process) go" where
  "CleanupFailedBlock env hdr p =
     (case hdr of
        None \<Rightarrow> ret (Some ErrInvalidBlockHeader, p)
      | Some header \<Rightarrow>
          (case hd_Number header of
             None \<Rightarrow> ret (Some ErrInvalidBlockHeader, p)
           | Some num \<Rightarrow>
            let blockNum = big_Uint64 num in
            (case fetchBlockReceipts env (hd_Hash header) p of
               (Inl err, p) \<Rightarrow> ret (Some (ErrFetchReceipts blockNum err), incErrors IncBlockReceiptRPCFailed p)
             | (Inr receipts, p) \<Rightarrow>
                 if receipts = [] then ret (None, p)
                 else
                   do {
                     (_, removedCnt, pool) \<leftarrow> RemoveByReceipts (pe_ordStat env) header receipts (ps_pool p);
                     ret (None, p\<lparr>ps_pool := pool\<rparr>)
                   })))"

definition Resync ::
  "('c, 'w) proc_env \<Rightarrow> ('c, 'w) Process \<Rightarrow> ((ProcError + Header) \<times> ('c, 'w) Process) go" where
  "Resync env p =
     (case getLastestBlockHeader env p of
        (Inl err, p) \<Rightarrow> ret (Inl err, p)
      | (Inr latest, p) \<Rightarrow>
          (case fetchBlockReceipts env (hd_Hash latest) p of
             (Inl err, p) \<Rightarrow> ret (Inl (ErrBlockReceiptFetch err), incErrors IncBlockReceiptRPCFailed p)
           | (Inr receipt, p) \<Rightarrow>
               if receipt = [] then ret (Inl ErrBlockReceiptsEmpty, p)
               else
                 do {
                   let p = p\<lparr>ps_analyzer := Analyzer_Reset (ps_analyzer p), ps_store := Store_Clear (ps_store p)\<rparr>;
                   blockData \<leftarrow> CalculateBlockTxTip latest receipt;
                   p \<leftarrow> UpdateBlockInfoForAnalysis env latest (p\<lparr>ps_store := AddBlock blockData (ps_store p)\<rparr>);
                   ret (Inr latest,
                        p\<lparr>ps_pool := Pool_Clear (ps_pool p), ps_analyzer := SetReady (ps_analyzer p)\<rparr>)
                 }))"

section \<open>Comparison with the fee history\<close>

text \<open>
  One printed line: the level's name and, when the analyzer has the level, its block and pending
  fees, the blended fee, the actual tip and the difference, as signed 64-bit numbers.
\<close>

type_synonym i64 = "64 word"

type_synonym fee_row = "string \<times> (int \<times> int \<times> int \<times> int \<times> int) option"

definition levelFee :: "level_map \<Rightarrow> string \<Rightarrow> i64" where
  "levelFee m k = (case level_lookup m k of None \<Rightarrow> 0 | Some l \<Rightarrow> gl_PriorityFee l)"

definition compareRow :: "GasPrediction \<Rightarrow> string \<Rightarrow> i64 \<Rightarrow> fee_row" where
  "compareRow preResult name actualTip =
     (name,
      if level_lookup (gp_AnalyzerBlock preResult) name = None then None
      else
        let blend = levelFee (gp_PredictResult preResult) name;
            diff = blend - actualTip
        in Some (sint (levelFee (gp_AnalyzerBlock preResult) name),
                 sint (levelFee (gp_AnalyzerPending preResult) name), sint blend, sint actualTip, sint diff))"

fun compareRows :: "GasPrediction \<Rightarrow> TargetPercentile list \<Rightarrow> int option list \<Rightarrow> fee_row list go" where
  "compareRows preResult (t # ts) (r # rs) =
     do {
       actual \<leftarrow> r;
       rows \<leftarrow> compareRows preResult ts rs;
       ret (compareRow preResult (tp_Name t) (big_Uint64 actual) # rows)
     }"
| "compareRows preResult _ _ = ret []"

text \<open>The lines of the table and the predicted and the actual base fee of the last line.\<close>

definition compareTable :: "GasPrediction \<Rightarrow> FeeHistory \<Rightarrow> (fee_row list \<times> (u64 \<times> u64) option) go" where
  "compareTable preResult history =
     (case fh_Reward history of
        [] \<Rightarrow> ret ([], None)
      | reward # _ \<Rightarrow>
          if length (fh_BaseFee history) < 2 then ret ([], None)
          else if length reward < length GasPredictionTargets then ret ([], None)
          else
            do {
              rows \<leftarrow> compareRows preResult GasPredictionTargets reward;
              actual \<leftarrow> hd (fh_BaseFee history);
              ret (rows, Some (gp_NextBaseFee preResult, big_Uint64 actual))
            })"

definition CompareFeeHistory ::
  "('c, 'w) proc_env \<Rightarrow> ('c, 'w) Process \<Rightarrow> ((fee_row list \<times> (u64 \<times> u64) option) \<times> ('c, 'w) Process) go" where
  "CompareFeeHistory env p =
     (let preResult = GetPrediction (ps_analyzer p)
      in if gp_NextBlockNumber preResult = 0 \<or> gp_AnalyzerBlock preResult = None then ret (([], None), p)
         else
           let per = map (\<lambda>t. f64_mul (tp_Percentile t) (Fin 100)) GasPredictionTargets
           in case rpcCall env (mkCost feeHistoryCu 1)
                  (\<lambda>c. api_FeeHistory (pe_api env) c (sint (gp_NextBlockNumber preResult)) per) p of
                (Inl err, p) \<Rightarrow> ret (([], None), p)
              | (Inr history, p) \<Rightarrow>
                  do { out \<leftarrow> compareTable preResult history; ret (out, p) })"

section \<open>The tick of the analyzer\<close>

text \<open>
  \<open>Analyzer.Start\<close> calls \<open>AnalyzeGasPrice\<close> every two seconds, on the pool and the gRPC client that
  the processor shares with it: a snapshot of the pool goes in, a prediction goes out.
  \<open>ordAddr\<close> is the order of the range over the accounts.
\<close>

definition analyzeTick ::
  "('c, 'w) proc_env \<Rightarrow> (Address fset \<Rightarrow> Address list) \<Rightarrow> nat \<Rightarrow> nat \<Rightarrow> ('c, 'w) Process \<Rightarrow> ('c, 'w) Process" where
  "analyzeTick env ordAddr k3 k4 p =
     (let (now, p) = readClock env p
      in case AnalyzeGasPrice (pe_sort env) (pe_oor env) now (Snapshot ordAddr (ps_pool p)) (ps_analyzer p) of
           (a, None) \<Rightarrow> p\<lparr>ps_analyzer := a\<rparr>
         | (a, Some req) \<Rightarrow>
             p\<lparr>ps_analyzer := a,
               ps_grpc := GasPredictResultSend (pe_k1 env) (pe_k2 env) k3 k4 (Some (Prediction req)) (ps_grpc p)\<rparr>)"

end
