(* ===== verification/Block_Pipeline.thy ===== *)
theory Block_Pipeline
  imports Eth_Processor
begin

text \<open>
  The block pipeline (\<open>internal/coordinator/blockPipeline.go\<close>): it puts the headers in order, fills
  gaps, retries failed blocks, follows reorganisations and resynchronises when it lags too far
  behind. The interface \<open>BlockProcessor\<close> is the record \<open>BlockProcessor\<close> of functions over the
  processor's state \<open>'p\<close>; \<open>eth_block_processor\<close> is its implementation by \<open>Process\<close>.

  One goroutine owns the headers (\<open>blockProcLoop\<close>) and one the failed blocks (\<open>failBlockLoop\<close>). An
  iteration of either is one step. The second one touches only the processor, whose components
  have their own locks. \<open>None\<close> is a panic; the loop of \<open>procAvailable\<close>, which a node that reports one
  reorganisation after the other keeps busy, has a second \<open>option\<close>, whose \<open>None\<close> is not returning.
  Log output is not modelled.
\<close>

section \<open>Data\<close>

record ('e, 'p) BlockProcessor =
  bp_ProcessBlock :: "Header option \<Rightarrow> 'p \<Rightarrow> ('e option \<times> 'p) go"
  bp_Initialize :: "'p \<Rightarrow> (('e + Header option) \<times> 'p) go"
  bp_HeaderByNumber :: "u64 \<Rightarrow> 'p \<Rightarrow> ('e + Header option) \<times> 'p"
  bp_CleanupFailedBlock :: "Header option \<Rightarrow> 'p \<Rightarrow> ('e option \<times> 'p) go"
  bp_Resync :: "'p \<Rightarrow> (('e + Header option) \<times> 'p) go"
  bp_CompareFeeHistory :: "'p \<Rightarrow> 'p go"

text \<open>
  What a run takes from outside: the processor, the order of the range over \<open>pendingBlock\<close>, and the
  wait of a retry, whose \<open>Some\<close> is the error of the cancelled context.
\<close>

record ('e, 'p) pipe_env =
  pi_proc :: "('e, 'p) BlockProcessor"
  pi_ord :: "u64 fset \<Rightarrow> u64 list"
  pi_wait :: "int \<Rightarrow> 'p \<Rightarrow> 'e option \<times> 'p"

datatype 'e pipe_error = HeaderNotFound | ProcFailed 'e

record blockPipeline =
  bl_headerChan :: "Header option chan"
  bl_failedBlockChan :: "Header chan"
  bl_wakeupChan :: "unit chan"
  bl_maxBlockLag :: u64
  bl_nextBlockNum :: u64
  bl_pendingBlock :: "(u64, Header) fmap"

type_synonym 'p pipe = "blockPipeline \<times> 'p"

definition headBufferSize :: nat where "headBufferSize = 100"
definition failedBlockBufferSize :: nat where "failedBlockBufferSize = 10"
definition retryCount :: nat where "retryCount = 3"
definition retryDelay :: int where "retryDelay = 300 * 1000000"
definition wakeupBufferSize :: nat where "wakeupBufferSize = 1"

definition newBlockPipeline :: "int \<Rightarrow> blockPipeline" where
  "newBlockPipeline maxBlockCount =
     \<lparr>bl_headerChan = make_chan headBufferSize, bl_failedBlockChan = make_chan failedBlockBufferSize,
      bl_wakeupChan = make_chan wakeupBufferSize, bl_maxBlockLag = word_of_int maxBlockCount,
      bl_nextBlockNum = 0, bl_pendingBlock = fmempty\<rparr>"

definition Pipeline_push :: "Header option \<Rightarrow> blockPipeline \<Rightarrow> blockPipeline" where
  "Pipeline_push header b = b\<lparr>bl_headerChan := snd (chan_try_send header (bl_headerChan b))\<rparr>"

text \<open>An error of \<open>Initialize\<close> is a panic.\<close>

definition Pipeline_start :: "('e, 'p) pipe_env \<Rightarrow> 'p pipe \<Rightarrow> 'p pipe go" where
  "Pipeline_start env = (\<lambda>(b, p).
     do {
       (res, p) \<leftarrow> bp_Initialize (pi_proc env) p;
       case res of
         Inl err \<Rightarrow> panic
       | Inr hdr \<Rightarrow>
           do {
             header \<leftarrow> hdr;
             num \<leftarrow> hd_Number header;
             ret (b\<lparr>bl_nextBlockNum := big_Uint64 num + 1\<rparr>, p)
           }
     })"

section \<open>One block\<close>

text \<open>\<open>n\<close> is the number of attempts left.\<close>

fun retryLoop :: "('e, 'p) pipe_env \<Rightarrow> Header \<Rightarrow> nat \<Rightarrow> 'e option \<Rightarrow> 'p \<Rightarrow> ('e option \<times> 'p) go" where
  "retryLoop env header 0 err p = ret (err, p)"
| "retryLoop env header (Suc n) _ p =
     do {
       (err, p) \<leftarrow> bp_ProcessBlock (pi_proc env) (Some header) p;
       if err = None then ret (None, p)
       else if n = 0 then ret (err, p)
       else
         (case pi_wait env retryDelay p of
            (Some cancelled, p) \<Rightarrow> ret (Some cancelled, p)
          | (None, p) \<Rightarrow> retryLoop env header n err p)
     }"

definition procWithRetry :: "('e, 'p) pipe_env \<Rightarrow> Header \<Rightarrow> 'p \<Rightarrow> ('e option \<times> 'p) go" where
  "procWithRetry env header p = retryLoop env header retryCount None p"

text \<open>\<open>latest.Hash()\<close> dereferences the header that the node returned.\<close>

definition checkStale ::
  "('e, 'p) pipe_env \<Rightarrow> Header option \<Rightarrow> 'p \<Rightarrow> (('e pipe_error + Header \<times> bool) \<times> 'p) go" where
  "checkStale env hdr p =
     (case hdr of
        None \<Rightarrow> ret (Inl HeaderNotFound, p)
      | Some header \<Rightarrow>
          (case hd_Number header of
             None \<Rightarrow> ret (Inl HeaderNotFound, p)
           | Some num \<Rightarrow>
               (case bp_HeaderByNumber (pi_proc env) (big_Uint64 num) p of
                  (Inl err, p) \<Rightarrow> ret (Inl (ProcFailed err), p)
                | (Inr None, p) \<Rightarrow> panic
                | (Inr (Some latest), p) \<Rightarrow> ret (Inr (latest, hd_Hash latest \<noteq> hd_Hash header), p))))"

text \<open>When the channel is full the log line reads the header's number.\<close>

definition failedBlock :: "Header \<Rightarrow> blockPipeline \<Rightarrow> blockPipeline go" where
  "failedBlock header b =
     (case chan_try_send header (bl_failedBlockChan b) of
        (True, ch) \<Rightarrow> ret (b\<lparr>bl_failedBlockChan := ch\<rparr>)
      | (False, _) \<Rightarrow> do { num \<leftarrow> hd_Number header; ret b })"

definition advance :: "u64 \<Rightarrow> blockPipeline \<Rightarrow> blockPipeline" where
  "advance blockNum b =
     b\<lparr>bl_pendingBlock := fmdrop blockNum (bl_pendingBlock b), bl_nextBlockNum := bl_nextBlockNum b + 1\<rparr>"

text \<open>
  The body of the loop of \<open>procAvailable\<close> for a pending header: after a reorganisation the new
  header takes its place (\<open>continue\<close>), otherwise the block is done.
\<close>

definition procBlock :: "('e, 'p) pipe_env \<Rightarrow> u64 \<Rightarrow> Header \<Rightarrow> 'p pipe \<Rightarrow> 'p pipe go" where
  "procBlock env blockNum header = (\<lambda>(b, p).
     do {
       (err, p) \<leftarrow> procWithRetry env header p;
       if err = None then ret (advance blockNum b, p)
       else
         do {
           (st, p) \<leftarrow> checkStale env (Some header) p;
           case st of
             Inr (latest, True) \<Rightarrow>
               ret (b\<lparr>bl_pendingBlock := fmupd blockNum latest (bl_pendingBlock b)\<rparr>, p)
           | _ \<Rightarrow>
               do {
                 b \<leftarrow> failedBlock header b;
                 num \<leftarrow> hd_Number header;
                 ret (advance blockNum b, p)
               }
         }
     })"

section \<open>Gaps\<close>

definition wakeup :: "blockPipeline \<Rightarrow> blockPipeline" where
  "wakeup b = b\<lparr>bl_wakeupChan := snd (chan_try_send () (bl_wakeupChan b))\<rparr>"

definition Pipeline_resync :: "('e, 'p) pipe_env \<Rightarrow> 'p pipe \<Rightarrow> 'p pipe go" where
  "Pipeline_resync env = (\<lambda>(b, p).
     do {
       (res, p) \<leftarrow> bp_Resync (pi_proc env) p;
       case res of
         Inl err \<Rightarrow> ret (b, p)
       | Inr None \<Rightarrow> ret (b, p)
       | Inr (Some latest) \<Rightarrow>
           (case hd_Number latest of
              None \<Rightarrow> ret (b, p)
            | Some num \<Rightarrow> ret (b\<lparr>bl_pendingBlock := fmempty, bl_nextBlockNum := big_Uint64 num + 1\<rparr>, p))
     })"

text \<open>The loop over the numbers of the gap; at its end the main loop is woken up.\<close>

fun backfill :: "('e, 'p) pipe_env \<Rightarrow> u64 list \<Rightarrow> 'p pipe \<Rightarrow> 'p pipe" where
  "backfill env [] (b, p) = (wakeup b, p)"
| "backfill env (num # nums) (b, p) =
     (if fmlookup (bl_pendingBlock b) num \<noteq> None then backfill env nums (b, p)
      else
        (case bp_HeaderByNumber (pi_proc env) num p of
           (Inl err, p) \<Rightarrow> (b, p)
         | (Inr None, p) \<Rightarrow> (b, p)
         | (Inr (Some header), p) \<Rightarrow>
             if hd_Number header = None then (b, p)
             else backfill env nums (b\<lparr>bl_pendingBlock := fmupd num header (bl_pendingBlock b)\<rparr>, p)))"

definition highestPending :: "('e, 'p) pipe_env \<Rightarrow> blockPipeline \<Rightarrow> u64" where
  "highestPending env b =
     fold (\<lambda>num highest. if num > highest then num else highest) (pi_ord env (fmdom (bl_pendingBlock b))) 0"

definition gapNumbers :: "u64 \<Rightarrow> u64 \<Rightarrow> u64 list" where
  "gapNumbers nextBlock highest = map of_nat [unat nextBlock ..< unat highest]"

definition checkBlockGap :: "('e, 'p) pipe_env \<Rightarrow> 'p pipe \<Rightarrow> 'p pipe go" where
  "checkBlockGap env = (\<lambda>(b, p).
     let nextBlock = bl_nextBlockNum b; highest = highestPending env b
     in if highest \<le> nextBlock then ret (b, p)
        else if highest - nextBlock \<ge> bl_maxBlockLag b then Pipeline_resync env (b, p)
        else ret (backfill env (gapNumbers nextBlock highest) (b, p)))"

section \<open>The loops\<close>

partial_function (option) procAvailable :: "('e, 'p) pipe_env \<Rightarrow> 'p pipe \<Rightarrow> 'p pipe go option" where
  [code]: "procAvailable env s =
     (case fmlookup (bl_pendingBlock (fst s)) (bl_nextBlockNum (fst s)) of
        None \<Rightarrow> Some (checkBlockGap env s)
      | Some header \<Rightarrow>
          (case procBlock env (bl_nextBlockNum (fst s)) header s of
             None \<Rightarrow> Some None
           | Some s' \<Rightarrow> procAvailable env s'))"

definition handleHeader :: "('e, 'p) pipe_env \<Rightarrow> Header option \<Rightarrow> 'p pipe \<Rightarrow> 'p pipe go option" where
  "handleHeader env hdr = (\<lambda>(b, p).
     case hdr of
       None \<Rightarrow> Some (ret (b, p))
     | Some header \<Rightarrow>
         (case hd_Number header of
            None \<Rightarrow> Some (ret (b, p))
          | Some num \<Rightarrow>
              let blockNum = big_Uint64 num
              in if bl_nextBlockNum b > blockNum then Some (ret (b, p))
                 else if fmlookup (bl_pendingBlock b) blockNum \<noteq> None then Some (ret (b, p))
                 else procAvailable env (b\<lparr>bl_pendingBlock := fmupd blockNum header (bl_pendingBlock b)\<rparr>, p)))"

text \<open>The two branches of \<open>blockProcLoop\<close> that do work; outside the two \<open>None\<close>s they return.\<close>

definition onWakeup :: "('e, 'p) pipe_env \<Rightarrow> 'p pipe \<Rightarrow> 'p pipe go option" where
  "onWakeup env = (\<lambda>(b, p).
     case chan_try_recv (bl_wakeupChan b) of
       None \<Rightarrow> Some (ret (b, p))
     | Some (_, ch) \<Rightarrow> procAvailable env (b\<lparr>bl_wakeupChan := ch\<rparr>, p))"

definition onHeader :: "('e, 'p) pipe_env \<Rightarrow> 'p pipe \<Rightarrow> 'p pipe go option" where
  "onHeader env = (\<lambda>(b, p).
     case chan_try_recv (bl_headerChan b) of
       None \<Rightarrow> Some (ret (b, p))
     | Some (header, ch) \<Rightarrow>
         (case bp_CompareFeeHistory (pi_proc env) p of
            None \<Rightarrow> Some panic
          | Some p \<Rightarrow> handleHeader env header (b\<lparr>bl_headerChan := ch\<rparr>, p)))"

definition handleFailedBlock :: "('e, 'p) pipe_env \<Rightarrow> Header \<Rightarrow> 'p \<Rightarrow> 'p go" where
  "handleFailedBlock env header p =
     (if hd_Number header = None then ret p
      else
        do {
          (st, p) \<leftarrow> checkStale env (Some header) p;
          case st of
            Inl err \<Rightarrow> ret p
          | Inr (latest, stale) \<Rightarrow>
              do {
                let header = (if stale then latest else header);
                num \<leftarrow> hd_Number header;
                (err, p) \<leftarrow> bp_CleanupFailedBlock (pi_proc env) (Some header) p;
                ret p
              }
        })"

definition onFailedBlock :: "('e, 'p) pipe_env \<Rightarrow> 'p pipe \<Rightarrow> 'p pipe go" where
  "onFailedBlock env = (\<lambda>(b, p).
     case chan_try_recv (bl_failedBlockChan b) of
       None \<Rightarrow> ret (b, p)
     | Some (header, ch) \<Rightarrow>
         do { p \<leftarrow> handleFailedBlock env header p; ret (b\<lparr>bl_failedBlockChan := ch\<rparr>, p) })"

section \<open>The processor of the server\<close>

definition eth_block_processor :: "('c, 'w) proc_env \<Rightarrow> (ProcError, ('c, 'w) Process) BlockProcessor" where
  "eth_block_processor env =
     \<lparr>bp_ProcessBlock = ProcessBlock env,
      bp_Initialize = (\<lambda>p. map_option (\<lambda>(res, p). (map_sum id Some res, p)) (Initialize env p)),
      bp_HeaderByNumber = (\<lambda>n p. case HeaderByNumber env n p of (res, p) \<Rightarrow> (map_sum id Some res, p)),
      bp_CleanupFailedBlock = CleanupFailedBlock env,
      bp_Resync = (\<lambda>p. map_option (\<lambda>(res, p). (map_sum id Some res, p)) (Resync env p)),
      bp_CompareFeeHistory = (\<lambda>p. map_option snd (CompareFeeHistory env p))\<rparr>"

text \<open>The timer and the context live in the world outside.\<close>

definition eth_pipe_env ::
  "('c, 'w) proc_env \<Rightarrow> (u64 fset \<Rightarrow> u64 list) \<Rightarrow> (int \<Rightarrow> 'w \<Rightarrow> ProcError option \<times> 'w) \<Rightarrow>
   (ProcError, ('c, 'w) Process) pipe_env" where
  "eth_pipe_env env ord sleep =
     \<lparr>pi_proc = eth_block_processor env, pi_ord = ord,
      pi_wait = (\<lambda>d p. case sleep d (ps_world p) of (e, w) \<Rightarrow> (e, p\<lparr>ps_world := w\<rparr>))\<rparr>"

end
