(* ===== verification/Eth_Processor_Props.thy ===== *)
theory Eth_Processor_Props
  imports Eth_Processor
begin

text \<open>
  The properties of the block processor. \<open>frame\<close> says that an operation touched nothing but the
  RPC manager, the outside world and the error counters; every fetch has a frame, so an operation
  that fails before its first update leaves the components alone. Then what a processed block and
  a resync do to each component, the invariant of the whole processor and its reachable states,
  the fee statistics and the costs of the RPC calls.
\<close>

section \<open>Frames\<close>

definition frame :: "('c, 'w) Process \<Rightarrow> ('c, 'w) Process \<Rightarrow> bool" where
  "frame p p' \<longleftrightarrow>
     ps_pool p' = ps_pool p \<and> ps_store p' = ps_store p \<and> ps_analyzer p' = ps_analyzer p \<and>
     ps_grpc p' = ps_grpc p \<and> ps_counts p' = ps_counts p \<and>
     (mgr_ok (ps_rpc p) \<longrightarrow> mgr_ok (ps_rpc p')) \<and> rm_clients (ps_rpc p') = rm_clients (ps_rpc p)"

lemma frame_refl [simp]: "frame p p"
  by (simp add: frame_def)

lemma frame_trans [trans]: "frame p q \<Longrightarrow> frame q r \<Longrightarrow> frame p r"
  by (simp add: frame_def)

lemma EthClientFunc_clients:
  assumes "EthClientFunc env cost fn r w = (res, r', w')"
  shows "(mgr_ok r \<longrightarrow> mgr_ok r') \<and> rm_clients r' = rm_clients r"
proof (cases "rm_clients r = []")
  case True
  with assms show ?thesis by (auto simp: EthClientFunc_def Let_def split: prod.splits)
next
  case False
  have clients: "rm_clients r' = rm_clients r"
    if "failover env cost fn idx js e r w = (res, r', w')" for r js e idx w r' w' res
    using that
    by (induction js arbitrary: e w) (auto simp: Let_def split: prod.splits sum.splits)
  from assms have "rm_clients r' = rm_clients r"
    by (auto simp: EthClientFunc_def Let_def split: prod.splits sum.splits if_splits dest!: clients)
  with EthClientFunc_ok(1) [OF _ assms] show ?thesis by blast
qed

lemma rpcCall_frame:
  assumes "rpcCall env cost fn p = (res, p')"
  shows "frame p p' \<and> ps_errors p' = ps_errors p"
  using assms
  by (auto simp: rpcCall_def frame_def split: prod.splits dest!: EthClientFunc_clients)

lemma incErrors_frame [simp]: "frame p (incErrors f p)"
  by (simp add: frame_def incErrors_def)

lemma fetchBlockReceipts_frame:
  assumes "fetchBlockReceipts env h p = (res, p')"
  shows "frame p p' \<and> ps_errors p' = ps_errors p"
  using assms
  by (auto simp: fetchBlockReceipts_def split: prod.splits sum.splits if_splits
      dest!: rpcCall_frame intro: frame_trans)

lemma getLastestBlockHeader_frame:
  assumes "getLastestBlockHeader env p = (res, p')"
  shows "frame p p' \<and> ps_errors p' = ps_errors p"
  using assms
  by (auto simp: getLastestBlockHeader_def split: prod.splits sum.splits option.splits if_splits
      dest!: rpcCall_frame)

lemma HeaderByNumber_frame:
  assumes "HeaderByNumber env n p = (res, p')"
  shows "frame p p' \<and> ps_errors p' = ps_errors p"
  using assms
  by (auto simp: HeaderByNumber_def split: prod.splits sum.splits option.splits dest!: rpcCall_frame)

lemma readClock_frame: "readClock env p = (now, p') \<Longrightarrow> frame p p' \<and> ps_errors p' = ps_errors p"
  by (auto simp: readClock_def frame_def split: prod.splits)

section \<open>The steps of a processed block\<close>

lemma UpdateBlockInfo_fields:
  assumes "UpdateBlockInfoForAnalysis env header p = Some p'"
  shows "ps_pool p' = ps_pool p" "ps_store p' = ps_store p" "ps_grpc p' = ps_grpc p" "ps_rpc p' = ps_rpc p"
    "ps_errors p' = ps_errors p" "ps_counts p' = ps_counts p"
    "an_ready (ps_analyzer p') = an_ready (ps_analyzer p)"
    "an_DecayTable (ps_analyzer p') = an_DecayTable (ps_analyzer p)"
  using assms
  by (auto simp: UpdateBlockInfoForAnalysis_def UpdateLatestBlockData_def readClock_def Let_def
      bind_eq_Some_conv UpdateAnalBlockTxPredictionGasResult_def split: if_splits prod.splits)

text \<open>What the analyzer knows of a block: the header's data, the next base fee, the block levels.\<close>

definition analyzed :: "('c, 'w) proc_env \<Rightarrow> Header \<Rightarrow> BlockData list \<Rightarrow> Analyzer \<Rightarrow> bool" where
  "analyzed env header blocks a \<longleftrightarrow>
     (\<exists>num next levels cutoff.
        hd_Number header = Some num \<and>
        CalculateNextBaseFee (hd_BaseFee header) (hd_GasUsed header) (hd_GasLimit header) = Some next \<and>
        BlockPercentiles (pe_sort env) (pe_oor env) (blockPool (an_DecayTable a) blocks) = Some (levels, cutoff) \<and>
        ba_BlockNumber (an_latestBlockData a) = big_Uint64 num \<and>
        ba_BlockTime (an_latestBlockData a) = hd_Time header \<and>
        ba_NextBaseFee (an_latestBlockData a) = big_Uint64 next \<and>
        ba_GasLimit (an_latestBlockData a) = hd_GasLimit header \<and>
        ba_Cutoff (an_latestBlockData a) = cutoff \<and>
        gp_AnalyzerBlock (an_latestResult a) = Some (to_levels (big_Uint64 next) levels))"

lemma UpdateBlockInfo_analyzed:
  assumes "UpdateBlockInfoForAnalysis env header p = Some p'" "hd_Number header = Some num"
    "GetBlockData (ps_store p) \<noteq> []"
  shows "analyzed env header (GetBlockData (ps_store p)) (ps_analyzer p')"
  using assms
  by (auto simp: UpdateBlockInfoForAnalysis_def UpdateLatestBlockData_def readClock_def Let_def
      bind_eq_Some_conv UpdateAnalBlockTxPredictionGasResult_def analyzed_def DecayValues_def
      split: if_splits prod.splits)

lemma UpdateBlockInfo_None_iff:
  assumes "hd_Number header = Some num"
  shows "UpdateBlockInfoForAnalysis env header p = None \<longleftrightarrow>
    CalculateNextBaseFee (hd_BaseFee header) (hd_GasUsed header) (hd_GasLimit header) = None \<or>
    (GetBlockData (ps_store p) \<noteq> [] \<and>
      (hd_BaseFee header = None \<or>
       BlockPercentiles (pe_sort env) (pe_oor env)
         (blockPool (an_DecayTable (ps_analyzer p)) (GetBlockData (ps_store p))) = None))"
  using assms
  by (auto simp: UpdateBlockInfoForAnalysis_def UpdateLatestBlockData_def Let_def DecayValues_def
      bind_eq_None_conv split: if_splits prod.splits)

lemma SendFeeBuckets_fields:
  shows "ps_pool (SendFeeBucketsToGrpc env p) = ps_pool p" "ps_store (SendFeeBucketsToGrpc env p) = ps_store p"
    "ps_analyzer (SendFeeBucketsToGrpc env p) = ps_analyzer p" "ps_rpc (SendFeeBucketsToGrpc env p) = ps_rpc p"
    "ps_errors (SendFeeBucketsToGrpc env p) = ps_errors p" "ps_counts (SendFeeBucketsToGrpc env p) = ps_counts p"
  by (auto simp: SendFeeBucketsToGrpc_def readClock_def Let_def split: prod.splits)

lemma removeExpired_fields [simp]:
  "ps_store (removeExpired env n p) = ps_store p" "ps_analyzer (removeExpired env n p) = ps_analyzer p"
  "ps_rpc (removeExpired env n p) = ps_rpc p" "ps_grpc (removeExpired env n p) = ps_grpc p"
  "ps_errors (removeExpired env n p) = ps_errors p" "ps_counts (removeExpired env n p) = ps_counts p"
  "ps_pool (removeExpired env n p) = fst (RemoveExpired (pe_ordBlock env) n (ps_pool p))"
  by (simp_all add: removeExpired_def)

text \<open>The block data that the receipts of a block give.\<close>

definition block_of :: "Header \<Rightarrow> int \<Rightarrow> Receipt option list \<Rightarrow> FeeBucketStat list \<Rightarrow> BlockData" where
  "block_of header num rs stats =
     \<lparr>bd_Number = big_Uint64 num, bd_BaseFee = hd_BaseFee header, bd_GasLimit = hd_GasLimit header,
      bd_Txs = List.map_filter (receiptTxInfo header) rs, bd_FeeBuckets = stats\<rparr>"

lemma CalculateBlockTxTip_eq: "hd_Number header = Some num \<Longrightarrow> CalculateBlockTxTip header rs = Some (block_of header num rs [])"
  by (simp add: CalculateBlockTxTip_def block_of_def)

lemma block_of_stats [simp]: "(block_of header num rs s)\<lparr>bd_FeeBuckets := stats\<rparr> = block_of header num rs stats"
  by (simp add: block_of_def)

lemma ProcessBlock_receipts:
  assumes "hd_Number header = Some num" "fetchBlockReceipts env (hd_Hash header) p = (Inr rs, p1)" "rs \<noteq> []"
  shows "ProcessBlock env (Some header) p =
    do {
      (stats, cnt, pool) \<leftarrow> RemoveByReceipts (pe_ordStat env) header rs (ps_pool p1);
      p2 \<leftarrow> UpdateBlockInfoForAnalysis env header (removeExpired env (big_Uint64 num)
        (p1\<lparr>ps_pool := pool, ps_store := AddBlock (block_of header num rs stats) (ps_store p1)\<rparr>));
      Some (None, SendFeeBucketsToGrpc env p2)
    }"
  using assms
  by (cases "RemoveByReceipts (pe_ordStat env) header rs (ps_pool p1)")
    (auto simp: ProcessBlock_def CalculateBlockTxTip_eq ClearMempoolToReceipts_def Let_def split: prod.splits)

lemma ProcessBlock_empty:
  assumes "hd_Number header = Some num" "fetchBlockReceipts env (hd_Hash header) p = (Inr [], p1)"
  shows "ProcessBlock env (Some header) p =
    do { p2 \<leftarrow> UpdateBlockInfoForAnalysis env header (removeExpired env (big_Uint64 num) p1); Some (None, p2) }"
  using assms by (simp add: ProcessBlock_def Let_def)

lemma ProcessBlock_failed:
  assumes "hd_Number header = Some num" "fetchBlockReceipts env (hd_Hash header) p = (Inl e, p1)"
  shows "ProcessBlock env (Some header) p = Some (Some (ErrFetchReceipts (big_Uint64 num) e),
    incErrors IncBlockProcessingFailed (incErrors IncBlockReceiptRPCFailed p1))"
  using assms by (simp add: ProcessBlock_def Let_def)

lemma err_cases:
  assumes "ProcessBlock env hdr p = Some (Some e, p')"
  obtains (bad) "\<forall>header. hdr = Some header \<longrightarrow> hd_Number header = None" "p' = incErrors IncBlockProcessingFailed p"
  | (fetch) header num e1 p1 where "hdr = Some header" "hd_Number header = Some num"
      "fetchBlockReceipts env (hd_Hash header) p = (Inl e1, p1)"
      "p' = incErrors IncBlockProcessingFailed (incErrors IncBlockReceiptRPCFailed p1)"
proof (cases "hdr = None \<or> hd_Number (the hdr) = None")
  case True
  with assms show ?thesis by (intro bad) (cases hdr; auto simp: ProcessBlock_def)+
next
  case False
  then obtain header num where h: "hdr = Some header" "hd_Number header = Some num" by auto
  obtain res p1 where f: "fetchBlockReceipts env (hd_Hash header) p = (res, p1)" by fastforce
  show ?thesis
  proof (cases res)
    case (Inl e1)
    with f h assms show ?thesis by (intro fetch [of header num e1 p1]) (simp_all add: ProcessBlock_failed)
  next
    case (Inr rs)
    with f h assms show ?thesis
      by (cases "rs = []") (auto simp: ProcessBlock_empty ProcessBlock_receipts bind_eq_Some_conv)
  qed
qed


lemma processed_block:
  assumes inv: "pool_inv key (ps_pool p)" "store_inv (ps_store p)" "0 < st_max (ps_store p)"
    and ord: "is_range_order (pe_ordStat env)" "is_range_order (pe_ordBlock env)"
    and h: "hd_Number header = Some num" "fetchBlockReceipts env (hd_Hash header) p = (Inr rs, p1)" "rs \<noteq> []"
    and run: "ProcessBlock env (Some header) p = Some (err, p')"
  obtains stats cnt pool where "err = None" "pool_inv key (ps_pool p')"
    "pool_view (ps_pool p') = spec_filter (\<lambda>tx. big_Uint64 num < pt_ExpireBlock tx)
       (spec_filter (\<lambda>tx. pt_Hash tx \<notin> receipt_hashes rs) (pool_view (ps_pool p)))"
    "RemoveByReceipts (pe_ordStat env) header rs (ps_pool p) = Some (stats, cnt, pool)"
    "ps_store p' = AddBlock (block_of header num rs stats) (ps_store p)"
    "analyzed env header (GetBlockData (ps_store p')) (ps_analyzer p')"
    "an_ready (ps_analyzer p') = an_ready (ps_analyzer p)" "ps_errors p' = ps_errors p"
    "pp_Signer (ps_pool p') = pp_Signer (ps_pool p)"
proof -
  have fr: "frame p p1" "ps_errors p1 = ps_errors p" using fetchBlockReceipts_frame [OF h(2)] by simp_all
  from run [unfolded ProcessBlock_receipts [OF h]] obtain stats cnt pool p2 where
    r: "RemoveByReceipts (pe_ordStat env) header rs (ps_pool p) = Some (stats, cnt, pool)" and
    u: "UpdateBlockInfoForAnalysis env header (removeExpired env (big_Uint64 num)
        (p1\<lparr>ps_pool := pool, ps_store := AddBlock (block_of header num rs stats) (ps_store p1)\<rparr>)) = Some p2" and
    p': "err = None" "p' = SendFeeBucketsToGrpc env p2"
    using fr(1) by (auto simp: bind_eq_Some_conv frame_def)
  obtain smap where loop: "receiptLoop (big_Uint64 num) (hd_Time header) rs (ps_pool p, fmempty, 0) = Some (pool, smap, cnt)"
    using RemoveByReceipts_Some [OF r] h(1) by auto
  have pool: "pool_inv key pool" "pool_view pool = spec_filter (\<lambda>tx. pt_Hash tx \<notin> receipt_hashes rs) (pool_view (ps_pool p))"
    "pp_Signer pool = pp_Signer (ps_pool p)" using receiptLoop_correct [OF inv(1) loop] by simp_all
  note u' = UpdateBlockInfo_fields [OF u] and s' = SendFeeBuckets_fields [of env p2]
  have st: "ps_store p' = AddBlock (block_of header num rs stats) (ps_store p)"
    using u' s' fr by (simp add: p' frame_def)
  then have "GetBlockData (ps_store p') \<noteq> []"
    using block_history.add_view [OF inv(2)] inv(3) by simp
  moreover have "ps_store p2 = ps_store p'" "ps_analyzer p2 = ps_analyzer p'" using s' by (simp_all add: p')
  ultimately have "analyzed env header (GetBlockData (ps_store p')) (ps_analyzer p')"
    using UpdateBlockInfo_analyzed [OF u h(1)] u'(2) by simp
  moreover have "ps_pool p' = fst (RemoveExpired (pe_ordBlock env) (big_Uint64 num) pool)"
    using u' s' by (simp add: p')
  ultimately show ?thesis
    using that [of stats cnt pool] RemoveExpired_correct [OF pool(1) ord(2)] pool r st u' s' fr p' by (simp add: frame_def)
qed

lemma ProcessBlock_None_iff:
  assumes "store_inv (ps_store p)" "0 < st_max (ps_store p)"
    and "hd_Number header = Some num" "fetchBlockReceipts env (hd_Hash header) p = (Inr rs, p1)" "rs \<noteq> []"
  shows "ProcessBlock env (Some header) p = None \<longleftrightarrow>
    None \<in> set rs \<or> hd_BaseFee header = None \<or>
    CalculateNextBaseFee (hd_BaseFee header) (hd_GasUsed header) (hd_GasLimit header) = None \<or>
    BlockPercentiles (pe_sort env) (pe_oor env) (blockPool (an_DecayTable (ps_analyzer p))
      (take (nat (st_max (ps_store p))) (block_of header num rs [] # GetBlockData (ps_store p)))) = None"
proof (cases "None \<in> set rs")
  case True
  then have "RemoveByReceipts (pe_ordStat env) header rs (ps_pool p1) = None"
    by (simp add: RemoveByReceipts_nil)
  with True show ?thesis by (simp add: ProcessBlock_receipts [OF assms(3-5)])
next
  case False
  have fr: "frame p p1" using fetchBlockReceipts_frame [OF assms(4)] by simp
  from False assms(3) obtain stats cnt pool where
    r: "RemoveByReceipts (pe_ordStat env) header rs (ps_pool p1) = Some (stats, cnt, pool)"
    using RemoveByReceipts_nil [of "pe_ordStat env" header rs "ps_pool p1"] by fastforce
  let ?blocks = "take (nat (st_max (ps_store p))) (block_of header num rs stats # GetBlockData (ps_store p))"
  have data: "GetBlockData (AddBlock (block_of header num rs stats) (ps_store p)) = ?blocks"
    by (rule block_history.add_view [OF assms(1)])
  have "blockPool d ?blocks =
      blockPool d (take (nat (st_max (ps_store p))) (block_of header num rs [] # GetBlockData (ps_store p)))" for d
    by (cases "nat (st_max (ps_store p))"; cases d) (simp_all add: blockPool_def block_of_def)
  moreover have "?blocks \<noteq> []" using assms(2) by simp
  ultimately show ?thesis
    using False fr unfolding ProcessBlock_receipts [OF assms(3-5)] r
    by (simp add: bind_eq_None_conv UpdateBlockInfo_None_iff [OF assms(3)] frame_def data disj_left_commute)
qed

section \<open>A sample processor\<close>

text \<open>A node that answers every call; the world counts the readings of the clock.\<close>

definition node_receipts :: "Receipt option list" where
  "node_receipts =
     map (\<lambda>h. Some \<lparr>rc_TxHash = h, rc_GasUsed = 21000, rc_EffectiveGasPrice = None\<rparr>) [9, 20, 3, 3]"

definition sample_api :: "(nat, int) eth_api" where
  "sample_api =
     \<lparr>api_HeaderByNumber =
        (\<lambda>c n w. (Inr (Some (sample_header (Some (case n of None \<Rightarrow> 102 | Some k \<Rightarrow> uint k)))), w)),
      api_BlockReceipts = (\<lambda>c h w. (Inr node_receipts, w)),
      api_TxCount = (\<lambda>c h w. (Inr ''0x0'', w)),
      api_FeeHistory = (\<lambda>c n per w. (Inr \<lparr>fh_Reward = [[Some 1, Some 2, Some 3]], fh_BaseFee = [Some 10, Some 11]\<rparr>, w)),
      api_BatchTx = (\<lambda>c hs w. (Inr (\<lambda>j. (None, None)), w)),
      api_BatchReceipt = (\<lambda>c hs w. (Inr (\<lambda>j. (None, None)), w)),
      api_DecodeUint64 = (\<lambda>s. Inr 0)\<rparr>"

definition sample_proc_env :: "(nat, int) proc_env" where
  "sample_proc_env =
     \<lparr>pe_rpc = sample_env, pe_api = sample_api, pe_ordStat = sorted_list_of_fset,
      pe_ordBlock = sorted_list_of_fset, pe_sort = sort_key wt_Tip, pe_oor = (\<lambda>_. 0), pe_k1 = 0, pe_k2 = 0\<rparr>"

definition sample_process :: "(nat, int) Process" where
  "sample_process =
     NewProcess sample_pool1 \<lparr>st_blocks = [], st_max = 10\<rparr> sample_manager
       \<lparr>an_DecayTable = [Fin 1, Fin (1 / 2)], an_latestResult = zero_GasPrediction,
        an_latestBlockData = zero_BlockAnalysisData, an_ready = True\<rparr>
       newGasPredictClient
       \<lparr>er_TxRPCFailed = 0, er_TxIndividualRPCFailed = 0, er_BlockReceiptRPCFailed = 0,
        er_BlockProcessingFailed = 0, er_BlockDropped = 0, er_FeeHistoryFailed = 0\<rparr>
       zero_Count 5"

lemma sample_process_inv:
  "pool_inv sample_key (ps_pool sample_process)" "store_inv (ps_store sample_process)" "0 < st_max (ps_store sample_process)"
  by (simp_all add: sample_process_def NewProcess_def sample_inv store_inv_def)

lemma sample_orders: "is_range_order (pe_ordStat sample_proc_env)" "is_range_order (pe_ordBlock sample_proc_env)"
  by (simp_all add: sample_proc_env_def is_range_order_sorted)

lemma sample_fetch:
  "fetchBlockReceipts sample_proc_env (hd_Hash (sample_header n)) sample_process =
     (Inr node_receipts, sample_process\<lparr>ps_world := 6\<rparr>)"
  by (simp add: fetchBlockReceipts_def rpcCall_def EthClientFunc_def sample_process_def NewProcess_def
      sample_manager_def sample_proc_env_def sample_env_def attempt_def Client_Wait_def sample_client_def
      sample_api_def mkCost_def cost_defs RotateInterval_def node_receipts_def Let_def)

lemma sample_number: "hd_Number (sample_header (Some 102)) = Some 102" "node_receipts \<noteq> []"
  by (simp_all add: sample_header_def node_receipts_def)

lemma sample_tip_pool:
  "blockPool (an_DecayTable (ps_analyzer sample_process))
     (take (nat (st_max (ps_store sample_process)))
       (block_of (sample_header (Some 102)) 102 node_receipts [] # GetBlockData (ps_store sample_process))) = []"
  by (simp add: sample_process_def NewProcess_def blockPool_def block_of_def node_receipts_def GetBlockData_def
      map_filter_simps receiptTxInfo_def EffectiveTipFromReceipt_def)

section \<open>Properties of a processed block\<close>

text \<open>
  C4. A processed block. When the receipts of a block arrive and \<open>ProcessBlock\<close> returns, it returns
  no error; the pool has lost exactly the included and the expired transactions; the block, with
  the tips of its receipts and the statistics of the removed transactions, is the newest of the
  store; the analyzer has the block's data, the next base fee and the levels of the stored blocks.
\<close>

theorem ProcessBlock_applies_block:
  assumes "pool_inv key (ps_pool p)" "store_inv (ps_store p)" "0 < st_max (ps_store p)"
    and "is_range_order (pe_ordStat env)" "is_range_order (pe_ordBlock env)"
    and "hd_Number header = Some num" "fetchBlockReceipts env (hd_Hash header) p = (Inr rs, p1)" "rs \<noteq> []"
    and "ProcessBlock env (Some header) p = Some (err, p')"
  shows "err = None \<and> pool_inv key (ps_pool p') \<and>
    (\<forall>k. pool_view (ps_pool p') k = (case pool_view (ps_pool p) k of
        None \<Rightarrow> None
      | Some tx \<Rightarrow> if pt_Hash tx \<in> receipt_hashes rs \<or> pt_ExpireBlock tx \<le> big_Uint64 num then None else Some tx)) \<and>
    (\<exists>stats.
      GetBlockData (ps_store p') =
        take (nat (st_max (ps_store p))) (block_of header num rs stats # GetBlockData (ps_store p)) \<and>
      sum_list (map fb_TxCount stats) =
        of_nat (card (included (big_Uint64 num) (hd_Time header) (receipt_hashes rs) (pool_view (ps_pool p))))) \<and>
    analyzed env header (GetBlockData (ps_store p')) (ps_analyzer p')"
proof -
  from processed_block [OF assms] obtain stats cnt pool where
    r: "RemoveByReceipts (pe_ordStat env) header rs (ps_pool p) = Some (stats, cnt, pool)" and
    rest: "err = None" "pool_inv key (ps_pool p')"
    "pool_view (ps_pool p') = spec_filter (\<lambda>tx. big_Uint64 num < pt_ExpireBlock tx)
       (spec_filter (\<lambda>tx. pt_Hash tx \<notin> receipt_hashes rs) (pool_view (ps_pool p)))"
    "ps_store p' = AddBlock (block_of header num rs stats) (ps_store p)"
    "analyzed env header (GetBlockData (ps_store p')) (ps_analyzer p')" by metis
  have "GetBlockData (ps_store p') =
        take (nat (st_max (ps_store p))) (block_of header num rs stats # GetBlockData (ps_store p))"
    unfolding rest by (rule block_history.add_view [OF assms(2)])
  moreover have "sum_list (map fb_TxCount stats) =
        of_nat (card (included (big_Uint64 num) (hd_Time header) (receipt_hashes rs) (pool_view (ps_pool p))))"
    using RemoveByReceipts_stats [OF assms(1,4,6) r] by simp
  moreover have "pool_view (ps_pool p') k = (case pool_view (ps_pool p) k of
        None \<Rightarrow> None
      | Some tx \<Rightarrow> if pt_Hash tx \<in> receipt_hashes rs \<or> pt_ExpireBlock tx \<le> big_Uint64 num then None else Some tx)" for k
    unfolding rest by (cases "pool_view (ps_pool p) k") (auto simp: spec_filter_def)
  ultimately show ?thesis using rest by blast
qed

lemma sample_returns: "ProcessBlock sample_proc_env (Some (sample_header (Some 102))) sample_process \<noteq> None"
proof -
  have "CalculateNextBaseFee (hd_BaseFee (sample_header (Some 102))) (hd_GasUsed (sample_header (Some 102)))
      (hd_GasLimit (sample_header (Some 102))) \<noteq> None"
    by code_simp
  then show ?thesis
    unfolding ProcessBlock_None_iff [OF sample_process_inv(2,3) sample_number(1) sample_fetch sample_number(2)] sample_tip_pool
    by (auto simp: node_receipts_def sample_header_def BlockPercentiles_def)
qed

theorem ProcessBlock_applies_block_witness:
  "\<exists>p'. ProcessBlock sample_proc_env (Some (sample_header (Some 102))) sample_process = Some (None, p') \<and>
     pool_view (ps_pool p') (7, 3) = None \<and> length (GetBlockData (ps_store p')) = 1"
proof -
  obtain err p' where run: "ProcessBlock sample_proc_env (Some (sample_header (Some 102))) sample_process = Some (err, p')"
    using sample_returns by auto
  note ok = ProcessBlock_applies_block [OF sample_process_inv sample_orders sample_number(1) sample_fetch sample_number(2) run]
  have "map_option pt_Hash (pool_view sample_pool1 (7, 3)) = Some 3"
    unfolding sample_pool1_def by code_simp
  moreover have "3 \<in> receipt_hashes node_receipts"
    unfolding receipt_hashes_def node_receipts_def
    by (rule CollectI, rule exI [of _ "\<lparr>rc_TxHash = 3, rc_GasUsed = 21000, rc_EffectiveGasPrice = None\<rparr>"]) simp
  ultimately have "pool_view (ps_pool p') (7, 3) = None"
    using ok by (auto simp: sample_process_def NewProcess_def)
  moreover have "length (GetBlockData (ps_store p')) = 1"
    using ok by (auto simp: sample_process_def NewProcess_def GetBlockData_def)
  ultimately show ?thesis using ok run by blast
qed

text \<open>
  C34. When processing a block crashes. Once the receipts are there, \<open>ProcessBlock\<close> panics exactly
  when a receipt is nil, the header has no base fee, the gas limit makes the next base fee
  undefined, or the percentiles of the stored blocks are undefined.
\<close>

theorem ProcessBlock_panics_iff:
  assumes "store_inv (ps_store p)" "0 < st_max (ps_store p)"
    and "hd_Number header = Some num" "fetchBlockReceipts env (hd_Hash header) p = (Inr rs, p1)" "rs \<noteq> []"
  shows "ProcessBlock env (Some header) p = None \<longleftrightarrow>
    None \<in> set rs \<or> hd_BaseFee header = None \<or>
    CalculateNextBaseFee (hd_BaseFee header) (hd_GasUsed header) (hd_GasLimit header) = None \<or>
    BlockPercentiles (pe_sort env) (pe_oor env) (blockPool (an_DecayTable (ps_analyzer p))
      (take (nat (st_max (ps_store p))) (block_of header num rs [] # GetBlockData (ps_store p)))) = None"
  by (rule ProcessBlock_None_iff [OF assms])

theorem ProcessBlock_panics_iff_witness:
  "ProcessBlock sample_proc_env (Some (sample_header (Some 102))) sample_process \<noteq> None \<and>
   ProcessBlock sample_proc_env (Some ((sample_header (Some 102))\<lparr>hd_BaseFee := None\<rparr>)) sample_process = None"
proof -
  have num: "hd_Number ((sample_header (Some 102))\<lparr>hd_BaseFee := None\<rparr>) = Some 102"
    "hd_Hash ((sample_header (Some 102))\<lparr>hd_BaseFee := None\<rparr>) = hd_Hash (sample_header (Some 102))"
    by (simp_all add: sample_header_def)
  show ?thesis
    using sample_returns ProcessBlock_panics_iff [OF sample_process_inv(2,3) num(1), of sample_proc_env node_receipts,
      unfolded num(2), OF sample_fetch sample_number(2)] by simp
qed


section \<open>Start and resync\<close>

lemma Resync_fetched:
  assumes "getLastestBlockHeader env p = (Inr latest, p1)" "hd_Number latest = Some num"
    "fetchBlockReceipts env (hd_Hash latest) p1 = (Inr rs, p2)" "rs \<noteq> []"
  shows "Resync env p =
    do {
      p3 \<leftarrow> UpdateBlockInfoForAnalysis env latest
        (p2\<lparr>ps_analyzer := Analyzer_Reset (ps_analyzer p2),
            ps_store := AddBlock (block_of latest num rs []) (Store_Clear (ps_store p2))\<rparr>);
      Some (Inr latest, p3\<lparr>ps_pool := Pool_Clear (ps_pool p3), ps_analyzer := SetReady (ps_analyzer p3)\<rparr>)
    }"
  using assms by (simp add: Resync_def CalculateBlockTxTip_eq Let_def)

lemma latest_header_number:
  "getLastestBlockHeader env p = (Inr latest, p1) \<Longrightarrow> \<exists>num. hd_Number latest = Some num"
  by (auto simp: getLastestBlockHeader_def split: prod.splits sum.splits option.splits if_splits)

lemma Resync_error:
  assumes "Resync env p = Some (Inl e, p')"
  shows "frame p p'"
proof -
  obtain res p1 where l: "getLastestBlockHeader env p = (res, p1)" by fastforce
  note f1 = getLastestBlockHeader_frame [OF l, THEN conjunct1]
  show ?thesis
  proof (cases res)
    case (Inl e1)
    with l f1 assms show ?thesis by (simp add: Resync_def)
  next
    case (Inr latest)
    obtain res2 p2 where r: "fetchBlockReceipts env (hd_Hash latest) p1 = (res2, p2)" by fastforce
    note f2 = frame_trans [OF f1 fetchBlockReceipts_frame [OF r, THEN conjunct1]]
    obtain num where num: "hd_Number latest = Some num" using latest_header_number l Inr by blast
    show ?thesis
    proof (cases res2)
      case (Inl e2)
      with l Inr r assms have "p' = incErrors IncBlockReceiptRPCFailed p2" by (simp add: Resync_def)
      with frame_trans [OF f2 incErrors_frame] show ?thesis by simp
    next
      case rs: (Inr rs)
      show ?thesis
      proof (cases "rs = []")
        case True
        with rs l Inr r f2 assms show ?thesis by (simp add: Resync_def)
      next
        case False
        with assms Resync_fetched [OF l [unfolded Inr] num r [unfolded rs] False] show ?thesis
          by (auto simp: bind_eq_Some_conv)
      qed
    qed
  qed
qed

lemma Resync_done:
  assumes inv: "store_inv (ps_store p)" "0 < st_max (ps_store p)" and run: "Resync env p = Some (Inr latest, p')"
  obtains num rs p1 p2 where
    "getLastestBlockHeader env p = (Inr latest, p1)" "fetchBlockReceipts env (hd_Hash latest) p1 = (Inr rs, p2)"
    "hd_Number latest = Some num" "rs \<noteq> []" "frame p p2" "ps_rpc p' = ps_rpc p2"
    "ps_pool p' = Pool_Clear (ps_pool p)" "ps_store p' = AddBlock (block_of latest num rs []) (Store_Clear (ps_store p))"
    "ps_grpc p' = ps_grpc p" "an_ready (ps_analyzer p')"
    "analyzed env latest [block_of latest num rs []] (ps_analyzer p')"
proof -
  obtain res p1 where l: "getLastestBlockHeader env p = (res, p1)" by fastforce
  with run obtain l1 where l1: "res = Inr l1" by (cases res) (auto simp: Resync_def)
  obtain res2 p2 where r: "fetchBlockReceipts env (hd_Hash l1) p1 = (res2, p2)" by fastforce
  with run l l1 obtain rs where rs: "res2 = Inr rs" "rs \<noteq> []"
    by (cases res2) (auto simp: Resync_def split: if_splits)
  obtain num where num: "hd_Number l1 = Some num" using latest_header_number l l1 by blast
  note fr = frame_trans [OF getLastestBlockHeader_frame [OF l, THEN conjunct1] fetchBlockReceipts_frame [OF r, THEN conjunct1]]
  from run [unfolded Resync_fetched [OF l [unfolded l1] num r [unfolded rs(1)] rs(2)]]
  obtain p3 where u: "UpdateBlockInfoForAnalysis env l1
        (p2\<lparr>ps_analyzer := Analyzer_Reset (ps_analyzer p2),
            ps_store := AddBlock (block_of l1 num rs []) (Store_Clear (ps_store p2))\<rparr>) = Some p3"
    and p': "l1 = latest" "p' = p3\<lparr>ps_pool := Pool_Clear (ps_pool p3), ps_analyzer := SetReady (ps_analyzer p3)\<rparr>"
    by (auto simp: bind_eq_Some_conv)
  note f = UpdateBlockInfo_fields [OF u]
  have data: "GetBlockData (AddBlock (block_of l1 num rs []) (Store_Clear (ps_store p))) = [block_of l1 num rs []]"
    by (rule block_history.resync_view) (use inv in simp_all)
  have "analyzed env latest [block_of latest num rs []] (ps_analyzer p3)"
    using UpdateBlockInfo_analyzed [OF u num] fr data by (simp add: p'(1) frame_def)
  then have "analyzed env latest [block_of latest num rs []] (ps_analyzer p')"
    by (simp add: p' analyzed_def SetReady_def)
  with that [of p1 rs p2 num] l l1 r rs num fr f show ?thesis
    by (simp add: p' frame_def SetReady_def)
qed

text \<open>
  C10. Resync is all or nothing. A failed resync leaves the pool, the block store, the analyzer and
  the gRPC client as they were. A successful one empties the pool, leaves the latest block as the
  only stored one, and the analyzer ready with exactly that block's data.
\<close>

theorem Resync_all_or_nothing:
  assumes "store_inv (ps_store p)" "0 < st_max (ps_store p)" "Resync env p = Some (res, p')"
  shows "case res of
      Inl e \<Rightarrow> ps_pool p' = ps_pool p \<and> ps_store p' = ps_store p \<and> ps_analyzer p' = ps_analyzer p \<and> ps_grpc p' = ps_grpc p
    | Inr latest \<Rightarrow> \<exists>num rs. hd_Number latest = Some num \<and> rs \<noteq> [] \<and>
        pool_view (ps_pool p') = Map.empty \<and> GetBlockData (ps_store p') = [block_of latest num rs []] \<and>
        an_ready (ps_analyzer p') \<and> analyzed env latest (GetBlockData (ps_store p')) (ps_analyzer p') \<and>
        ps_grpc p' = ps_grpc p"
proof (cases res)
  case (Inl e)
  with Resync_error assms(3) show ?thesis by (fastforce simp: frame_def)
next
  case (Inr latest)
  from Resync_done [OF assms(1,2) assms(3) [unfolded Inr]] obtain num rs where
    *: "hd_Number latest = Some num" "rs \<noteq> []" "ps_pool p' = Pool_Clear (ps_pool p)"
    "ps_store p' = AddBlock (block_of latest num rs []) (Store_Clear (ps_store p))"
    "ps_grpc p' = ps_grpc p" "an_ready (ps_analyzer p')"
    "analyzed env latest [block_of latest num rs []] (ps_analyzer p')" by metis
  have "GetBlockData (ps_store p') = [block_of latest num rs []]"
    unfolding * by (rule block_history.resync_view) (use assms in simp_all)
  with * Inr Pool_Clear_correct(2) show ?thesis by auto
qed

lemma sample_latest:
  "getLastestBlockHeader sample_proc_env sample_process =
     (Inr (sample_header (Some 102)), sample_process\<lparr>ps_world := 6\<rparr>)"
  by (simp add: getLastestBlockHeader_def rpcCall_def EthClientFunc_def sample_process_def NewProcess_def
      sample_manager_def sample_proc_env_def sample_env_def attempt_def Client_Wait_def sample_client_def
      sample_api_def mkCost_def cost_defs RotateInterval_def sample_header_def Let_def)

theorem Resync_all_or_nothing_witness:
  "\<exists>p'. Resync sample_proc_env sample_process = Some (Inr (sample_header (Some 102)), p') \<and>
     pool_view (ps_pool p') = Map.empty \<and> length (GetBlockData (ps_store p')) = 1 \<and> an_ready (ps_analyzer p')"
proof -
  let ?h = "sample_header (Some 102)" and ?p1 = "sample_process\<lparr>ps_world := 6\<rparr>"
  have fetch: "fetchBlockReceipts sample_proc_env (hd_Hash ?h) ?p1 = (Inr node_receipts, sample_process\<lparr>ps_world := 7\<rparr>)"
    by (simp add: fetchBlockReceipts_def rpcCall_def EthClientFunc_def sample_process_def NewProcess_def
        sample_manager_def sample_proc_env_def sample_env_def attempt_def Client_Wait_def sample_client_def
        sample_api_def mkCost_def cost_defs RotateInterval_def node_receipts_def Let_def)
  note run = Resync_fetched [OF sample_latest sample_number(1) fetch sample_number(2)]
  have "CalculateNextBaseFee (hd_BaseFee ?h) (hd_GasUsed ?h) (hd_GasLimit ?h) \<noteq> None" by code_simp
  moreover have "hd_BaseFee ?h \<noteq> None" by (simp add: sample_header_def)
  ultimately have "Resync sample_proc_env sample_process \<noteq> None"
    using sample_tip_pool unfolding run
    by (auto simp: bind_eq_None_conv UpdateBlockInfo_None_iff [OF sample_number(1)] BlockPercentiles_def
        sample_process_def NewProcess_def Store_Clear_def AddBlock_def GetBlockData_def Analyzer_Reset_def)
  then obtain p' where p': "Resync sample_proc_env sample_process = Some (Inr ?h, p')"
    unfolding run by (auto simp: bind_eq_None_conv bind_eq_Some_conv)
  with Resync_all_or_nothing [OF sample_process_inv(2,3) p'] show ?thesis by auto
qed

end
