(* ===== verification/Processor_Invariant.thy ===== *)
theory Processor_Invariant
  imports Eth_Processor_Props
begin

text \<open>
  The invariant of the whole processor: every component keeps its own invariant under every
  operation, in every order. The transactions come from the Ethereum nodes; the hypothesis about
  them (\<open>chain_law\<close>) is that a transaction hash determines the sender and the nonce.
\<close>

section \<open>Results of remote calls\<close>

lemma attempt_source: "attempt env cost fn c w = (Inr x, w') \<Longrightarrow> \<exists>c w0. fst (fn c w0) = Inr x"
  by (auto simp: attempt_def split: option.splits prod.splits sum.splits) (metis fst_conv)

lemma failover_source:
  "failover env cost fn idx js e r w = (Inr x, r', w') \<Longrightarrow> \<exists>c w0. fst (fn c w0) = Inr x"
  by (induction js arbitrary: e w) (auto simp: Let_def split: prod.splits sum.splits dest: attempt_source)

lemma rpcCall_source:
  assumes "rpcCall env cost fn p = (Inr x, p')"
  shows "\<exists>c w0. fst (fn c w0) = Inr x"
  using assms
  by (auto simp: rpcCall_def EthClientFunc_def Let_def split: prod.splits sum.splits if_splits
      dest: attempt_source failover_source)

section \<open>The invariant\<close>

definition chain_law ::
  "(Hash \<Rightarrow> Address \<times> u64) \<Rightarrow> (Transaction \<Rightarrow> Address option) \<Rightarrow> ('c, 'w) eth_api \<Rightarrow> bool" where
  "chain_law key signer api \<longleftrightarrow>
     (\<forall>c hs w elem j t a. fst (api_BatchTx api c hs w) = Inr elem \<longrightarrow> elem j = (None, Some t) \<longrightarrow>
        signer t = Some a \<longrightarrow> key (tx_Hash t) = (a, tx_Nonce t))"

definition env_ok ::
  "(Hash \<Rightarrow> Address \<times> u64) \<Rightarrow> (Transaction \<Rightarrow> Address option) \<Rightarrow> ('c, 'w) proc_env \<Rightarrow> bool" where
  "env_ok key signer env \<longleftrightarrow>
     is_range_order (pe_ordStat env) \<and> is_range_order (pe_ordBlock env) \<and> chain_law key signer (pe_api env)"

definition proc_inv ::
  "(Hash \<Rightarrow> Address \<times> u64) \<Rightarrow> (Transaction \<Rightarrow> Address option) \<Rightarrow> ('c, 'w) Process \<Rightarrow> bool" where
  "proc_inv key signer p \<longleftrightarrow>
     pool_inv key (ps_pool p) \<and> pp_Signer (ps_pool p) = signer \<and>
     store_inv (ps_store p) \<and> 0 < st_max (ps_store p) \<and> mgr_ok (ps_rpc p) \<and> client_ok (ps_grpc p)"

lemma frame_inv: "frame p p' \<Longrightarrow> proc_inv key signer p \<Longrightarrow> proc_inv key signer p'"
  by (simp add: frame_def proc_inv_def)

lemma incErrors_inv [simp]: "proc_inv key signer (incErrors f p) = proc_inv key signer p"
  by (simp add: incErrors_def proc_inv_def)

lemma collectResults_valid:
  assumes "collectResults elem js valid e = (valid', e')"
  shows "set valid' \<subseteq> set valid \<union> {x. \<exists>j \<in> set js. \<exists>t. elem j = (None, Some t) \<and> x = Some t}"
  using assms
proof (induction js arbitrary: valid e)
  case (Cons j js)
  obtain err tx where el: "elem j = (err, tx)" by fastforce
  show ?case
  proof (cases "err = None \<and> tx \<noteq> None")
    case True
    then obtain t where "err = None" "tx = Some t" by blast
    with Cons.IH [of "valid @ [Some t]" e] Cons.prems el show ?thesis by fastforce
  next
    case False
    then have "\<exists>e1. collectResults elem js valid e1 = (valid', e')"
      using Cons.prems el by (cases err; cases tx) auto
    with Cons.IH show ?thesis by fastforce
  qed
qed simp

lemma getTxChunk_inv:
  assumes env: "env_ok key signer env" and inv: "proc_inv key signer p"
  shows "proc_inv key signer (getTxChunk env hs p)"
proof -
  obtain res p1 where r: "rpcCall env (mkCost (int (length hs) * getTxCuPerTx) (int (length hs)))
      (\<lambda>c. api_BatchTx (pe_api env) c hs) p = (res, p1)" by fastforce
  have inv1: "proc_inv key signer p1" using rpcCall_frame [OF r] inv frame_inv by blast
  show ?thesis
  proof (cases res)
    case (Inl err)
    with r inv1 show ?thesis by (simp add: getTxChunk_def proc_inv_def)
  next
    case (Inr elem)
    obtain valid e where v: "collectResults elem [0 ..< length hs] [] (ps_errors p1) = (valid, e)" by fastforce
    from rpcCall_source [OF r [unfolded Inr]] obtain c w0 where
      "fst (api_BatchTx (pe_api env) c hs w0) = Inr elem" by blast
    then have "keyed_batch key signer valid"
      using env collectResults_valid [OF v] unfolding keyed_batch_def env_ok_def chain_law_def by fastforce
    then have "pool_inv key (PushBatch valid b t (ps_pool p1))" "pp_Signer (PushBatch valid b t (ps_pool p1)) = signer" for b t
      using PushBatch_correct(1,3) [of key "ps_pool p1" valid] inv1 by (simp_all add: proc_inv_def)
    with r inv1 v Inr show ?thesis by (simp add: getTxChunk_def proc_inv_def Let_def split: prod.splits)
  qed
qed

lemma getTxLoop_inv: "env_ok key signer env \<Longrightarrow> proc_inv key signer p \<Longrightarrow> proc_inv key signer (getTxLoop env hs p)"
  by (induction env hs p rule: getTxLoop.induct) (subst getTxLoop.simps, simp add: getTxChunk_inv)

lemma GetTxInfo_inv: "env_ok key signer env \<Longrightarrow> proc_inv key signer p \<Longrightarrow> proc_inv key signer (GetTxInfo env hs p)"
  by (simp add: GetTxInfo_def getTxLoop_inv)

lemma SendFeeBuckets_inv: "proc_inv key signer p \<Longrightarrow> proc_inv key signer (SendFeeBucketsToGrpc env p)"
  by (auto simp: SendFeeBucketsToGrpc_def readClock_def proc_inv_def Let_def FeeBucketSend_spec(1) split: prod.splits)

lemma UpdateBlockInfo_inv:
  assumes "UpdateBlockInfoForAnalysis env header p = Some p'" "proc_inv key signer p"
  shows "proc_inv key signer p'"
  using UpdateBlockInfo_fields [OF assms(1)] assms(2) by (simp add: proc_inv_def)

lemma removeExpired_inv:
  "env_ok key signer env \<Longrightarrow> proc_inv key signer p \<Longrightarrow> proc_inv key signer (removeExpired env n p)"
  by (auto simp: proc_inv_def env_ok_def RemoveExpired_correct)

lemma RemoveByReceipts_inv:
  assumes "env_ok key signer env" "proc_inv key signer p"
    and "RemoveByReceipts ord header rs (ps_pool p) = Some (stats, cnt, pool)"
  shows "proc_inv key signer (p\<lparr>ps_pool := pool\<rparr>)"
proof -
  obtain num smap where
    "receiptLoop (big_Uint64 num) (hd_Time header) rs (ps_pool p, fmempty, 0) = Some (pool, smap, cnt)"
    using RemoveByReceipts_Some [OF assms(3)] by metis
  with assms(2) receiptLoop_correct show ?thesis by (fastforce simp: proc_inv_def)
qed

lemma AddBlock_inv: "proc_inv key signer p \<Longrightarrow> proc_inv key signer (p\<lparr>ps_store := AddBlock b (ps_store p)\<rparr>)"
  by (simp add: proc_inv_def block_history.add_inv)

section \<open>Every operation keeps the invariant\<close>

lemma fetch_inv:
  "fetchBlockReceipts env h p = (res, p') \<Longrightarrow> proc_inv key signer p \<Longrightarrow> proc_inv key signer p'"
  using fetchBlockReceipts_frame frame_inv by blast

lemma latest_inv:
  "getLastestBlockHeader env p = (res, p') \<Longrightarrow> proc_inv key signer p \<Longrightarrow> proc_inv key signer p'"
  using getLastestBlockHeader_frame frame_inv by blast

lemma ProcessBlock_inv:
  assumes env: "env_ok key signer env" and inv: "proc_inv key signer p"
    and run: "ProcessBlock env hdr p = Some (err, p')"
  shows "proc_inv key signer p'"
proof (cases err)
  case (Some e)
  show ?thesis
    using run [unfolded Some] inv by (cases rule: err_cases) (auto dest: fetch_inv)
next
  case None
  then obtain header num where h: "hdr = Some header" "hd_Number header = Some num"
    using run by (auto simp: ProcessBlock_def split: option.splits)
  obtain res p1 where f: "fetchBlockReceipts env (hd_Hash header) p = (res, p1)" by fastforce
  have inv1: "proc_inv key signer p1" using fetch_inv [OF f inv] .
  obtain rs where rs: "res = Inr rs" using run h f None by (cases res) (auto simp: ProcessBlock_failed)
  show ?thesis
  proof (cases "rs = []")
    case True
    with run h f rs inv1 env show ?thesis
      by (auto simp: ProcessBlock_empty bind_eq_Some_conv intro: UpdateBlockInfo_inv removeExpired_inv)
  next
    case False
    from run [unfolded h ProcessBlock_receipts [OF h(2) f [unfolded rs] False]] obtain stats cnt pool p2 where
      r: "RemoveByReceipts (pe_ordStat env) header rs (ps_pool p1) = Some (stats, cnt, pool)" and
      u: "UpdateBlockInfoForAnalysis env header (removeExpired env (big_Uint64 num)
        (p1\<lparr>ps_pool := pool, ps_store := AddBlock (block_of header num rs stats) (ps_store p1)\<rparr>)) = Some p2" and
      p': "p' = SendFeeBucketsToGrpc env p2"
      by (auto simp: bind_eq_Some_conv)
    have "proc_inv key signer (p1\<lparr>ps_pool := pool, ps_store := AddBlock (block_of header num rs stats) (ps_store p1)\<rparr>)"
      using AddBlock_inv [OF RemoveByReceipts_inv [OF env inv1 r]] by simp
    from SendFeeBuckets_inv [OF UpdateBlockInfo_inv [OF u removeExpired_inv [OF env this]]] show ?thesis
      unfolding p' .
  qed
qed

lemma CleanupFailedBlock_inv:
  assumes env: "env_ok key signer env" and inv: "proc_inv key signer p"
    and run: "CleanupFailedBlock env hdr p = Some (err, p')"
  shows "proc_inv key signer p'"
proof (cases "hdr = None \<or> hd_Number (the hdr) = None")
  case True
  with run inv show ?thesis by (auto simp: CleanupFailedBlock_def split: option.splits)
next
  case False
  then obtain header num where h: "hdr = Some header" "hd_Number header = Some num" by auto
  obtain res p1 where f: "fetchBlockReceipts env (hd_Hash header) p = (res, p1)" by fastforce
  have inv1: "proc_inv key signer p1" using fetch_inv [OF f inv] .
  show ?thesis
    using run h f inv1 RemoveByReceipts_inv [OF env inv1]
    by (auto simp: CleanupFailedBlock_def Let_def bind_eq_Some_conv split: sum.splits if_splits)
qed

lemma initialFromHeader_inv:
  assumes "initialFromHeader env header p = Some (err, p')" "proc_inv key signer p"
  shows "proc_inv key signer p'"
proof -
  obtain res p1 where f: "fetchBlockReceipts env (hd_Hash header) p = (res, p1)" by fastforce
  have "proc_inv key signer p1" using fetch_inv [OF f assms(2)] .
  with assms(1) f show ?thesis
    by (auto simp: initialFromHeader_def bind_eq_Some_conv split: sum.splits if_splits
        intro: UpdateBlockInfo_inv AddBlock_inv)
qed

lemma SetReady_inv [simp]: "proc_inv key signer (p\<lparr>ps_analyzer := a\<rparr>) = proc_inv key signer p"
  by (simp add: proc_inv_def)

lemma Initialize_inv:
  assumes "Initialize env p = Some (res, p')" "proc_inv key signer p"
  shows "proc_inv key signer p'"
proof -
  obtain l p1 where f: "getLastestBlockHeader env p = (l, p1)" by fastforce
  have "proc_inv key signer p1" using latest_inv [OF f assms(2)] .
  with assms(1) f show ?thesis
    by (auto simp: Initialize_def bind_eq_Some_conv split: sum.splits option.splits dest: initialFromHeader_inv)
qed

lemma Resync_inv:
  assumes run: "Resync env p = Some (res, p')" and inv: "proc_inv key signer p"
  shows "proc_inv key signer p'"
proof (cases res)
  case (Inl e)
  with Resync_error run frame_inv inv show ?thesis by blast
next
  case (Inr latest)
  have st: "store_inv (ps_store p)" "0 < st_max (ps_store p)" using inv by (simp_all add: proc_inv_def)
  from Resync_done [OF st run [unfolded Inr]] obtain num rs p2 where
    "frame p p2" "ps_rpc p' = ps_rpc p2" "ps_pool p' = Pool_Clear (ps_pool p)"
    "ps_store p' = AddBlock (block_of latest num rs []) (Store_Clear (ps_store p))" "ps_grpc p' = ps_grpc p"
    by metis
  with inv show ?thesis
    by (simp add: proc_inv_def frame_def Pool_Clear_correct block_history.add_inv block_history.clear_inv)
      (simp add: Pool_Clear_def Store_Clear_def)
qed

lemma CompareFeeHistory_frame:
  assumes "CompareFeeHistory env p = Some (out, p')"
  shows "frame p p' \<and> ps_errors p' = ps_errors p"
  using assms
  by (auto simp: CompareFeeHistory_def Let_def bind_eq_Some_conv split: if_splits prod.splits sum.splits
      dest!: rpcCall_frame)

lemma analyzeTick_inv:
  assumes "proc_inv key signer p"
  shows "proc_inv key signer (analyzeTick env ordAddr k3 k4 p)"
  using assms
  by (auto simp: analyzeTick_def readClock_def proc_inv_def GasPredictResultSend_def Let_def enqueue_spec(1)
      split: prod.splits option.splits)

lemma processMsg_ok: "processMsg senv req c w = (e, c', w') \<Longrightarrow> client_ok c' = client_ok c"
  by (auto simp: processMsg_def client_ok_def split: option.splits prod.splits sum.splits if_splits)

lemma processStream_ok:
  "processStream senv c w = (e, c', w') \<Longrightarrow> client_ok c \<Longrightarrow> client_ok c'"
proof (induction senv c w rule: processStream.induct)
  case (1 senv c w)
  show ?case
  proof (cases "se_Done senv w = None \<and> chan_buf (gc_GasPredictCh c) \<noteq> []")
    case False
    with 1(2,3) show ?thesis by (auto simp: processStream.simps [of senv c] split: option.splits)
  next
    case True
    then obtain req reqs where alive: "se_Done senv w = None" and Cons: "chan_buf (gc_GasPredictCh c) = req # reqs"
      by (auto simp: neq_Nil_conv)
    let ?c = "c\<lparr>gc_GasPredictCh := (gc_GasPredictCh c)\<lparr>chan_buf := reqs\<rparr>\<rparr>"
    obtain e1 c1 w1 where m: "processMsg senv req ?c w = (e1, c1, w1)" using prod_cases3 by blast
    have "client_ok ?c" using 1(3) Cons by (simp add: client_ok_def chan_ok_def)
    then have ok: "client_ok c1" using processMsg_ok [OF m] by simp
    show ?thesis
    proof (cases e1)
      case None
      with 1(2) alive Cons m have "processStream senv c1 w1 = (e, c', w')" by (simp add: processStream.simps [of senv c])
      with 1(1) [OF alive Cons m [symmetric] None refl] ok show ?thesis by blast
    next
      case (Some x)
      with 1(2) alive Cons m ok show ?thesis by (simp add: processStream.simps [of senv c])
    qed
  qed
qed

lemma startStreamWorker_ok:
  "startStreamWorker cenv st c w = (st', c', w') \<Longrightarrow> client_ok c \<Longrightarrow> client_ok c'"
  by (cases st) (auto split: if_splits prod.splits bool.splits option.splits dest: processStream_ok)

lemma startUnaryWoker_ok:
  "startUnaryWoker uenv isCtx c w = (on, c', w') \<Longrightarrow> client_ok c \<Longrightarrow> client_ok c'"
  by (auto simp: startUnaryWoker_def client_ok_def chan_ok_def chan_try_recv_def Let_def
      split: if_splits list.splits option.splits prod.splits)

section \<open>Reachable processors\<close>

text \<open>
  The steps of the running server on the shared components: the operations of the processor, the
  tick of the analyzer, and the two gRPC workers taking messages. The environment may differ from
  step to step.
\<close>

inductive proc_step ::
  "(Hash \<Rightarrow> Address \<times> u64) \<Rightarrow> (Transaction \<Rightarrow> Address option) \<Rightarrow> ('c, 'w) Process \<Rightarrow> ('c, 'w) Process \<Rightarrow> bool"
  for key signer where
  txs: "env_ok key signer env \<Longrightarrow> proc_step key signer p (GetTxInfo env hs p)"
| block: "env_ok key signer env \<Longrightarrow> ProcessBlock env hdr p = Some (err, p') \<Longrightarrow> proc_step key signer p p'"
| cleanup: "env_ok key signer env \<Longrightarrow> CleanupFailedBlock env hdr p = Some (err, p') \<Longrightarrow> proc_step key signer p p'"
| initialize: "Initialize env p = Some (res, p') \<Longrightarrow> proc_step key signer p p'"
| resync: "Resync env p = Some (res, p') \<Longrightarrow> proc_step key signer p p'"
| header: "HeaderByNumber env n p = (h, p') \<Longrightarrow> proc_step key signer p p'"
| compare: "CompareFeeHistory env p = Some (out, p') \<Longrightarrow> proc_step key signer p p'"
| tick: "proc_step key signer p (analyzeTick env ordAddr k3 k4 p)"
| stream: "startStreamWorker cenv st (ps_grpc p) (ps_world p) = (st', c, w) \<Longrightarrow>
    proc_step key signer p (p\<lparr>ps_grpc := c, ps_world := w\<rparr>)"
| unary: "startUnaryWoker uenv isCtx (ps_grpc p) (ps_world p) = (on, c, w) \<Longrightarrow>
    proc_step key signer p (p\<lparr>ps_grpc := c, ps_world := w\<rparr>)"

inductive_cases proc_stepE: "proc_step key signer p p'"

inductive proc_reachable ::
  "(Hash \<Rightarrow> Address \<times> u64) \<Rightarrow> (Transaction \<Rightarrow> Address option) \<Rightarrow> ('c, 'w) Process \<Rightarrow> bool"
  for key signer where
  new: "NewPendingMemPool signers chainID ttl = Some pool \<Longrightarrow> pp_Signer pool = signer \<Longrightarrow>
    NewBlockStore maxSize = Some store \<Longrightarrow> 0 < maxSize \<Longrightarrow>
    NewRpcManager renv ord rpcs w0 = (Inr r, w) \<Longrightarrow> NewAnalyzer exp64 maxSize = Some a \<Longrightarrow>
    proc_reachable key signer (NewProcess pool store r a newGasPredictClient errs zero_Count w)"
| step: "proc_reachable key signer p \<Longrightarrow> proc_step key signer p p' \<Longrightarrow> proc_reachable key signer p'"

lemma proc_step_inv: "proc_step key signer p p' \<Longrightarrow> proc_inv key signer p \<Longrightarrow> proc_inv key signer p'"
proof (induction rule: proc_step.induct)
  case (stream cenv st p st' c w)
  then show ?case by (simp add: proc_inv_def startStreamWorker_ok)
next
  case (unary uenv isCtx p on c w)
  then show ?case by (simp add: proc_inv_def startUnaryWoker_ok)
next
  case (header env n p h p')
  then show ?case using HeaderByNumber_frame frame_inv by blast
next
  case (compare env p out p')
  then show ?case using CompareFeeHistory_frame frame_inv by blast
qed (blast intro: GetTxInfo_inv ProcessBlock_inv CleanupFailedBlock_inv Initialize_inv Resync_inv analyzeTick_inv)+

lemma proc_reachable_inv: "proc_reachable key signer p \<Longrightarrow> proc_inv key signer p"
proof (induction rule: proc_reachable.induct)
  case (new signers chainID ttl pool maxSize store renv ord rpcs w0 r w exp64 a errs)
  then show ?case
    using NewPendingMemPool_correct(1) [OF new(1), of key] NewBlockStore_inv [OF new(3)] NewRpcManager_ok [OF new(5)]
      newGasPredictClient_ok
    by (auto simp: proc_inv_def NewProcess_def NewBlockStore_def split: if_splits)
qed (rule proc_step_inv)

text \<open>
  Invariant of the server. Whatever the processor, the analyzer and the gRPC workers do, in
  whatever order, the indexes of the pool stay consistent, the block store keeps at most its
  maximum of blocks, the active provider exists, and the two channels stay within 3 and 1 messages.
\<close>

theorem processor_invariant:
  assumes "proc_reachable key signer p"
  shows "pool_inv key (ps_pool p) \<and> pp_Signer (ps_pool p) = signer \<and>
    int (length (GetBlockData (ps_store p))) \<le> st_max (ps_store p) \<and>
    rm_active (ps_rpc p) < length (rm_clients (ps_rpc p)) \<and>
    length (chan_buf (gc_GasPredictCh (ps_grpc p))) \<le> 3 \<and> length (chan_buf (gc_FeeBucketCh (ps_grpc p))) \<le> 1"
  using proc_reachable_inv [OF assms]
  by (simp add: proc_inv_def store_inv_def GetBlockData_def mgr_ok_def client_ok_def chan_ok_def buffer_sizes)

lemma sample_env_ok: "env_ok sample_key (\<lambda>_. Some 7) sample_proc_env"
  by (simp add: env_ok_def sample_orders) (simp add: chain_law_def sample_proc_env_def sample_api_def)

text \<open>A new server with one provider that has asked for one transaction.\<close>

theorem processor_invariant_witness:
  "\<exists>p :: (nat, int) Process. proc_reachable sample_key (\<lambda>_. Some 7) p \<and> pool_inv sample_key (ps_pool p) \<and>
     rm_active (ps_rpc p) < length (rm_clients (ps_rpc p))"
proof -
  define rpcs where "rpcs = fmap_of_list [(''alchemy'', ''https://alchemy'')]"
  have "fst (NewRpcManager sample_env (\<lambda>_. [''alchemy'']) rpcs 0) \<noteq> Inl e" for e
    by (simp add: NewRpcManager_def rpcPolicies_def NewEthClient_def sample_env_def)
  then obtain r w where r: "NewRpcManager sample_env (\<lambda>_. [''alchemy'']) rpcs 0 = (Inr r, w)"
    by (metis prod.collapse sum.exhaust)
  obtain a where a: "NewAnalyzer (\<lambda>x. x) 10 = Some a" by (simp add: NewAnalyzer_def)
  have st: "NewBlockStore 10 = Some \<lparr>st_blocks = [], st_max = 10\<rparr>" by (simp add: NewBlockStore_def)
  have sg: "pp_Signer sample_pool = (\<lambda>_. Some 7)" by (simp add: sample_pool_def)
  have n: "(0 :: int) < 10" by simp
  note new = proc_reachable.new [OF sample_new sg st n r a, of sample_key]
  note reach = proc_reachable.step [OF new proc_step.txs [OF sample_env_ok]]
  from processor_invariant [OF reach] reach show ?thesis by blast
qed

end
