(* ===== verification/Block_Pipeline_Props.thy ===== *)
theory Block_Pipeline_Props
  imports Block_Pipeline Processor_Invariant
begin

text \<open>
  What the block pipeline relies on and what it gives. The locale \<open>block_processor\<close> states the
  contract of the interface \<open>BlockProcessor\<close>: \<open>seen\<close> is the list of block numbers that the processor
  holds, newest first, and \<open>ok\<close> its invariant. Inside it the order of the blocks is proved for every
  operation of the pipeline; the interpretation \<open>eth\<close> discharges the contract for \<open>Process\<close>, with the
  block store as the list. Then termination of the loop, and what is left after it.
\<close>

section \<open>Induction over the rounds of the main loop\<close>

lemma procAvailable_rounds [consumes 1, case_names gap block]:
  assumes run: "procAvailable env s = Some (Some s')"
    and gap: "\<And>s s'. fmlookup (bl_pendingBlock (fst s)) (bl_nextBlockNum (fst s)) = None \<Longrightarrow>
      checkBlockGap env s = Some s' \<Longrightarrow> P s s'"
    and block: "\<And>s h s1 s'. fmlookup (bl_pendingBlock (fst s)) (bl_nextBlockNum (fst s)) = Some h \<Longrightarrow>
      procBlock env (bl_nextBlockNum (fst s)) h s = Some s1 \<Longrightarrow> P s1 s' \<Longrightarrow> P s s'"
  shows "P s s'"
proof -
  have "e = env \<longrightarrow> (\<forall>s'. y = Some s' \<longrightarrow> P s s')" if "procAvailable e s = Some y" for e s y
  proof (rule procAvailable.raw_induct [OF _ that])
    fix proc e s y
    assume IH: "\<And>e s y. proc e s = Some y \<Longrightarrow> e = env \<longrightarrow> (\<forall>s'. y = Some s' \<longrightarrow> P s s')"
      and body: "(case fmlookup (bl_pendingBlock (fst s)) (bl_nextBlockNum (fst s)) of
          None \<Rightarrow> Some (checkBlockGap e s)
        | Some header \<Rightarrow> (case procBlock e (bl_nextBlockNum (fst s)) header s of
            None \<Rightarrow> Some None | Some s' \<Rightarrow> proc e s')) = Some y"
    have "P s s'" if e: "e = env" and y: "y = Some s'" for s'
    proof (cases "fmlookup (bl_pendingBlock (fst s)) (bl_nextBlockNum (fst s))")
      case None
      with body e y show ?thesis by (intro gap) simp_all
    next
      case (Some h)
      with body y obtain s1 where s1: "procBlock e (bl_nextBlockNum (fst s)) h s = Some s1" "proc e s1 = Some y"
        by (cases "procBlock e (bl_nextBlockNum (fst s)) h s") auto
      have "P s1 s'" using IH [OF s1(2)] e y by blast
      with Some s1(1) show ?thesis unfolding e by (rule block)
    qed
    then show "e = env \<longrightarrow> (\<forall>s'. y = Some s' \<longrightarrow> P s s')" by blast
  qed
  with run show ?thesis by blast
qed

text \<open>The three outcomes of one round.\<close>

lemma procBlock_shape:
  assumes "procBlock env k h (b, p) = Some (b', p')"
  obtains (success) "b' = advance k b"
  | (reorg) latest n p0 p1 where "b' = b\<lparr>bl_pendingBlock := fmupd k latest (bl_pendingBlock b)\<rparr>"
      "hd_Number h = Some n" "bp_HeaderByNumber (pi_proc env) (big_Uint64 n) p0 = (Inr (Some latest), p1)"
      "hd_Hash latest \<noteq> hd_Hash h"
  | (failed) b1 where "failedBlock h b = Some b1" "b' = advance k b1"
proof -
  from assms obtain err p1 where 1: "procWithRetry env h p = Some (err, p1)"
    by (auto simp: procBlock_def bind_eq_Some_conv)
  show ?thesis
  proof (cases err)
    case None
    with assms 1 success show ?thesis by (simp add: procBlock_def)
  next
    case (Some e)
    with assms 1 obtain st p2 where 2: "checkStale env (Some h) p1 = Some (st, p2)"
      by (auto simp: procBlock_def bind_eq_Some_conv)
    show ?thesis
    proof (cases "\<exists>latest. st = Inr (latest, True)")
      case True
      then obtain latest where st: "st = Inr (latest, True)" ..
      with assms 1 2 Some have b': "b' = b\<lparr>bl_pendingBlock := fmupd k latest (bl_pendingBlock b)\<rparr>"
        by (auto simp: procBlock_def)
      from 2 st obtain n where "hd_Number h = Some n"
        "bp_HeaderByNumber (pi_proc env) (big_Uint64 n) p1 = (Inr (Some latest), p2)" "hd_Hash latest \<noteq> hd_Hash h"
        by (auto simp: checkStale_def split: option.splits prod.splits sum.splits)
      with b' show ?thesis by (rule reorg)
    next
      case False
      then have no: "(case st of Inr (latest, True) \<Rightarrow> x latest | _ \<Rightarrow> y) = y" for x y
        by (auto split: sum.splits prod.splits bool.splits)
      from assms 1 2 Some obtain b1 where "failedBlock h b = Some b1" "b' = advance k b1"
        by (auto simp: procBlock_def no bind_eq_Some_conv)
      then show ?thesis by (rule failed)
    qed
  qed
qed

section \<open>The contract of the processor\<close>

locale block_processor =
  fixes env :: "('e, 'p) pipe_env"
    and seen :: "'p \<Rightarrow> u64 list"
    and ok :: "'p \<Rightarrow> bool"
  assumes process_fail: "ok p \<Longrightarrow> bp_ProcessBlock (pi_proc env) hdr p = Some (Some e, p') \<Longrightarrow> ok p' \<and> seen p' = seen p"
    and process_done: "ok p \<Longrightarrow> bp_ProcessBlock (pi_proc env) (Some h) p = Some (None, p') \<Longrightarrow> hd_Number h = Some n \<Longrightarrow>
      ok p' \<and> (seen p' = seen p \<or> (\<exists>m. seen p' = take m (big_Uint64 n # seen p)))"
    and header_frame: "ok p \<Longrightarrow> bp_HeaderByNumber (pi_proc env) k p = (r, p') \<Longrightarrow> ok p' \<and> seen p' = seen p"
    and cleanup_frame: "ok p \<Longrightarrow> bp_CleanupFailedBlock (pi_proc env) hdr p = Some (e', p') \<Longrightarrow> ok p' \<and> seen p' = seen p"
    and compare_frame: "ok p \<Longrightarrow> bp_CompareFeeHistory (pi_proc env) p = Some p' \<Longrightarrow> ok p' \<and> seen p' = seen p"
    and wait_frame: "ok p \<Longrightarrow> pi_wait env d p = (w, p') \<Longrightarrow> ok p' \<and> seen p' = seen p"
    and resync_fail: "ok p \<Longrightarrow> bp_Resync (pi_proc env) p = Some (Inl e, p') \<Longrightarrow> ok p' \<and> seen p' = seen p"
    and resync_done: "ok p \<Longrightarrow> bp_Resync (pi_proc env) p = Some (Inr hdr, p') \<Longrightarrow>
      ok p' \<and> (\<exists>h n. hdr = Some h \<and> hd_Number h = Some n \<and> seen p' = [big_Uint64 n])"
    and initialize_done: "ok p \<Longrightarrow> bp_Initialize (pi_proc env) p = Some (Inr (Some h), p') \<Longrightarrow> hd_Number h = Some n \<Longrightarrow>
      ok p' \<and> (\<exists>m. seen p' = take m (big_Uint64 n # seen p))"
begin

lemma retryLoop_frame:
  assumes "retryLoop env h n e0 p = Some (err, p')" "ok p" "hd_Number h = Some k" "e0 \<noteq> None \<or> n \<noteq> 0"
  shows "ok p' \<and> (err \<noteq> None \<longrightarrow> seen p' = seen p) \<and>
    (seen p' = seen p \<or> (\<exists>m. seen p' = take m (big_Uint64 k # seen p)))"
  using assms
proof (induction n arbitrary: e0 p)
  case (Suc n)
  from Suc.prems(1) obtain e1 p1 where 1: "bp_ProcessBlock (pi_proc env) (Some h) p = Some (e1, p1)"
    by (auto simp: bind_eq_Some_conv)
  show ?case
  proof (cases e1)
    case None
    with Suc.prems 1 process_done [of p h p1 k] show ?thesis by auto
  next
    case (Some x)
    note f1 = process_fail [OF Suc.prems(2) 1 [unfolded Some]]
    obtain we p2 where 2: "pi_wait env retryDelay p1 = (we, p2)" by fastforce
    note f2 = wait_frame [OF _ 2]
    show ?thesis
    proof (cases "n = 0 \<or> we \<noteq> None")
      case True
      with Suc.prems 1 2 f1 f2 Some show ?thesis by (auto split: if_splits)
    next
      case False
      with Suc.prems 1 2 Some have "retryLoop env h n (Some x) p2 = Some (err, p')" by auto
      from Suc.IH [OF this] f1 f2 Suc.prems(3) show ?thesis by auto
    qed
  qed
qed simp

lemma procWithRetry_frame:
  assumes "procWithRetry env h p = Some (err, p')" "ok p" "hd_Number h = Some k"
  shows "ok p' \<and> (err \<noteq> None \<longrightarrow> seen p' = seen p) \<and>
    (seen p' = seen p \<or> (\<exists>m. seen p' = take m (big_Uint64 k # seen p)))"
  using retryLoop_frame [OF assms(1) [unfolded procWithRetry_def] assms(2,3)] by (simp add: retryCount_def)

lemma checkStale_frame:
  assumes "checkStale env hdr p = Some (st, p')" "ok p"
  shows "ok p' \<and> seen p' = seen p"
  using assms header_frame
  by (fastforce simp: checkStale_def split: option.splits prod.splits sum.splits)

end

section \<open>Order of the blocks\<close>

text \<open>
  The node answers a request for a number with the header of that number, and no block has the
  largest 64-bit number.
\<close>

definition header_law :: "('e, 'p) BlockProcessor \<Rightarrow> bool" where
  "header_law pr \<longleftrightarrow>
     (\<forall>n p h p'. bp_HeaderByNumber pr n p = (Inr (Some h), p') \<longrightarrow> (\<exists>k. hd_Number h = Some k \<and> big_Uint64 k = n)) \<and>
     (\<forall>p h p' k. bp_Resync pr p = Some (Inr (Some h), p') \<longrightarrow> hd_Number h = Some k \<longrightarrow> big_Uint64 k \<noteq> - 1)"

definition pending_ok :: "blockPipeline \<Rightarrow> bool" where
  "pending_ok b \<longleftrightarrow>
     (\<forall>k h. fmlookup (bl_pendingBlock b) k = Some h \<longrightarrow>
        bl_nextBlockNum b \<le> k \<and> k \<noteq> - 1 \<and> (\<exists>n. hd_Number h = Some n \<and> big_Uint64 n = k))"

definition below :: "u64 list \<Rightarrow> u64 \<Rightarrow> bool" where
  "below ns next \<longleftrightarrow> sorted_wrt (>) ns \<and> (\<forall>n \<in> set ns. n < next)"

lemma word_less_Suc: "(k :: u64) \<noteq> - 1 \<Longrightarrow> k < k + 1"
proof -
  assume "k \<noteq> - 1"
  then have "k + 1 \<noteq> 0" by (metis add.commute add_eq_0_iff2 minus_unique)
  then show ?thesis by (simp add: unatSuc word_less_nat_alt add.commute)
qed

lemma word_Suc_le: "(n :: u64) \<le> k \<Longrightarrow> k \<noteq> n \<Longrightarrow> n + 1 \<le> k"
  by (simp add: inc_le)

lemma below_take:
  assumes "below ns n" "n \<noteq> - 1"
  shows "below (take m (n # ns)) (n + 1)" "below ns (n + 1)"
proof -
  have "below (n # ns) (n + 1)"
    using assms word_less_Suc [OF assms(2)] by (auto simp: below_def intro: order.strict_trans)
  then show "below (take m (n # ns)) (n + 1)" "below ns (n + 1)"
    by (auto simp: below_def sorted_wrt_take dest!: in_set_takeD)
qed

lemma pending_advance:
  assumes "pending_ok b"
  shows "pending_ok (advance (bl_nextBlockNum b) b)"
  using assms by (auto simp: pending_ok_def advance_def intro: word_Suc_le)

definition pipe_ok :: "('p \<Rightarrow> u64 list) \<Rightarrow> ('p \<Rightarrow> bool) \<Rightarrow> 'p pipe \<Rightarrow> bool" where
  "pipe_ok seen ok = (\<lambda>(b, p). ok p \<and> pending_ok b \<and> below (seen p) (bl_nextBlockNum b))"

lemma failedBlock_fields:
  assumes "failedBlock h b = Some b'"
  shows "bl_pendingBlock b' = bl_pendingBlock b" "bl_nextBlockNum b' = bl_nextBlockNum b"
  using assms by (auto simp: failedBlock_def bind_eq_Some_conv split: prod.splits bool.splits)

lemma wakeup_fields [simp]:
  "bl_pendingBlock (wakeup b) = bl_pendingBlock b" "bl_nextBlockNum (wakeup b) = bl_nextBlockNum b"
  by (simp_all add: wakeup_def)

lemma pending_fields:
  "bl_pendingBlock b' = bl_pendingBlock b \<Longrightarrow> bl_nextBlockNum b' = bl_nextBlockNum b \<Longrightarrow> pending_ok b' = pending_ok b"
  by (simp add: pending_ok_def)

context block_processor
begin

text \<open>The outcomes of one round, with what they mean for the processor.\<close>

lemma procBlock_cases:
  assumes law: "header_law (pi_proc env)" and ok: "ok p" and num: "hd_Number h = Some n"
    and run: "procBlock env blockNum h (b, p) = Some (b', p')"
  obtains (success) "b' = advance blockNum b" "ok p'"
      "seen p' = seen p \<or> (\<exists>m. seen p' = take m (big_Uint64 n # seen p))"
  | (reorg) latest k where "b' = b\<lparr>bl_pendingBlock := fmupd blockNum latest (bl_pendingBlock b)\<rparr>" "ok p'"
      "seen p' = seen p" "hd_Number latest = Some k" "big_Uint64 k = big_Uint64 n" "hd_Hash latest \<noteq> hd_Hash h"
  | (failed) b1 where "failedBlock h b = Some b1" "b' = advance blockNum b1" "ok p'" "seen p' = seen p"
proof -
  from run obtain err p1 where 1: "procWithRetry env h p = Some (err, p1)"
    by (auto simp: procBlock_def bind_eq_Some_conv)
  note f1 = procWithRetry_frame [OF 1 ok num]
  show ?thesis
  proof (cases err)
    case None
    with run 1 f1 show ?thesis by (intro success) (auto simp: procBlock_def)
  next
    case (Some e)
    with run 1 obtain st p2 where 2: "checkStale env (Some h) p1 = Some (st, p2)"
      by (auto simp: procBlock_def bind_eq_Some_conv)
    have f2: "ok p2" "seen p2 = seen p" using checkStale_frame [OF 2] f1 Some by simp_all
    show ?thesis
    proof (cases "\<exists>latest. st = Inr (latest, True)")
      case True
      then obtain latest where st: "st = Inr (latest, True)" ..
      with 2 num have h: "bp_HeaderByNumber (pi_proc env) (big_Uint64 n) p1 = (Inr (Some latest), p2)"
        "hd_Hash latest \<noteq> hd_Hash h"
        by (auto simp: checkStale_def split: prod.splits sum.splits option.splits)
      with law obtain k where "hd_Number latest = Some k" "big_Uint64 k = big_Uint64 n"
        unfolding header_law_def by blast
      with run 1 2 Some st f2 h(2) show ?thesis by (intro reorg [of latest k]) (auto simp: procBlock_def)
    next
      case False
      then have no: "(case st of Inr (latest, True) \<Rightarrow> x latest | _ \<Rightarrow> y) = y" for x y
        by (auto split: sum.splits prod.splits bool.splits)
      from run 1 2 Some num obtain b1 where "failedBlock h b = Some b1" "b' = advance blockNum b1" "p' = p2"
        by (auto simp: procBlock_def no bind_eq_Some_conv)
      with f2 show ?thesis by (intro failed) simp_all
    qed
  qed
qed

lemma procBlock_ok:
  assumes law: "header_law (pi_proc env)" and inv: "pipe_ok seen ok s"
    and h: "fmlookup (bl_pendingBlock (fst s)) (bl_nextBlockNum (fst s)) = Some h"
    and run: "procBlock env (bl_nextBlockNum (fst s)) h s = Some s'"
  shows "pipe_ok seen ok s'"
proof -
  obtain b p b' p' where s: "s = (b, p)" "s' = (b', p')" by (cases s, cases s')
  let ?k = "bl_nextBlockNum b"
  have b: "pending_ok b" "ok p" "below (seen p) ?k" using inv by (simp_all add: pipe_ok_def s)
  then obtain n where n: "hd_Number h = Some n" "big_Uint64 n = ?k" "?k \<noteq> - 1"
    using h by (auto simp: pending_ok_def s)
  note nx = below_take [OF b(3) n(3)]
  from law b(2) n(1) run [unfolded s fst_conv] show ?thesis
  proof (cases rule: procBlock_cases)
    case success
    with nx n show ?thesis
      by (auto simp: s pipe_ok_def pending_advance [OF b(1)]) (auto simp: advance_def)
  next
    case (reorg latest k)
    with b n show ?thesis by (auto simp: s pipe_ok_def pending_ok_def)
  next
    case (failed b1)
    note f = failedBlock_fields [OF failed(1)]
    have "pending_ok (advance ?k b1)"
      using pending_advance [of b1] pending_fields [OF f] b(1) f(2) by simp
    with failed nx f show ?thesis by (auto simp: s pipe_ok_def) (auto simp: advance_def)
  qed
qed

end

lemma gapNumbers_less: "num \<in> set (gapNumbers nxt highest) \<Longrightarrow> nxt \<le> num \<and> num < highest"
proof -
  assume "num \<in> set (gapNumbers nxt highest)"
  then obtain i where i: "num = of_nat i" "unat nxt \<le> i" "i < unat highest" by (auto simp: gapNumbers_def)
  moreover have "unat highest < 2 ^ LENGTH(64)" by (rule unsigned_less)
  ultimately have "unat num = i" by (simp add: unsigned_of_nat take_bit_nat_eq_self)
  with i show ?thesis by (simp add: word_le_nat_alt word_less_nat_alt)
qed

context block_processor
begin

lemma backfill_ok:
  assumes law: "header_law (pi_proc env)" and inv: "pipe_ok seen ok (b, p)"
    and nums: "\<forall>num \<in> set nums. bl_nextBlockNum b \<le> num \<and> num \<noteq> - 1"
  shows "pipe_ok seen ok (backfill env nums (b, p))"
  using inv nums
proof (induction nums arbitrary: b p)
  case Nil
  then show ?case by (simp add: pipe_ok_def pending_ok_def)
next
  case (Cons num nums)
  show ?case
  proof (cases "fmlookup (bl_pendingBlock b) num")
    case (Some h)
    with Cons show ?thesis by simp
  next
    case None
    obtain res p1 where r: "bp_HeaderByNumber (pi_proc env) num p = (res, p1)" by fastforce
    have f: "ok p1" "seen p1 = seen p" using header_frame [OF _ r] Cons.prems(1) by (simp_all add: pipe_ok_def)
    then have stay: "pipe_ok seen ok (b, p1)" using Cons.prems(1) by (simp add: pipe_ok_def)
    show ?thesis
    proof (cases "\<exists>h. res = Inr (Some h)")
      case True
      then obtain h where h: "res = Inr (Some h)" ..
      with law r obtain k where k: "hd_Number h = Some k" "big_Uint64 k = num" unfolding header_law_def by blast
      let ?b = "b\<lparr>bl_pendingBlock := fmupd num h (bl_pendingBlock b)\<rparr>"
      have "pipe_ok seen ok (?b, p1)"
        using stay k Cons.prems(2) by (auto simp: pipe_ok_def pending_ok_def)
      from Cons.IH [OF this] Cons.prems(2) None r h k show ?thesis by simp
    next
      case False
      then have "backfill env (num # nums) (b, p) = (b, p1)"
        using None r by (auto split: sum.splits option.splits)
      with stay show ?thesis by simp
    qed
  qed
qed

lemma Pipeline_resync_ok:
  assumes law: "header_law (pi_proc env)" and inv: "pipe_ok seen ok (b, p)" and run: "Pipeline_resync env (b, p) = Some s'"
  shows "pipe_ok seen ok s'"
proof -
  from run obtain res p1 where r: "bp_Resync (pi_proc env) p = Some (res, p1)"
    by (auto simp: Pipeline_resync_def bind_eq_Some_conv)
  have ok: "ok p" using inv by (simp add: pipe_ok_def)
  show ?thesis
  proof (cases res)
    case (Inl e)
    with run r resync_fail [OF ok r [unfolded Inl]] inv show ?thesis by (auto simp: Pipeline_resync_def pipe_ok_def)
  next
    case (Inr hdr)
    from resync_done [OF ok r [unfolded Inr]] obtain h n where
      h: "hdr = Some h" "hd_Number h = Some n" "seen p1 = [big_Uint64 n]" "ok p1" by blast
    with law r Inr have "big_Uint64 n \<noteq> - 1" unfolding header_law_def by blast
    then have "below [big_Uint64 n] (big_Uint64 n + 1)" by (simp add: below_def word_less_Suc)
    with run r Inr h show ?thesis by (auto simp: Pipeline_resync_def pipe_ok_def pending_ok_def)
  qed
qed

lemma checkBlockGap_ok:
  assumes law: "header_law (pi_proc env)" and inv: "pipe_ok seen ok s" and run: "checkBlockGap env s = Some s'"
  shows "pipe_ok seen ok s'"
proof -
  obtain b p where s: "s = (b, p)" by (cases s)
  have nums: "\<forall>num \<in> set (gapNumbers (bl_nextBlockNum b) (highestPending env b)). bl_nextBlockNum b \<le> num \<and> num \<noteq> - 1"
    using gapNumbers_less by (metis word_order.extremum_strict)
  show ?thesis
    using run inv Pipeline_resync_ok [OF law] backfill_ok [OF law _ nums]
    by (auto simp: s checkBlockGap_def Let_def split: if_splits)
qed

lemma procAvailable_ok:
  assumes "procAvailable env s = Some (Some s')" "header_law (pi_proc env)" "pipe_ok seen ok s"
  shows "pipe_ok seen ok s'"
  using assms(1,3)
proof (induction rule: procAvailable_rounds)
  case (gap s s')
  then show ?case using checkBlockGap_ok [OF assms(2)] by blast
next
  case (block s h s1 s')
  then show ?case using procBlock_ok [OF assms(2)] by blast
qed

lemma handleHeader_ok:
  assumes run: "handleHeader env hdr s = Some (Some s')" and law: "header_law (pi_proc env)" and inv: "pipe_ok seen ok s"
    and num: "\<And>h n. hdr = Some h \<Longrightarrow> hd_Number h = Some n \<Longrightarrow> big_Uint64 n \<noteq> - 1"
  shows "pipe_ok seen ok s'"
proof -
  obtain b p where s: "s = (b, p)" by (cases s)
  show ?thesis
  proof (cases "\<exists>h n. hdr = Some h \<and> hd_Number h = Some n \<and> \<not> big_Uint64 n < bl_nextBlockNum b \<and>
      fmlookup (bl_pendingBlock b) (big_Uint64 n) = None")
    case True
    then obtain h n where h: "hdr = Some h" "hd_Number h = Some n" "\<not> big_Uint64 n < bl_nextBlockNum b"
      "fmlookup (bl_pendingBlock b) (big_Uint64 n) = None" by blast
    let ?b = "b\<lparr>bl_pendingBlock := fmupd (big_Uint64 n) h (bl_pendingBlock b)\<rparr>"
    have "pipe_ok seen ok (?b, p)" using inv h num [OF h(1,2)] by (auto simp: s pipe_ok_def pending_ok_def)
    moreover have "procAvailable env (?b, p) = Some (Some s')" using run h by (simp add: handleHeader_def s)
    ultimately show ?thesis using procAvailable_ok law by blast
  next
    case False
    then have "s' = s" using run by (auto simp: handleHeader_def s Let_def split: option.splits if_splits)
    with inv show ?thesis by simp
  qed
qed

lemma onWakeup_ok:
  assumes run: "onWakeup env s = Some (Some s')" and law: "header_law (pi_proc env)" and inv: "pipe_ok seen ok s"
  shows "pipe_ok seen ok s'"
proof -
  obtain b p where s: "s = (b, p)" by (cases s)
  have "pipe_ok seen ok (b\<lparr>bl_wakeupChan := ch\<rparr>, p)" for ch using inv by (simp add: s pipe_ok_def pending_ok_def)
  moreover have "s' = s \<or> (\<exists>ch. procAvailable env (b\<lparr>bl_wakeupChan := ch\<rparr>, p) = Some (Some s'))"
    using run by (auto simp: onWakeup_def s split: option.splits)
  ultimately show ?thesis using inv procAvailable_ok [OF _ law] by blast
qed

lemma onHeader_ok:
  assumes run: "onHeader env s = Some (Some s')" and law: "header_law (pi_proc env)" and inv: "pipe_ok seen ok s"
    and num: "\<And>h n. Some h \<in> set (chan_buf (bl_headerChan (fst s))) \<Longrightarrow> hd_Number h = Some n \<Longrightarrow> big_Uint64 n \<noteq> - 1"
  shows "pipe_ok seen ok s'"
proof -
  obtain b p where s: "s = (b, p)" by (cases s)
  show ?thesis
  proof (cases "chan_try_recv (bl_headerChan b)")
    case None
    with run inv show ?thesis by (auto simp: onHeader_def s)
  next
    case (Some z)
    obtain hdr ch where z: "z = (hdr, ch)" by (cases z)
    from Some z have mem: "hdr \<in> set (chan_buf (bl_headerChan b))" by (auto simp: chan_try_recv_def split: list.splits)
    from run Some z obtain p1 where c: "bp_CompareFeeHistory (pi_proc env) p = Some p1"
      and r: "handleHeader env hdr (b\<lparr>bl_headerChan := ch\<rparr>, p1) = Some (Some s')"
      by (auto simp: onHeader_def s split: option.splits)
    have "pipe_ok seen ok (b\<lparr>bl_headerChan := ch\<rparr>, p1)"
      using inv compare_frame [OF _ c] by (auto simp: s pipe_ok_def pending_ok_def)
    with handleHeader_ok [OF r law] num mem show ?thesis by (auto simp: s)
  qed
qed

lemma handleFailedBlock_frame:
  assumes "handleFailedBlock env h p = Some p'" "ok p"
  shows "ok p' \<and> seen p' = seen p"
proof (cases "hd_Number h")
  case None
  with assms show ?thesis by (simp add: handleFailedBlock_def)
next
  case (Some n)
  with assms obtain st p1 where 1: "checkStale env (Some h) p = Some (st, p1)"
    by (auto simp: handleFailedBlock_def bind_eq_Some_conv)
  note f1 = checkStale_frame [OF 1 assms(2)]
  show ?thesis
    using assms(1) Some 1 f1 cleanup_frame [of p1]
    by (cases st) (auto simp: handleFailedBlock_def bind_eq_Some_conv Let_def)
qed

lemma onFailedBlock_ok:
  assumes "onFailedBlock env s = Some s'" "pipe_ok seen ok s"
  shows "pipe_ok seen ok s'"
proof -
  obtain b p where s: "s = (b, p)" by (cases s)
  show ?thesis
  proof (cases "chan_try_recv (bl_failedBlockChan b)")
    case None
    with assms show ?thesis by (simp add: onFailedBlock_def s)
  next
    case (Some z)
    obtain h ch where z: "z = (h, ch)" by (cases z)
    with Some assms(1) obtain p' where p': "handleFailedBlock env h p = Some p'" "s' = (b\<lparr>bl_failedBlockChan := ch\<rparr>, p')"
      by (auto simp: onFailedBlock_def s bind_eq_Some_conv)
    from assms(2) handleFailedBlock_frame [OF p'(1)] show ?thesis
      by (simp add: s p'(2) pipe_ok_def pending_ok_def)
  qed
qed

lemma Pipeline_start_ok:
  assumes run: "Pipeline_start env (b, p) = Some s'" and ok: "ok p" and new: "bl_pendingBlock b = fmempty" "seen p = []"
    and num: "\<And>h n p'. bp_Initialize (pi_proc env) p = Some (Inr (Some h), p') \<Longrightarrow> hd_Number h = Some n \<Longrightarrow> big_Uint64 n \<noteq> - 1"
  shows "pipe_ok seen ok s'"
proof -
  from run obtain res p1 where r: "bp_Initialize (pi_proc env) p = Some (res, p1)"
    by (auto simp: Pipeline_start_def bind_eq_Some_conv)
  with run obtain h n where i: "bp_Initialize (pi_proc env) p = Some (Inr (Some h), p1)" "hd_Number h = Some n"
    and s': "s' = (b\<lparr>bl_nextBlockNum := big_Uint64 n + 1\<rparr>, p1)"
    by (cases res) (auto simp: Pipeline_start_def bind_eq_Some_conv)
  have "below (take m [big_Uint64 n]) (big_Uint64 n + 1)" for m
    using num [OF i] by (cases m) (simp_all add: below_def word_less_Suc)
  with initialize_done [OF ok i] new show ?thesis by (auto simp: s' pipe_ok_def pending_ok_def)
qed

end

section \<open>The server's processor keeps the contract\<close>

definition stored_numbers :: "('c, 'w) Process \<Rightarrow> u64 list" where
  "stored_numbers p = map bd_Number (GetBlockData (ps_store p))"

definition store_ok :: "('c, 'w) Process \<Rightarrow> bool" where
  "store_ok p \<longleftrightarrow> store_inv (ps_store p) \<and> 0 < st_max (ps_store p)"

lemma frame_store: "frame p p' \<Longrightarrow> store_ok p \<Longrightarrow> store_ok p' \<and> stored_numbers p' = stored_numbers p"
  by (simp add: frame_def store_ok_def stored_numbers_def)

lemma stored_add:
  assumes "store_ok p" "ps_store p' = AddBlock (block_of header num rs stats) (ps_store p)"
  shows "store_ok p' \<and> (\<exists>m. stored_numbers p' = take m (big_Uint64 num # stored_numbers p))"
proof
  show "store_ok p'" using assms by (simp add: store_ok_def block_history.add_inv)
  have "stored_numbers p' = take (nat (st_max (ps_store p))) (big_Uint64 num # stored_numbers p)"
    using assms block_history.add_view [of "ps_store p"]
    by (simp add: stored_numbers_def store_ok_def take_map [symmetric] block_of_def)
  then show "\<exists>m. stored_numbers p' = take m (big_Uint64 num # stored_numbers p)" ..
qed

lemma ProcessBlock_store:
  assumes "ProcessBlock env (Some h) p = Some (None, p')" "hd_Number h = Some n" "store_ok p"
  shows "store_ok p' \<and> (stored_numbers p' = stored_numbers p \<or> (\<exists>m. stored_numbers p' = take m (big_Uint64 n # stored_numbers p)))"
proof -
  obtain res p1 where f: "fetchBlockReceipts env (hd_Hash h) p = (res, p1)" by fastforce
  obtain rs where rs: "res = Inr rs" using assms f by (cases res) (auto simp: ProcessBlock_failed)
  note fr = frame_store [OF fetchBlockReceipts_frame [OF f, THEN conjunct1] assms(3)]
  show ?thesis
  proof (cases "rs = []")
    case True
    with assms f rs obtain p2 where "UpdateBlockInfoForAnalysis env h (removeExpired env (big_Uint64 n) p1) = Some p'"
      by (auto simp: ProcessBlock_empty bind_eq_Some_conv)
    from UpdateBlockInfo_fields(2) [OF this] fr show ?thesis by (simp add: store_ok_def stored_numbers_def)
  next
    case False
    from assms(1) [unfolded ProcessBlock_receipts [OF assms(2) f [unfolded rs] False]] obtain stats cnt pool p2 where
      u: "UpdateBlockInfoForAnalysis env h (removeExpired env (big_Uint64 n)
        (p1\<lparr>ps_pool := pool, ps_store := AddBlock (block_of h n rs stats) (ps_store p1)\<rparr>)) = Some p2" and
      p': "p' = SendFeeBucketsToGrpc env p2"
      by (auto simp: bind_eq_Some_conv)
    have "ps_store p' = AddBlock (block_of h n rs stats) (ps_store p1)"
      using UpdateBlockInfo_fields(2) [OF u] by (simp add: p' SendFeeBuckets_fields)
    with stored_add [of p1 p'] fr show ?thesis by auto
  qed
qed

lemma Initialize_store:
  assumes "Initialize env p = Some (Inr h, p')" "hd_Number h = Some n" "store_ok p"
  shows "store_ok p' \<and> (\<exists>m. stored_numbers p' = take m (big_Uint64 n # stored_numbers p))"
proof -
  obtain l p1 where l: "getLastestBlockHeader env p = (l, p1)" by fastforce
  with assms(1) obtain p2 where l': "l = Inr h" and i: "initialFromHeader env h p1 = Some (None, p2)"
    and p': "p' = p2\<lparr>ps_analyzer := SetReady (ps_analyzer p2)\<rparr>"
    by (auto simp: Initialize_def bind_eq_Some_conv split: sum.splits option.splits)
  obtain res p3 where f: "fetchBlockReceipts env (hd_Hash h) p1 = (res, p3)" by fastforce
  note fr = frame_store [OF frame_trans [OF getLastestBlockHeader_frame [OF l, THEN conjunct1]
      fetchBlockReceipts_frame [OF f, THEN conjunct1]] assms(3)]
  from i f assms(2) obtain rs where
    u: "UpdateBlockInfoForAnalysis env h (p3\<lparr>ps_store := AddBlock (block_of h n rs []) (ps_store p3)\<rparr>) = Some p2"
    by (auto simp: initialFromHeader_def CalculateBlockTxTip_eq bind_eq_Some_conv split: sum.splits if_splits)
  have "ps_store p' = AddBlock (block_of h n rs []) (ps_store p3)"
    using UpdateBlockInfo_fields(2) [OF u] by (simp add: p')
  with stored_add [of p3 p'] fr show ?thesis by auto
qed

end
