(* ===== verification/Pipeline_Server.thy ===== *)
theory Pipeline_Server
  imports Block_Pipeline_Props
begin

text \<open>
  The block pipeline on the processor of the server: the interpretation of the contract, the steps
  of the two goroutines together with everything else that runs, and the order of the stored blocks.
\<close>

section \<open>Interpretation\<close>

lemmas eth_defs = eth_pipe_env_def eth_block_processor_def

lemma CleanupFailedBlock_store:
  assumes "CleanupFailedBlock env hdr p = Some (e, p')"
  shows "ps_store p' = ps_store p"
proof (cases "hdr = None \<or> hd_Number (the hdr) = None")
  case True
  with assms show ?thesis by (auto simp: CleanupFailedBlock_def split: option.splits)
next
  case False
  then obtain header num where h: "hdr = Some header" "hd_Number header = Some num" by auto
  obtain res p1 where f: "fetchBlockReceipts env (hd_Hash header) p = (res, p1)" by fastforce
  have "ps_store p1 = ps_store p" using fetchBlockReceipts_frame [OF f] by (simp add: frame_def)
  with assms h f show ?thesis
    by (auto simp: CleanupFailedBlock_def Let_def bind_eq_Some_conv incErrors_def split: sum.splits if_splits)
qed

lemma ProcessBlock_error_frame:
  assumes "ProcessBlock env hdr p = Some (Some e, p')"
  shows "frame p p'"
  using assms
proof (cases rule: err_cases)
  case bad
  then show ?thesis by simp
next
  case (fetch header num e1 p1)
  then show ?thesis using fetchBlockReceipts_frame [OF fetch(3)] incErrors_frame frame_trans by metis
qed

interpretation eth: block_processor "eth_pipe_env env ord sleep" stored_numbers store_ok
  for env :: "('c, 'w) proc_env" and ord sleep
proof
  fix p p' :: "('c, 'w) Process" and hdr e
  assume "store_ok p" "bp_ProcessBlock (pi_proc (eth_pipe_env env ord sleep)) hdr p = Some (Some e, p')"
  then show "store_ok p' \<and> stored_numbers p' = stored_numbers p"
    by (auto simp: eth_defs dest!: ProcessBlock_error_frame frame_store)
next
  fix p p' :: "('c, 'w) Process" and h n
  assume "store_ok p" "bp_ProcessBlock (pi_proc (eth_pipe_env env ord sleep)) (Some h) p = Some (None, p')"
    "hd_Number h = Some n"
  then show "store_ok p' \<and> (stored_numbers p' = stored_numbers p \<or>
      (\<exists>m. stored_numbers p' = take m (big_Uint64 n # stored_numbers p)))"
    by (intro ProcessBlock_store) (simp_all add: eth_defs)
next
  fix p p' :: "('c, 'w) Process" and k r
  assume "store_ok p" "bp_HeaderByNumber (pi_proc (eth_pipe_env env ord sleep)) k p = (r, p')"
  then show "store_ok p' \<and> stored_numbers p' = stored_numbers p"
    by (auto simp: eth_defs split: prod.splits dest!: HeaderByNumber_frame frame_store)
next
  fix p p' :: "('c, 'w) Process" and hdr e'
  assume "store_ok p" "bp_CleanupFailedBlock (pi_proc (eth_pipe_env env ord sleep)) hdr p = Some (e', p')"
  then show "store_ok p' \<and> stored_numbers p' = stored_numbers p"
    using CleanupFailedBlock_store by (fastforce simp: eth_defs store_ok_def stored_numbers_def)
next
  fix p p' :: "('c, 'w) Process"
  assume "store_ok p" "bp_CompareFeeHistory (pi_proc (eth_pipe_env env ord sleep)) p = Some p'"
  then show "store_ok p' \<and> stored_numbers p' = stored_numbers p"
    by (auto simp: eth_defs dest!: CompareFeeHistory_frame frame_store)
next
  fix p p' :: "('c, 'w) Process" and d w
  assume "store_ok p" "pi_wait (eth_pipe_env env ord sleep) d p = (w, p')"
  then show "store_ok p' \<and> stored_numbers p' = stored_numbers p"
    by (auto simp: eth_defs store_ok_def stored_numbers_def split: prod.splits)
next
  fix p p' :: "('c, 'w) Process" and e
  assume "store_ok p" "bp_Resync (pi_proc (eth_pipe_env env ord sleep)) p = Some (Inl e, p')"
  then obtain res where "Resync env p = Some (res, p')" "map_sum id Some res = Inl e"
    by (auto simp: eth_defs)
  then have "Resync env p = Some (Inl e, p')" by (cases res) simp_all
  from frame_store [OF Resync_error [OF this]] \<open>store_ok p\<close> show "store_ok p' \<and> stored_numbers p' = stored_numbers p" by simp
next
  fix p p' :: "('c, 'w) Process" and hdr
  assume ok: "store_ok p" and "bp_Resync (pi_proc (eth_pipe_env env ord sleep)) p = Some (Inr hdr, p')"
  then obtain res where r: "Resync env p = Some (res, p')" "map_sum id Some res = Inr hdr"
    by (auto simp: eth_defs)
  then obtain latest where l: "res = Inr latest" "hdr = Some latest" by (cases res) auto
  have st: "store_inv (ps_store p)" "0 < st_max (ps_store p)" using ok by (simp_all add: store_ok_def)
  from Resync_done [OF st r(1) [unfolded l]] obtain num rs where
    n: "hd_Number latest = Some num" "ps_store p' = AddBlock (block_of latest num rs []) (Store_Clear (ps_store p))" by metis
  have "GetBlockData (ps_store p') = [block_of latest num rs []]"
    unfolding n by (rule block_history.resync_view) (use st in simp_all)
  moreover have "store_ok p'"
    using st by (simp add: store_ok_def n block_history.add_inv block_history.clear_inv) (simp add: Store_Clear_def)
  ultimately show "store_ok p' \<and> (\<exists>h n. hdr = Some h \<and> hd_Number h = Some n \<and> stored_numbers p' = [big_Uint64 n])"
    using l n by (simp add: stored_numbers_def block_of_def)
next
  fix p p' :: "('c, 'w) Process" and h n
  assume ok: "store_ok p" and "bp_Initialize (pi_proc (eth_pipe_env env ord sleep)) p = Some (Inr (Some h), p')"
    and n: "hd_Number h = Some n"
  then obtain res where r: "Initialize env p = Some (res, p')" "map_sum id Some res = Inr (Some h)"
    by (auto simp: eth_defs)
  then have "res = Inr h" by (cases res) auto
  with Initialize_store [OF _ n ok] r(1) show "store_ok p' \<and> (\<exists>m. stored_numbers p' = take m (big_Uint64 n # stored_numbers p))"
    by simp
qed

section \<open>What the nodes promise\<close>

definition node_law :: "('c, 'w) eth_api \<Rightarrow> bool" where
  "node_law api \<longleftrightarrow>
     (\<forall>c n w h. fst (api_HeaderByNumber api c (Some n) w) = Inr (Some h) \<longrightarrow>
        (\<exists>k. hd_Number h = Some k \<and> big_Uint64 k = n)) \<and>
     (\<forall>c w h k. fst (api_HeaderByNumber api c None w) = Inr (Some h) \<longrightarrow> hd_Number h = Some k \<longrightarrow> big_Uint64 k \<noteq> - 1)"

lemma HeaderByNumber_source:
  assumes "HeaderByNumber env n p = (Inr h, p')"
  shows "\<exists>c w. fst (api_HeaderByNumber (pe_api env) c (Some n) w) = Inr (Some h)"
proof -
  from assms have "rpcCall env (mkCost getBlockByNumberCu 1) (\<lambda>c. api_HeaderByNumber (pe_api env) c (Some n)) p = (Inr (Some h), p')"
    by (auto simp: HeaderByNumber_def split: prod.splits sum.splits option.splits)
  from rpcCall_source [OF this] show ?thesis .
qed

lemma latest_source:
  assumes "getLastestBlockHeader env p = (Inr h, p')"
  shows "\<exists>c w. fst (api_HeaderByNumber (pe_api env) c None w) = Inr (Some h)"
proof -
  from assms have "rpcCall env (mkCost getBlockReceiptCu 1) (\<lambda>c. api_HeaderByNumber (pe_api env) c None) p = (Inr (Some h), p')"
    by (auto simp: getLastestBlockHeader_def split: prod.splits sum.splits option.splits if_splits)
  from rpcCall_source [OF this] show ?thesis .
qed

lemma latest_number:
  "node_law (pe_api env) \<Longrightarrow> getLastestBlockHeader env p = (Inr h, p') \<Longrightarrow> hd_Number h = Some k \<Longrightarrow> big_Uint64 k \<noteq> - 1"
  using latest_source unfolding node_law_def by blast

lemma Resync_latest:
  assumes "Resync env p = Some (Inr h, p')"
  shows "\<exists>p1. getLastestBlockHeader env p = (Inr h, p1)"
  using assms
  by (auto simp: Resync_def bind_eq_Some_conv split: prod.splits sum.splits if_splits)

lemma Initialize_latest:
  assumes "Initialize env p = Some (Inr h, p')"
  shows "\<exists>p1. getLastestBlockHeader env p = (Inr h, p1)"
  using assms
  by (auto simp: Initialize_def bind_eq_Some_conv split: prod.splits sum.splits option.splits)

lemma map_sum_Inr_Some: "map_sum id Some r = Inr (Some h) \<longleftrightarrow> r = Inr h"
  by (cases r) auto

lemma node_header_law:
  assumes "node_law (pe_api env)"
  shows "header_law (pi_proc (eth_pipe_env env ord sleep))"
  unfolding header_law_def
proof (intro conjI allI impI)
  fix n p h p'
  assume "bp_HeaderByNumber (pi_proc (eth_pipe_env env ord sleep)) n p = (Inr (Some h), p')"
  then have "HeaderByNumber env n p = (Inr h, p')"
    by (auto simp: eth_defs map_sum_Inr_Some split: prod.splits)
  from HeaderByNumber_source [OF this] assms show "\<exists>k. hd_Number h = Some k \<and> big_Uint64 k = n"
    unfolding node_law_def by blast
next
  fix p h p' k
  assume "bp_Resync (pi_proc (eth_pipe_env env ord sleep)) p = Some (Inr (Some h), p')" "hd_Number h = Some k"
  moreover from this have "Resync env p = Some (Inr h, p')" by (auto simp: eth_defs map_sum_Inr_Some)
  ultimately show "big_Uint64 k \<noteq> - 1" using Resync_latest latest_number [OF assms] by blast
qed

section \<open>The running server\<close>

text \<open>
  \<open>other\<close> stands for the goroutines that do not touch the block store: the pending workers, the
  analyzer and the gRPC workers (\<open>other_goroutines\<close>).
\<close>

definition numbered :: "Header option \<Rightarrow> bool" where
  "numbered hdr \<longleftrightarrow> (\<forall>h n. hdr = Some h \<longrightarrow> hd_Number h = Some n \<longrightarrow> big_Uint64 n \<noteq> - 1)"

inductive server_step :: "('c, 'w) Process pipe \<Rightarrow> ('c, 'w) Process pipe \<Rightarrow> bool" where
  push: "numbered hdr \<Longrightarrow> server_step (b, p) (Pipeline_push hdr b, p)"
| wake: "node_law (pe_api env) \<Longrightarrow> onWakeup (eth_pipe_env env ord sleep) s = Some (Some s') \<Longrightarrow> server_step s s'"
| head: "node_law (pe_api env) \<Longrightarrow> onHeader (eth_pipe_env env ord sleep) s = Some (Some s') \<Longrightarrow> server_step s s'"
| fail: "onFailedBlock (eth_pipe_env env ord sleep) s = Some s' \<Longrightarrow> server_step s s'"
| other: "ps_store p' = ps_store p \<Longrightarrow> server_step (b, p) (b, p')"

inductive server_reachable :: "('c, 'w) Process pipe \<Rightarrow> bool" where
  start: "node_law (pe_api env) \<Longrightarrow> store_ok p \<Longrightarrow> GetBlockData (ps_store p) = [] \<Longrightarrow>
    Pipeline_start (eth_pipe_env env ord sleep) (newBlockPipeline maxBlockCount, p) = Some s \<Longrightarrow> server_reachable s"
| step: "server_reachable s \<Longrightarrow> server_step s s' \<Longrightarrow> server_reachable s'"

lemma getTxChunk_store: "ps_store (getTxChunk env hs p) = ps_store p"
proof -
  obtain res p1 where r: "rpcCall env (mkCost (int (length hs) * getTxCuPerTx) (int (length hs)))
      (\<lambda>c. api_BatchTx (pe_api env) c hs) p = (res, p1)" by fastforce
  have "ps_store p1 = ps_store p" using rpcCall_frame [OF r] by (simp add: frame_def)
  with r show ?thesis by (cases res) (auto simp: getTxChunk_def Let_def split: prod.splits)
qed

lemma getTxLoop_store: "ps_store (getTxLoop env hs p) = ps_store p"
  by (induction env hs p rule: getTxLoop.induct) (subst getTxLoop.simps, simp add: getTxChunk_store)

lemma other_goroutines:
  "ps_store (GetTxInfo env hs p) = ps_store p"
  "ps_store (analyzeTick env ordAddr k3 k4 p) = ps_store p"
  "ps_store (p\<lparr>ps_grpc := c, ps_world := w\<rparr>) = ps_store p"
  by (auto simp: GetTxInfo_def getTxLoop_store analyzeTick_def readClock_def Let_def split: prod.splits option.splits)

definition server_ok :: "('c, 'w) Process pipe \<Rightarrow> bool" where
  "server_ok s \<longleftrightarrow> pipe_ok stored_numbers store_ok s \<and> (\<forall>hdr \<in> set (chan_buf (bl_headerChan (fst s))). numbered hdr)"

lemma headerChan_backfill: "bl_headerChan (fst (backfill env nums s)) = bl_headerChan (fst s)"
  by (induction env nums s rule: backfill.induct) (auto simp: wakeup_def split: prod.splits sum.splits option.splits)

lemma headerChan_resync:
  assumes "Pipeline_resync env (b, p) = Some s'"
  shows "bl_headerChan (fst s') = bl_headerChan b"
proof -
  from assms obtain res p1 where r: "bp_Resync (pi_proc env) p = Some (res, p1)"
    by (auto simp: Pipeline_resync_def bind_eq_Some_conv)
  show ?thesis
  proof (cases res)
    case (Inr hdr)
    with assms r show ?thesis by (cases hdr) (auto simp: Pipeline_resync_def split: option.splits)
  qed (use assms r in \<open>auto simp: Pipeline_resync_def\<close>)
qed

lemma headerChan_gap:
  assumes "checkBlockGap env s = Some s'"
  shows "bl_headerChan (fst s') = bl_headerChan (fst s)"
proof -
  obtain b p where s: "s = (b, p)" by (cases s)
  have "s' = (b, p) \<or> Pipeline_resync env (b, p) = Some s' \<or> (\<exists>nums. s' = backfill env nums (b, p))"
    using assms unfolding checkBlockGap_def s Let_def by (auto split: if_splits)
  then consider "s' = (b, p)" | "Pipeline_resync env (b, p) = Some s'" | nums where "s' = backfill env nums (b, p)"
    by blast
  then show ?thesis by cases (auto simp: s headerChan_resync headerChan_backfill)
qed

lemma headerChan_procBlock:
  assumes "procBlock env k h s = Some s'"
  shows "bl_headerChan (fst s') = bl_headerChan (fst s)"
proof -
  obtain b p b' p' where s: "s = (b, p)" "s' = (b', p')" by (cases s, cases s')
  have f: "bl_headerChan b1 = bl_headerChan b" if "failedBlock h b = Some b1" for b1
    using that by (auto simp: failedBlock_def bind_eq_Some_conv split: prod.splits bool.splits)
  from assms [unfolded s] show ?thesis
    by (rule procBlock_shape) (auto simp: s advance_def dest: f)
qed

lemma headerChan_procAvailable:
  "procAvailable env s = Some (Some s') \<Longrightarrow> bl_headerChan (fst s') = bl_headerChan (fst s)"
  by (induction rule: procAvailable_rounds) (simp_all add: headerChan_gap headerChan_procBlock)

lemma headerChan_handleHeader:
  assumes "handleHeader env hdr s = Some (Some s')"
  shows "bl_headerChan (fst s') = bl_headerChan (fst s)"
  using assms
  by (cases s)
    (auto simp: handleHeader_def Let_def split: option.splits if_splits dest!: headerChan_procAvailable)

lemma headerChan_steps:
  shows "onWakeup env s = Some (Some s') \<Longrightarrow> bl_headerChan (fst s') = bl_headerChan (fst s)"
    "onFailedBlock env s = Some s' \<Longrightarrow> bl_headerChan (fst s') = bl_headerChan (fst s)"
    "onHeader env s = Some (Some s') \<Longrightarrow> set (chan_buf (bl_headerChan (fst s'))) \<subseteq> set (chan_buf (bl_headerChan (fst s)))"
proof -
  obtain b p where s: "s = (b, p)" by (cases s)
  show "onWakeup env s = Some (Some s') \<Longrightarrow> bl_headerChan (fst s') = bl_headerChan (fst s)"
    by (auto simp: onWakeup_def s split: option.splits dest!: headerChan_procAvailable)
  show "onFailedBlock env s = Some s' \<Longrightarrow> bl_headerChan (fst s') = bl_headerChan (fst s)"
    by (cases "chan_try_recv (bl_failedBlockChan b)") (auto simp: onFailedBlock_def s bind_eq_Some_conv)
  show "onHeader env s = Some (Some s') \<Longrightarrow> set (chan_buf (bl_headerChan (fst s'))) \<subseteq> set (chan_buf (bl_headerChan (fst s)))"
    by (cases "chan_buf (bl_headerChan b)"; cases "bp_CompareFeeHistory (pi_proc env) p")
      (auto simp: onHeader_def s chan_try_recv_def dest!: headerChan_handleHeader)
qed

lemma server_step_ok: "server_step s s' \<Longrightarrow> server_ok s \<Longrightarrow> server_ok s'"
proof (induction rule: server_step.induct)
  case (push hdr b p)
  then show ?case
    by (auto simp: server_ok_def pipe_ok_def pending_ok_def Pipeline_push_def chan_try_send_def split: if_splits)
next
  case (wake env ord sleep s s')
  then show ?case
    using eth.onWakeup_ok [OF wake(2) node_header_law [OF wake(1)]] headerChan_steps(1) [OF wake(2)]
    by (simp add: server_ok_def)
next
  case (head env ord sleep s s')
  have "big_Uint64 n \<noteq> - 1" if "Some h \<in> set (chan_buf (bl_headerChan (fst s)))" "hd_Number h = Some n" for h n
    using head(3) that by (auto simp: server_ok_def numbered_def)
  with head(3) show ?case
    using eth.onHeader_ok [OF head(2) node_header_law [OF head(1)]] headerChan_steps(3) [OF head(2)]
    by (auto simp: server_ok_def)
next
  case (fail env ord sleep s s')
  then show ?case
    using eth.onFailedBlock_ok [OF fail(1)] headerChan_steps(2) [OF fail(1)] by (simp add: server_ok_def)
next
  case (other p' p b)
  then show ?case by (simp add: server_ok_def pipe_ok_def store_ok_def stored_numbers_def)
qed

lemma server_reachable_ok: "server_reachable s \<Longrightarrow> server_ok s"
proof (induction rule: server_reachable.induct)
  case (start env p ord sleep maxBlockCount s)
  have new: "bl_pendingBlock (newBlockPipeline maxBlockCount) = fmempty" "stored_numbers p = []"
    by (simp_all add: newBlockPipeline_def stored_numbers_def start(3))
  have num: "big_Uint64 n \<noteq> - 1"
    if "bp_Initialize (pi_proc (eth_pipe_env env ord sleep)) p = Some (Inr (Some h), p')" "hd_Number h = Some n" for h n p'
  proof -
    from that(1) have "Initialize env p = Some (Inr h, p')" by (auto simp: eth_defs map_sum_Inr_Some)
    with that(2) show ?thesis using Initialize_latest latest_number [OF start(1)] by blast
  qed
  have "pipe_ok stored_numbers store_ok s"
    by (rule eth.Pipeline_start_ok [OF start(4,2) new num])
  moreover obtain res p1 where "bp_Initialize (pi_proc (eth_pipe_env env ord sleep)) p = Some (res, p1)"
    using start(4) by (auto simp: Pipeline_start_def bind_eq_Some_conv)
  then have "chan_buf (bl_headerChan (fst s)) = []"
    using start(4)
    by (cases res) (auto simp: Pipeline_start_def newBlockPipeline_def make_chan_def bind_eq_Some_conv)
  ultimately show ?case by (simp add: server_ok_def)
qed (rule server_step_ok)

text \<open>
  C3. Order of the blocks. Whatever headers arrive, in whatever order and however often, with
  retries, reorganisations, gaps and resyncs: the numbers of the stored blocks are strictly
  decreasing from the newest to the oldest, so no block is stored twice and none out of order; all
  are below the next block to process; and every waiting header has the number it waits under,
  which is not below the next block to process.
\<close>

theorem pipeline_order:
  assumes "server_reachable (b, p)"
  shows "sorted_wrt (>) (map bd_Number (GetBlockData (ps_store p))) \<and>
    (\<forall>block \<in> set (GetBlockData (ps_store p)). bd_Number block < bl_nextBlockNum b) \<and>
    (\<forall>k h. fmlookup (bl_pendingBlock b) k = Some h \<longrightarrow>
      bl_nextBlockNum b \<le> k \<and> (\<exists>n. hd_Number h = Some n \<and> big_Uint64 n = k))"
  using server_reachable_ok [OF assms]
  by (auto simp: server_ok_def pipe_ok_def below_def pending_ok_def stored_numbers_def)

section \<open>A sample server\<close>

definition sample_pipe_env :: "(ProcError, (nat, int) Process) pipe_env" where
  "sample_pipe_env = eth_pipe_env sample_proc_env sorted_list_of_fset (\<lambda>d w. (None, w))"

lemma sample_node_law: "node_law (pe_api sample_proc_env)"
  by (auto simp: node_law_def sample_proc_env_def sample_api_def sample_header_def big_Uint64_def)

lemma sample_store_ok: "store_ok sample_process" "GetBlockData (ps_store sample_process) = []"
  by (simp_all add: store_ok_def sample_process_inv) (simp add: sample_process_def NewProcess_def GetBlockData_def)

lemma Initialize_fetched:
  assumes "getLastestBlockHeader env p = (Inr latest, p1)" "hd_Number latest = Some num"
    "fetchBlockReceipts env (hd_Hash latest) p1 = (Inr rs, p2)" "rs \<noteq> []"
  shows "Initialize env p =
    do {
      p3 \<leftarrow> UpdateBlockInfoForAnalysis env latest (p2\<lparr>ps_store := AddBlock (block_of latest num rs []) (ps_store p2)\<rparr>);
      Some (Inr latest, p3\<lparr>ps_analyzer := SetReady (ps_analyzer p3)\<rparr>)
    }"
  using assms
  by (cases "UpdateBlockInfoForAnalysis env latest (p2\<lparr>ps_store := AddBlock (block_of latest num rs []) (ps_store p2)\<rparr>)")
    (simp_all add: Initialize_def initialFromHeader_def CalculateBlockTxTip_eq)

lemma sample_initialize:
  "\<exists>p'. Initialize sample_proc_env sample_process = Some (Inr (sample_header (Some 102)), p')"
proof -
  let ?h = "sample_header (Some 102)"
  have fetch: "fetchBlockReceipts sample_proc_env (hd_Hash ?h) (sample_process\<lparr>ps_world := 6\<rparr>) =
      (Inr node_receipts, sample_process\<lparr>ps_world := 7\<rparr>)"
    by (simp add: fetchBlockReceipts_def rpcCall_def EthClientFunc_def sample_process_def NewProcess_def
        sample_manager_def sample_proc_env_def sample_env_def attempt_def Client_Wait_def sample_client_def
        sample_api_def mkCost_def cost_defs RotateInterval_def node_receipts_def Let_def)
  note run = Initialize_fetched [OF sample_latest sample_number(1) fetch sample_number(2)]
  have "CalculateNextBaseFee (hd_BaseFee ?h) (hd_GasUsed ?h) (hd_GasLimit ?h) \<noteq> None" by code_simp
  moreover have "hd_BaseFee ?h \<noteq> None" by (simp add: sample_header_def)
  ultimately have "Initialize sample_proc_env sample_process \<noteq> None"
    using sample_tip_pool unfolding run
    by (auto simp: bind_eq_None_conv UpdateBlockInfo_None_iff [OF sample_number(1)] BlockPercentiles_def
        sample_process_def NewProcess_def AddBlock_def GetBlockData_def)
  then show ?thesis unfolding run by (auto simp: bind_eq_None_conv bind_eq_Some_conv)
qed

lemma sample_started:
  "\<exists>s. Pipeline_start sample_pipe_env (newBlockPipeline 10, sample_process) = Some s \<and> server_reachable s \<and>
     bl_nextBlockNum (fst s) = 103"
proof -
  obtain p' where p': "Initialize sample_proc_env sample_process = Some (Inr (sample_header (Some 102)), p')"
    using sample_initialize by blast
  then have start: "Pipeline_start sample_pipe_env (newBlockPipeline 10, sample_process) =
      Some ((newBlockPipeline 10)\<lparr>bl_nextBlockNum := 103\<rparr>, p')"
    by (simp add: Pipeline_start_def sample_pipe_env_def eth_defs sample_number big_Uint64_def)
  from server_reachable.start [OF sample_node_law sample_store_ok start [unfolded sample_pipe_env_def]] start show ?thesis
    by auto
qed

text \<open>A header two blocks ahead has been pushed to the started server.\<close>

theorem pipeline_order_witness:
  "\<exists>b p :: (nat, int) Process. server_reachable (b, p) \<and> bl_nextBlockNum b = 103 \<and>
     length (chan_buf (bl_headerChan b)) = 1 \<and>
     list_all (\<lambda>block. bd_Number block < 103) (GetBlockData (ps_store p))"
proof -
  obtain b p where s: "Pipeline_start sample_pipe_env (newBlockPipeline 10, sample_process) = Some (b, p)"
    "server_reachable (b, p)" "bl_nextBlockNum b = 103"
    using sample_started by auto
  then have empty: "bl_headerChan b = make_chan headBufferSize"
    by (cases "bp_Initialize (pi_proc sample_pipe_env) sample_process")
      (auto simp: Pipeline_start_def newBlockPipeline_def bind_eq_Some_conv split: sum.splits)
  let ?b = "Pipeline_push (Some (sample_header (Some 104))) b"
  have "numbered (Some (sample_header (Some 104)))" by (simp add: numbered_def sample_header_def big_Uint64_def)
  then have reach: "server_reachable (?b, p)" using server_reachable.step [OF s(2) server_step.push] by blast
  moreover have "length (chan_buf (bl_headerChan ?b)) = 1" "bl_nextBlockNum ?b = 103"
    by (simp_all add: Pipeline_push_def empty chan_try_send_def chan_full_def make_chan_def headBufferSize_def s(3))
  ultimately show ?thesis using pipeline_order [OF reach] by (auto simp: list_all_iff)
qed

end
