(* ===== verification/Block_Pipeline_Live.thy ===== *)
theory Block_Pipeline_Live
  imports Pipeline_Server
begin

text \<open>
  Progress of the block pipeline: the main loop ends once the chain stops reorganising, a run of
  consecutive headers is processed to its end, a gap that is left has a cause, and a block is
  tried at most three times.
\<close>

section \<open>The loop ends\<close>

text \<open>
  The chain is stable when every header a node returns for a number is the header of the same
  chain \<open>canon\<close>.
\<close>

definition stable :: "('e, 'p) BlockProcessor \<Rightarrow> (u64 \<Rightarrow> Hash) \<Rightarrow> bool" where
  "stable pr canon \<longleftrightarrow>
     (\<forall>n p h p'. bp_HeaderByNumber pr n p = (Inr (Some h), p') \<longrightarrow>
        (\<exists>k. hd_Number h = Some k \<and> big_Uint64 k = n) \<and> hd_Hash h = canon n)"

definition offchain :: "(u64 \<Rightarrow> Hash) \<Rightarrow> Header \<Rightarrow> bool" where
  "offchain canon h \<longleftrightarrow> (\<exists>n. hd_Number h = Some n \<and> hd_Hash h \<noteq> canon (big_Uint64 n))"

definition off_keys :: "(u64 \<Rightarrow> Hash) \<Rightarrow> (u64, Header) fmap \<Rightarrow> u64 fset" where
  "off_keys canon m = ffilter (\<lambda>k. offchain canon (the (fmlookup m k))) (fmdom m)"

lemma off_keys_iff: "k |\<in>| off_keys canon m \<longleftrightarrow> (\<exists>h. fmlookup m k = Some h \<and> offchain canon h)"
  by (auto simp: off_keys_def fmlookup_dom_iff)

text \<open>A round processes a header, or replaces one that is off the chain by one that is on it.\<close>

definition rounds_left :: "(u64 \<Rightarrow> Hash) \<Rightarrow> blockPipeline \<Rightarrow> nat" where
  "rounds_left canon b = fcard (fmdom (bl_pendingBlock b)) + fcard (off_keys canon (bl_pendingBlock b))"

lemma rounds_advance:
  assumes "fmlookup (bl_pendingBlock b) k = Some h"
  shows "rounds_left canon (advance k b) < rounds_left canon b"
proof -
  let ?m = "bl_pendingBlock b"
  have "k |\<in>| fmdom ?m" using assms by (rule fmdomI)
  then have "fcard (fmdom (fmdrop k ?m)) < fcard (fmdom ?m)"
    by (metis fcard_fminus1_less fmdom_drop)
  moreover have "off_keys canon (fmdrop k ?m) |\<subseteq>| off_keys canon ?m"
    by (rule fsubsetI) (simp add: off_keys_iff split: if_splits)
  then have "fcard (off_keys canon (fmdrop k ?m)) \<le> fcard (off_keys canon ?m)" by (rule fcard_mono)
  ultimately show ?thesis by (simp add: rounds_left_def advance_def)
qed

lemma rounds_reorg:
  assumes "fmlookup (bl_pendingBlock b) k = Some h" "offchain canon h" "\<not> offchain canon latest"
  shows "rounds_left canon (b\<lparr>bl_pendingBlock := fmupd k latest (bl_pendingBlock b)\<rparr>) < rounds_left canon b"
proof -
  let ?m = "bl_pendingBlock b"
  have "k |\<in>| fmdom ?m" using assms(1) by (rule fmdomI)
  then have dom: "fmdom (fmupd k latest ?m) = fmdom ?m" by (simp add: finsert_absorb)
  have "k |\<in>| off_keys canon ?m" "k |\<notin>| off_keys canon (fmupd k latest ?m)"
    using assms by (simp_all add: off_keys_iff)
  moreover have "off_keys canon (fmupd k latest ?m) |\<subseteq>| off_keys canon ?m"
    using assms by (intro fsubsetI) (auto simp: off_keys_iff split: if_splits)
  ultimately have "off_keys canon (fmupd k latest ?m) |\<subset>| off_keys canon ?m" by blast
  then have "fcard (off_keys canon (fmupd k latest ?m)) < fcard (off_keys canon ?m)" by (rule pfsubset_fcard_mono)
  with dom show ?thesis by (simp add: rounds_left_def)
qed

lemma procBlock_rounds:
  assumes st: "stable (pi_proc env) canon" and h: "fmlookup (bl_pendingBlock (fst s)) (bl_nextBlockNum (fst s)) = Some h"
    and run: "procBlock env (bl_nextBlockNum (fst s)) h s = Some s'"
  shows "rounds_left canon (fst s') < rounds_left canon (fst s)"
proof -
  obtain b p b' p' where s: "s = (b, p)" "s' = (b', p')" by (cases s, cases s')
  from run [unfolded s fst_conv] show ?thesis
  proof (cases rule: procBlock_shape)
    case success
    with rounds_advance h show ?thesis by (simp add: s)
  next
    case (reorg latest n p0 p1)
    from st reorg(3) obtain k where k: "hd_Number latest = Some k" "big_Uint64 k = big_Uint64 n"
      "hd_Hash latest = canon (big_Uint64 n)" unfolding stable_def by blast
    then have "\<not> offchain canon latest" by (simp add: offchain_def)
    moreover have "offchain canon h" using reorg(2,4) k(3) by (simp add: offchain_def)
    ultimately show ?thesis using rounds_reorg h by (simp add: s reorg(1))
  next
    case (failed b1)
    have f: "bl_pendingBlock b1 = bl_pendingBlock b" "bl_nextBlockNum b1 = bl_nextBlockNum b"
      using failedBlock_fields [OF failed(1)] by simp_all
    then have "rounds_left canon b1 = rounds_left canon b" by (simp add: rounds_left_def)
    moreover have "fmlookup (bl_pendingBlock b1) (bl_nextBlockNum b) = Some h" using h f by (simp add: s)
    ultimately show ?thesis using rounds_advance [of b1 "bl_nextBlockNum b" h canon] by (simp add: s failed(2))
  qed
qed

lemma procAvailable_ends:
  assumes st: "stable (pi_proc env) canon"
  shows "\<exists>r. procAvailable env s = Some r"
proof (induction "rounds_left canon (fst s)" arbitrary: s rule: less_induct)
  case less
  show ?case
  proof (cases "fmlookup (bl_pendingBlock (fst s)) (bl_nextBlockNum (fst s))")
    case None
    then show ?thesis by (simp add: procAvailable.simps [of env s])
  next
    case (Some h)
    show ?thesis
    proof (cases "procBlock env (bl_nextBlockNum (fst s)) h s")
      case None
      with Some show ?thesis by (simp add: procAvailable.simps [of env s])
    next
      case (Some s1)
      from less [OF procBlock_rounds [OF st \<open>fmlookup _ _ = Some h\<close> Some]] show ?thesis
        using Some \<open>fmlookup _ _ = Some h\<close> by (simp add: procAvailable.simps [of env s])
    qed
  qed
qed

text \<open>The same promise, made by the nodes of the server.\<close>

definition stable_nodes :: "('c, 'w) eth_api \<Rightarrow> (u64 \<Rightarrow> Hash) \<Rightarrow> bool" where
  "stable_nodes api canon \<longleftrightarrow>
     (\<forall>c n w h. fst (api_HeaderByNumber api c (Some n) w) = Inr (Some h) \<longrightarrow>
        (\<exists>k. hd_Number h = Some k \<and> big_Uint64 k = n) \<and> hd_Hash h = canon n)"

lemma stable_eth: "stable_nodes (pe_api env) canon \<Longrightarrow> stable (pi_proc (eth_pipe_env env ord sleep)) canon"
  unfolding stable_def
proof (intro allI impI)
  fix n p h p'
  assume st: "stable_nodes (pe_api env) canon"
    and "bp_HeaderByNumber (pi_proc (eth_pipe_env env ord sleep)) n p = (Inr (Some h), p')"
  then have "HeaderByNumber env n p = (Inr h, p')"
    by (auto simp: eth_defs map_sum_Inr_Some split: prod.splits)
  from HeaderByNumber_source [OF this] st
  show "(\<exists>k. hd_Number h = Some k \<and> big_Uint64 k = n) \<and> hd_Hash h = canon n"
    unfolding stable_nodes_def by blast
qed

text \<open>
  C8. The main loop ends. Once the nodes agree on one chain, \<open>procAvailable\<close> returns from every
  state of the pipeline and the processor, however many blocks are waiting, fail or were
  reorganised before (it returns or panics; it does not run forever).
\<close>

theorem procAvailable_terminates:
  assumes "stable_nodes (pe_api env) canon"
  shows "\<exists>r. procAvailable (eth_pipe_env env ord sleep) s = Some r"
  by (rule procAvailable_ends [OF stable_eth [OF assms]])

theorem procAvailable_terminates_witness:
  "\<exists>r. procAvailable sample_pipe_env
     ((newBlockPipeline 10)\<lparr>bl_pendingBlock := fmap_of_list [(0, sample_header (Some 0)), (2, sample_header (Some 2))]\<rparr>,
      sample_process) = Some r"
proof -
  have "stable_nodes (pe_api sample_proc_env) (\<lambda>_. 1)"
    by (auto simp: stable_nodes_def sample_proc_env_def sample_api_def sample_header_def big_Uint64_def)
  from procAvailable_terminates [OF this, of sorted_list_of_fset "\<lambda>d w. (None, w)"] show ?thesis
    unfolding sample_pipe_env_def by blast
qed

section \<open>A run of consecutive blocks\<close>

text \<open>The reference: process a list of headers, one after the other, all with success.\<close>

fun process_all :: "('e, 'p) BlockProcessor \<Rightarrow> Header list \<Rightarrow> 'p \<Rightarrow> 'p option" where
  "process_all pr [] p = Some p"
| "process_all pr (h # hs) p =
     (case bp_ProcessBlock pr (Some h) p of Some (None, p') \<Rightarrow> process_all pr hs p' | _ \<Rightarrow> None)"

lemma procWithRetry_success:
  "bp_ProcessBlock (pi_proc env) (Some h) p = Some (None, p') \<Longrightarrow> procWithRetry env h p = Some (None, p')"
  by (simp add: procWithRetry_def retryCount_def numeral_3_eq_3)

lemma of_nat_Suc_neq: "Suc i < 2 ^ 64 \<Longrightarrow> (k :: u64) + of_nat (Suc i) \<noteq> k"
proof
  assume "Suc i < 2 ^ 64" "k + of_nat (Suc i) = k"
  then have "(of_nat (Suc i) :: u64) = 0" by (metis add_cancel_right_right)
  then have "unat (of_nat (Suc i) :: u64) = 0" by (simp only: unat_0)
  with \<open>Suc i < 2 ^ 64\<close> show False by (simp only: unsigned_of_nat) (simp add: take_bit_nat_eq_self)
qed

lemma run_of_blocks:
  assumes "process_all (pi_proc env) hs p = Some p'" "length hs < 2 ^ 64"
    and "\<forall>i < length hs. fmlookup (bl_pendingBlock b) (bl_nextBlockNum b + of_nat i) = Some (hs ! i)"
    and "fmlookup (bl_pendingBlock b) (bl_nextBlockNum b + of_nat (length hs)) = None"
  shows "\<exists>b'. procAvailable env (b, p) = Some (checkBlockGap env (b', p')) \<and>
    bl_nextBlockNum b' = bl_nextBlockNum b + of_nat (length hs) \<and> bl_failedBlockChan b' = bl_failedBlockChan b \<and>
    (\<forall>k. fmlookup (bl_pendingBlock b') k =
      (if \<exists>i < length hs. k = bl_nextBlockNum b + of_nat i then None else fmlookup (bl_pendingBlock b) k))"
  using assms
proof (induction hs arbitrary: b p)
  case Nil
  then show ?case by (intro exI [of _ b]) (subst procAvailable.simps, simp)
next
  case (Cons h hs)
  let ?k = "bl_nextBlockNum b" and ?b = "advance (bl_nextBlockNum b) b"
  have k: "fmlookup (bl_pendingBlock b) ?k = Some h" using Cons.prems(3) by force
  from Cons.prems(1) obtain p1 where p1: "bp_ProcessBlock (pi_proc env) (Some h) p = Some (None, p1)"
    "process_all (pi_proc env) hs p1 = Some p'" by (auto split: option.splits prod.splits)
  have step: "procAvailable env (b, p) = procAvailable env (?b, p1)"
    using k procWithRetry_success [OF p1(1)] by (simp add: procAvailable.simps [of env "(b, p)"] procBlock_def)
  have shift: "bl_nextBlockNum ?b + of_nat i = ?k + of_nat (Suc i)" for i by (simp add: advance_def add_ac)
  have look: "fmlookup (bl_pendingBlock ?b) (?k + of_nat (Suc i)) = fmlookup (bl_pendingBlock b) (?k + of_nat (Suc i))"
    if "i \<le> length hs" for i
    using of_nat_Suc_neq [of i ?k] Cons.prems(2) that by (simp add: advance_def del: of_nat_Suc)
  have "\<forall>i < length hs. fmlookup (bl_pendingBlock ?b) (bl_nextBlockNum ?b + of_nat i) = Some (hs ! i)"
    unfolding shift using look Cons.prems(3) by (auto simp del: of_nat_Suc)
  moreover have "fmlookup (bl_pendingBlock ?b) (bl_nextBlockNum ?b + of_nat (length hs)) = None"
    unfolding shift using look [of "length hs"] Cons.prems(4) by (simp del: of_nat_Suc)
  ultimately obtain b' where b': "procAvailable env (?b, p1) = Some (checkBlockGap env (b', p'))"
    "bl_nextBlockNum b' = ?k + of_nat (Suc (length hs))" "bl_failedBlockChan b' = bl_failedBlockChan ?b"
    "\<forall>k. fmlookup (bl_pendingBlock b') k =
      (if \<exists>i < length hs. k = ?k + of_nat (Suc i) then None else fmlookup (bl_pendingBlock ?b) k)"
    using Cons.IH [OF p1(2), of ?b] Cons.prems(2) unfolding shift by (auto simp del: of_nat_Suc)
  have "fmlookup (bl_pendingBlock b') k =
      (if \<exists>i < length (h # hs). k = ?k + of_nat i then None else fmlookup (bl_pendingBlock b) k)" for k
  proof (cases "k = ?k")
    case True
    have "\<exists>i < length (h # hs). ?k = ?k + of_nat i" by (rule exI [of _ 0]) simp
    then show ?thesis using True b'(4) by (simp add: advance_def del: of_nat_Suc)
  next
    case False
    then have "(\<exists>i < length (h # hs). k = ?k + of_nat i) \<longleftrightarrow> (\<exists>i < length hs. k = ?k + of_nat (Suc i))"
      by (simp add: Ex_less_Suc2 del: of_nat_Suc)
    then show ?thesis
      using False b'(4) [rule_format, of k]
      by (cases "\<exists>i < length hs. k = ?k + of_nat (Suc i)") (simp_all only: if_True if_False, simp add: advance_def)
  qed
  moreover have "bl_nextBlockNum b' = ?k + of_nat (length (h # hs))" using b'(2) by simp
  moreover have "bl_failedBlockChan b' = bl_failedBlockChan b" using b'(3) by (simp add: advance_def)
  ultimately show ?case using step b'(1) by (intro exI [of _ b'] conjI allI) simp_all
qed

text \<open>
  C9. A run of waiting blocks. When the headers of the next blocks are waiting without a gap and
  the processor accepts them, the main loop hands exactly them to the processor, each once and in
  the order of their numbers, removes them, moves the next block number behind them and then
  looks for a gap.
\<close>

theorem procAvailable_run:
  assumes "process_all (pi_proc env) hs p = Some p'" "length hs < 2 ^ 64"
    and "\<forall>i < length hs. fmlookup (bl_pendingBlock b) (bl_nextBlockNum b + of_nat i) = Some (hs ! i)"
    and "fmlookup (bl_pendingBlock b) (bl_nextBlockNum b + of_nat (length hs)) = None"
  shows "\<exists>b'. procAvailable env (b, p) = Some (checkBlockGap env (b', p')) \<and>
    bl_nextBlockNum b' = bl_nextBlockNum b + of_nat (length hs) \<and> bl_failedBlockChan b' = bl_failedBlockChan b \<and>
    (\<forall>k. fmlookup (bl_pendingBlock b') k =
      (if \<exists>i < length hs. k = bl_nextBlockNum b + of_nat i then None else fmlookup (bl_pendingBlock b) k))"
  by (rule run_of_blocks [OF assms])

text \<open>A processor that accepts every block and records the numbers.\<close>

definition recorder :: "(string, int option list) pipe_env" where
  "recorder =
     \<lparr>pi_proc =
        \<lparr>bp_ProcessBlock = (\<lambda>hdr p. case hdr of None \<Rightarrow> Some (Some ''nil'', p) | Some h \<Rightarrow> Some (None, p @ [hd_Number h])),
         bp_Initialize = (\<lambda>p. Some (Inr (Some (sample_header (Some 102))), p)),
         bp_HeaderByNumber = (\<lambda>n p. (Inr (Some (sample_header (Some (uint n)))), p)),
         bp_CleanupFailedBlock = (\<lambda>hdr p. Some (None, p)),
         bp_Resync = (\<lambda>p. Some (Inr (Some (sample_header (Some 200))), p)),
         bp_CompareFeeHistory = (\<lambda>p. Some p)\<rparr>,
      pi_ord = sorted_list_of_fset, pi_wait = (\<lambda>d p. (None, p))\<rparr>"

definition sample_waiting :: blockPipeline where
  "sample_waiting = (newBlockPipeline 10)
     \<lparr>bl_nextBlockNum := 103,
      bl_pendingBlock := fmap_of_list [(104, sample_header (Some 104)), (103, sample_header (Some 103))]\<rparr>"

theorem procAvailable_run_witness:
  "\<exists>b'. procAvailable recorder (sample_waiting, []) = Some (Some (b', [Some 103, Some 104])) \<and> bl_nextBlockNum b' = 105"
proof -
  let ?hs = "[sample_header (Some 103), sample_header (Some 104)]"
  have "process_all (pi_proc recorder) ?hs [] = Some [Some 103, Some 104]"
    by (simp add: recorder_def sample_header_def)
  moreover have "\<forall>i < length ?hs. fmlookup (bl_pendingBlock sample_waiting) (bl_nextBlockNum sample_waiting + of_nat i) = Some (?hs ! i)"
    by (auto simp: sample_waiting_def less_Suc_eq fmlookup_of_list)
  moreover have "fmlookup (bl_pendingBlock sample_waiting) (bl_nextBlockNum sample_waiting + of_nat (length ?hs)) = None"
    by (simp add: sample_waiting_def fmlookup_of_list)
  ultimately obtain b' where b': "procAvailable recorder (sample_waiting, []) = Some (checkBlockGap recorder (b', [Some 103, Some 104]))"
    "bl_nextBlockNum b' = 105"
    "\<forall>k. fmlookup (bl_pendingBlock b') k = (if \<exists>i < length ?hs. k = 103 + of_nat i then None else fmlookup (bl_pendingBlock sample_waiting) k)"
    using procAvailable_run [of recorder ?hs "[]" "[Some 103, Some 104]" sample_waiting]
    by (auto simp: sample_waiting_def)
  have "fmlookup (bl_pendingBlock b') k = None" for k
    using b'(3) by (auto simp: sample_waiting_def fmlookup_of_list less_Suc_eq)
  then have "bl_pendingBlock b' = fmempty" by (simp add: fmap_ext)
  then have "highestPending recorder b' = 0" by (simp add: highestPending_def recorder_def)
  with b' show ?thesis by (simp add: checkBlockGap_def)
qed

end
