(* ===== verification/Block_Pipeline_Gap.thy ===== *)
theory Block_Pipeline_Gap
  imports Block_Pipeline_Live
begin

text \<open>
  What the main loop of the block pipeline leaves behind: a gap below a waiting header is either
  filled and the loop is woken up, or a call to the nodes has failed. And the number of attempts
  per block.
\<close>

section \<open>The highest waiting block\<close>

lemma fold_max_upper:
  fixes xs :: "'a::linorder list"
  shows "x \<in> set xs \<or> x = a \<Longrightarrow> x \<le> fold (\<lambda>n h. if n > h then n else h) xs a"
proof (induction xs arbitrary: a x)
  case (Cons y ys)
  have "a \<le> (if y > a then y else a)" "y \<le> (if y > a then y else a)" by auto
  then have "x \<in> set ys \<or> x \<le> (if y > a then y else a)" using Cons.prems by auto
  with Cons.IH [of x "if y > a then y else a"] Cons.IH [of "if y > a then y else a" "if y > a then y else a"]
  show ?case by auto
qed simp

lemma highestPending_upper:
  "is_range_order (pi_ord env) \<Longrightarrow> fmlookup (bl_pendingBlock b) k = Some h \<Longrightarrow> k \<le> highestPending env b"
  unfolding highestPending_def by (rule fold_max_upper) (auto simp: is_range_order_def fmdomI)

lemma fold_max_in: "fold (\<lambda>n h. if n > h then n else h) xs a \<in> insert (a :: 'a::linorder) (set xs)"
proof (induction xs arbitrary: a)
  case (Cons y ys)
  from Cons [of "if y > a then y else a"] show ?case by (auto split: if_splits)
qed simp

lemma highestPending_in:
  assumes "is_range_order (pi_ord env)" "0 < highestPending env b"
  shows "fmlookup (bl_pendingBlock b) (highestPending env b) \<noteq> None"
  using fold_max_in [of "pi_ord env (fmdom (bl_pendingBlock b))" 0] assms
  by (auto simp: highestPending_def is_range_order_def fmlookup_dom_iff)

section \<open>After the gap check\<close>

text \<open>The ways in which a call for a header, or a resync, does not give a usable header.\<close>

definition no_header :: "('e + Header option) \<Rightarrow> bool" where
  "no_header r \<longleftrightarrow> (\<forall>h. r = Inr (Some h) \<longrightarrow> hd_Number h = None)"

lemma backfill_outcome:
  assumes "backfill env nums (b, p) = (b', p')"
  shows "bl_nextBlockNum b' = bl_nextBlockNum b \<and>
    (\<forall>k. fmlookup (bl_pendingBlock b) k \<noteq> None \<longrightarrow> fmlookup (bl_pendingBlock b') k \<noteq> None) \<and>
    (\<forall>k. fmlookup (bl_pendingBlock b') k \<noteq> None \<longrightarrow> k \<in> set nums \<or> fmlookup (bl_pendingBlock b) k \<noteq> None) \<and>
    ((bl_wakeupChan b' = snd (chan_try_send () (bl_wakeupChan b)) \<and>
      (\<forall>k \<in> set nums. fmlookup (bl_pendingBlock b') k \<noteq> None)) \<or>
     (\<exists>num \<in> set nums. \<exists>p0 r p1. bp_HeaderByNumber (pi_proc env) num p0 = (r, p1) \<and> no_header r))"
  using assms
proof (induction nums arbitrary: b p)
  case Nil
  then show ?case by (auto simp: wakeup_def)
next
  case (Cons num nums)
  obtain r p1 where r: "bp_HeaderByNumber (pi_proc env) num p = (r, p1)" by fastforce
  show ?case
  proof (cases "fmlookup (bl_pendingBlock b) num = None \<and> no_header r")
    case True
    then have "backfill env (num # nums) (b, p) = (b, p1)"
      using r by (cases r) (auto simp: no_header_def split: option.splits)
    with Cons.prems True r show ?thesis by auto
  next
    case False
    then obtain b1 p2 where b1: "backfill env (num # nums) (b, p) = backfill env nums (b1, p2)"
      "bl_nextBlockNum b1 = bl_nextBlockNum b" "bl_wakeupChan b1 = bl_wakeupChan b"
      "\<forall>k. fmlookup (bl_pendingBlock b1) k \<noteq> None \<longleftrightarrow> k = num \<or> fmlookup (bl_pendingBlock b) k \<noteq> None"
    proof (cases "fmlookup (bl_pendingBlock b) num")
      case None
      with False obtain h where h: "r = Inr (Some h)" "hd_Number h \<noteq> None" by (auto simp: no_header_def)
      show ?thesis
        by (rule that [of "b\<lparr>bl_pendingBlock := fmupd num h (bl_pendingBlock b)\<rparr>" p1]) (use None r h in auto)
    next
      case (Some h)
      then show ?thesis by (intro that [of b p]) auto
    qed
    have "backfill env nums (b1, p2) = (b', p')" using Cons.prems b1(1) by simp
    from Cons.IH [OF this, unfolded b1(2,3)] b1(4) show ?thesis unfolding list.set(2) by blast
  qed
qed

text \<open>What holds of the pipeline when the main loop has returned.\<close>

definition settled :: "('e, 'p) pipe_env \<Rightarrow> blockPipeline \<Rightarrow> bool" where
  "settled env b \<longleftrightarrow>
     (\<forall>k. fmlookup (bl_pendingBlock b) k \<noteq> None \<longrightarrow> k < bl_nextBlockNum b) \<or>
     (chan_buf (bl_wakeupChan b) \<noteq> [] \<and> fmlookup (bl_pendingBlock b) (bl_nextBlockNum b) \<noteq> None \<and>
      (\<forall>k j. fmlookup (bl_pendingBlock b) j \<noteq> None \<longrightarrow> bl_nextBlockNum b \<le> k \<longrightarrow> k \<le> j \<longrightarrow>
        fmlookup (bl_pendingBlock b) k \<noteq> None)) \<or>
     (\<exists>num p0 r p1. bp_HeaderByNumber (pi_proc env) num p0 = (r, p1) \<and> no_header r) \<or>
     (\<exists>p0 r p1. bp_Resync (pi_proc env) p0 = Some (r, p1) \<and> no_header r)"

lemma gapNumbers_mem: "nxt \<le> k \<Longrightarrow> k < highest \<Longrightarrow> k \<in> set (gapNumbers nxt highest)"
  unfolding gapNumbers_def by (simp add: word_le_nat_alt word_less_nat_alt) (rule image_eqI [of _ _ "unat k"], simp_all)

lemma resync_settled:
  assumes "Pipeline_resync env (b, p) = Some s'"
  shows "settled env (fst s')"
proof -
  from assms obtain r p1 where r: "bp_Resync (pi_proc env) p = Some (r, p1)"
    by (auto simp: Pipeline_resync_def bind_eq_Some_conv)
  show ?thesis
  proof (cases "no_header r")
    case True
    with r show ?thesis unfolding settled_def by blast
  next
    case False
    then obtain h n where "r = Inr (Some h)" "hd_Number h = Some n" by (auto simp: no_header_def)
    with assms r have "bl_pendingBlock (fst s') = fmempty" by (auto simp: Pipeline_resync_def)
    then show ?thesis by (simp add: settled_def)
  qed
qed

lemma gap_settled:
  assumes ord: "is_range_order (pi_ord env)" and cap: "0 < chan_cap (bl_wakeupChan (fst s))"
    and none: "fmlookup (bl_pendingBlock (fst s)) (bl_nextBlockNum (fst s)) = None"
    and run: "checkBlockGap env s = Some s'"
  shows "settled env (fst s')"
proof -
  obtain b p where s: "s = (b, p)" by (cases s)
  let ?n = "bl_nextBlockNum b" and ?h = "highestPending env b"
  consider (low) "?h \<le> ?n" | (lag) "\<not> ?h \<le> ?n" "bl_maxBlockLag b \<le> ?h - ?n" | (fill) "\<not> ?h \<le> ?n" "\<not> bl_maxBlockLag b \<le> ?h - ?n"
    by blast
  then show ?thesis
  proof cases
    case low
    then have "s' = s" using run by (simp add: checkBlockGap_def s)
    moreover have "k < ?n" if "fmlookup (bl_pendingBlock b) k \<noteq> None" for k
      using that highestPending_upper [OF ord, of b k] low none by (cases "k = ?n") (auto simp: s)
    ultimately show ?thesis by (simp add: settled_def s)
  next
    case lag
    with run have "Pipeline_resync env (b, p) = Some s'" by (simp add: checkBlockGap_def s Let_def)
    then show ?thesis by (rule resync_settled)
  next
    case fill
    then have lt: "?n < ?h" by simp
    obtain b' p' where s': "s' = (b', p')" by (cases s')
    with run fill have bf: "backfill env (gapNumbers ?n ?h) (b, p) = (b', p')" by (simp add: checkBlockGap_def s Let_def)
    note out = backfill_outcome [OF bf]
    show ?thesis
    proof (cases "\<exists>num p0 r p1. bp_HeaderByNumber (pi_proc env) num p0 = (r, p1) \<and> no_header r")
      case True
      then show ?thesis unfolding settled_def by blast
    next
      case False
      with out have w: "bl_wakeupChan b' = snd (chan_try_send () (bl_wakeupChan b))"
        and all: "\<forall>k \<in> set (gapNumbers ?n ?h). fmlookup (bl_pendingBlock b') k \<noteq> None" by blast+
      have "chan_buf (bl_wakeupChan b') \<noteq> []"
        using cap by (auto simp: w s chan_try_send_def chan_full_def)
      moreover have upto: "fmlookup (bl_pendingBlock b') k \<noteq> None" if "?n \<le> k" "k \<le> ?h" for k
      proof (cases "k = ?h")
        case True
        have "0 < ?h" using lt by (metis word_coorder.not_eq_extremum word_coorder.extremum_strict)
        from highestPending_in [OF ord this] out True show ?thesis by blast
      next
        case False
        with that gapNumbers_mem [of ?n k ?h] all show ?thesis by simp
      qed
      moreover have top: "j \<le> ?h" if "fmlookup (bl_pendingBlock b') j \<noteq> None" for j
      proof -
        from that out consider "j \<in> set (gapNumbers ?n ?h)" | "fmlookup (bl_pendingBlock b) j \<noteq> None" by blast
        then show ?thesis
          using gapNumbers_less [of j ?n ?h] highestPending_upper [OF ord, of b j] by cases auto
      qed
      moreover have nxt: "bl_nextBlockNum b' = ?n" using out by blast
      moreover have "fmlookup (bl_pendingBlock b') ?n \<noteq> None" using upto [of ?n] lt by simp
      moreover have "fmlookup (bl_pendingBlock b') k \<noteq> None"
        if "fmlookup (bl_pendingBlock b') j \<noteq> None" "?n \<le> k" "k \<le> j" for k j
        using upto [OF that(2)] order.trans [OF that(3) top [OF that(1)]] by simp
      ultimately show ?thesis unfolding settled_def s' fst_conv nxt by blast
    qed
  qed
qed

lemma wakeupChan_procBlock:
  assumes "procBlock env k h s = Some s'"
  shows "bl_wakeupChan (fst s') = bl_wakeupChan (fst s)"
proof -
  obtain b p b' p' where s: "s = (b, p)" "s' = (b', p')" by (cases s, cases s')
  have f: "bl_wakeupChan b1 = bl_wakeupChan b" if "failedBlock h b = Some b1" for b1
    using that by (auto simp: failedBlock_def bind_eq_Some_conv split: prod.splits bool.splits)
  from assms [unfolded s] show ?thesis
    by (rule procBlock_shape) (auto simp: s advance_def dest: f)
qed



section \<open>Attempts\<close>

lemma retryLoop_calls:
  assumes "\<And>hdr p e p'. bp_ProcessBlock (pi_proc env) hdr p = Some (e, p') \<Longrightarrow> calls p' = calls p + (1 :: nat)"
    and "\<And>d p e p'. pi_wait env d p = (e, p') \<Longrightarrow> calls p' = calls p"
    and "retryLoop env h n e0 p = Some (err, p')"
  shows "calls p' \<le> calls p + n"
  using assms(3)
proof (induction n arbitrary: e0 p)
  case (Suc n)
  from Suc.prems obtain e1 p1 where 1: "bp_ProcessBlock (pi_proc env) (Some h) p = Some (e1, p1)"
    by (auto simp: bind_eq_Some_conv)
  obtain we p2 where 2: "pi_wait env retryDelay p1 = (we, p2)" by fastforce
  note c = assms(1) [OF 1] assms(2) [OF 2]
  show ?case
  proof (cases "e1 = None \<or> n = 0 \<or> we \<noteq> None")
    case True
    with Suc.prems 1 2 have "p' = p1 \<or> p' = p2" by (auto split: if_splits)
    with c show ?thesis by auto
  next
    case False
    with Suc.prems 1 2 have "retryLoop env h n e1 p2 = Some (err, p')" by auto
    from Suc.IH [OF this] c show ?thesis by simp
  qed
qed simp

lemma retryLoop_error:
  assumes "retryLoop env h n e0 p = Some (Some e, p')" "n \<noteq> 0"
  shows "(\<exists>q q'. bp_ProcessBlock (pi_proc env) (Some h) q = Some (Some e, q')) \<or> (\<exists>q q'. pi_wait env retryDelay q = (Some e, q'))"
  using assms
proof (induction n arbitrary: e0 p)
  case (Suc n)
  from Suc.prems obtain e1 p1 where 1: "bp_ProcessBlock (pi_proc env) (Some h) p = Some (e1, p1)"
    by (auto simp: bind_eq_Some_conv)
  obtain we p2 where 2: "pi_wait env retryDelay p1 = (we, p2)" by fastforce
  show ?case
  proof (cases "e1 = None \<or> n = 0 \<or> we \<noteq> None")
    case True
    with Suc.prems 1 2 show ?thesis by (auto split: if_splits)
  next
    case False
    with Suc.prems 1 2 have "retryLoop env h n e1 p2 = Some (Some e, p')" by auto
    from Suc.IH [OF this] False show ?thesis by simp
  qed
qed simp

lemma retryLoop_exhausts:
  assumes "\<And>hdr p e p'. bp_ProcessBlock (pi_proc env) hdr p = Some (e, p') \<Longrightarrow> calls p' = calls p + (1 :: nat) \<and> e \<noteq> None"
    and "\<And>d p e p'. pi_wait env d p = (e, p') \<Longrightarrow> calls p' = calls p \<and> e = None"
    and "retryLoop env h n e0 p = Some (err, p')"
  shows "calls p' = calls p + n"
  using assms(3)
proof (induction n arbitrary: e0 p)
  case (Suc n)
  from Suc.prems obtain e1 p1 where 1: "bp_ProcessBlock (pi_proc env) (Some h) p = Some (e1, p1)"
    by (auto simp: bind_eq_Some_conv)
  obtain we p2 where 2: "pi_wait env retryDelay p1 = (we, p2)" by fastforce
  note c = assms(1) [OF 1] assms(2) [OF 2]
  show ?case
  proof (cases n)
    case 0
    with Suc.prems 1 c show ?thesis by auto
  next
    case (Suc m)
    with Suc.prems 1 2 c have "retryLoop env h n e1 p2 = Some (err, p')" by auto
    from Suc.IH [OF this] c show ?thesis by simp
  qed
qed simp

text \<open>
  Retries. A block is given to the processor at most three times; when it always fails and
  the context lives, exactly three times; and an error that is returned is one that the processor
  or the cancelled context reported.
\<close>

theorem procWithRetry_attempts:
  assumes "\<And>hdr p e p'. bp_ProcessBlock (pi_proc env) hdr p = Some (e, p') \<Longrightarrow> calls p' = calls p + (1 :: nat)"
    and "\<And>d p e p'. pi_wait env d p = (e, p') \<Longrightarrow> calls p' = calls p"
    and "procWithRetry env h p = Some (err, p')"
  shows "calls p' \<le> calls p + 3 \<and>
    ((\<forall>hdr q e q'. bp_ProcessBlock (pi_proc env) hdr q = Some (e, q') \<longrightarrow> e \<noteq> None) \<and>
     (\<forall>d q e q'. pi_wait env d q = (e, q') \<longrightarrow> e = None) \<longrightarrow> calls p' = calls p + 3) \<and>
    (\<forall>e. err = Some e \<longrightarrow> (\<exists>q q'. bp_ProcessBlock (pi_proc env) (Some h) q = Some (Some e, q')) \<or>
      (\<exists>q q'. pi_wait env retryDelay q = (Some e, q')))"
proof (intro conjI impI allI)
  note run = assms(3) [unfolded procWithRetry_def retryCount_def]
  show "calls p' \<le> calls p + 3" by (rule retryLoop_calls [of env calls, OF assms(1,2) run])
  show "calls p' = calls p + 3"
    if "(\<forall>hdr q e q'. bp_ProcessBlock (pi_proc env) hdr q = Some (e, q') \<longrightarrow> e \<noteq> None) \<and>
     (\<forall>d q e q'. pi_wait env d q = (e, q') \<longrightarrow> e = None)"
    by (rule retryLoop_exhausts [of env calls, OF _ _ run]) (use assms(1,2) that in blast)+
  show "(\<exists>q q'. bp_ProcessBlock (pi_proc env) (Some h) q = Some (Some e, q')) \<or>
      (\<exists>q q'. pi_wait env retryDelay q = (Some e, q'))" if "err = Some e" for e
    by (rule retryLoop_error [OF run [unfolded that]]) simp
qed

text \<open>A processor that counts its calls and always fails.\<close>

definition failing :: "(string, nat) pipe_env" where
  "failing =
     \<lparr>pi_proc =
        \<lparr>bp_ProcessBlock = (\<lambda>hdr p. Some (Some ''receipts'', p + 1)),
         bp_Initialize = (\<lambda>p. Some (Inl ''down'', p)), bp_HeaderByNumber = (\<lambda>n p. (Inl ''down'', p)),
         bp_CleanupFailedBlock = (\<lambda>hdr p. Some (None, p)), bp_Resync = (\<lambda>p. Some (Inl ''down'', p)),
         bp_CompareFeeHistory = (\<lambda>p. Some p)\<rparr>,
      pi_ord = sorted_list_of_fset, pi_wait = (\<lambda>d p. (None, p))\<rparr>"

theorem procWithRetry_attempts_witness:
  "\<exists>e n. procWithRetry failing (sample_header (Some 7)) 0 = Some (Some e, n) \<and> n = 3"
proof -
  have "procWithRetry failing (sample_header (Some 7)) 0 = Some (Some ''receipts'', 3)"
    by (simp add: procWithRetry_def retryCount_def numeral_3_eq_3 failing_def)
  with procWithRetry_attempts [of failing "\<lambda>n. n", OF _ _ this] show ?thesis
    by (auto simp: failing_def)
qed

end
