(* ===== verification/Processor_Stats.thy ===== *)
theory Processor_Stats
  imports Processor_Invariant
begin

text \<open>
  The batching and the cost of the RPC calls, and the fee statistics that the processor sends:
  the aggregated counts of every bucket against a direct sum over the stored blocks.
\<close>

section \<open>Batches\<close>

function chunks :: "nat \<Rightarrow> 'a list \<Rightarrow> 'a list list" where
  "chunks n xs = (if xs = [] \<or> n = 0 then [] else take n xs # chunks n (drop n xs))"
  by pat_completeness auto
termination
  by (relation "measure (\<lambda>(_, xs). length xs)") auto

declare chunks.simps [simp del]

lemma concat_chunks: "0 < n \<Longrightarrow> concat (chunks n xs) = xs"
  by (induction n xs rule: chunks.induct) (subst chunks.simps, simp)

lemma chunks_size: "c \<in> set (chunks n xs) \<Longrightarrow> c \<noteq> [] \<and> length c \<le> n"
  by (induction n xs rule: chunks.induct) (subst (asm) (2) chunks.simps, auto split: if_splits)

lemma length_chunks: "0 < n \<Longrightarrow> length (chunks n xs) = (length xs + n - 1) div n"
proof (induction n xs rule: chunks.induct)
  case (1 n xs)
  show ?case
  proof (cases "xs = []")
    case True
    with 1(2) show ?thesis by (simp add: chunks.simps [of n])
  next
    case False
    then have "length (chunks n xs) = Suc ((length xs - n + n - 1) div n)"
      using 1 by (simp add: chunks.simps [of n xs])
    also have "\<dots> = (length xs + n - 1) div n"
    proof (cases "length xs \<le> n")
      case True
      have "length xs + n - 1 = (length xs - 1) + n" using False by (cases xs) simp_all
      moreover have "length xs - 1 < n" using True 1(2) by linarith
      ultimately have "(length xs + n - 1) div n = 1" using 1(2) by (simp only: div_add_self2) simp
      moreover have "length xs - n + n - 1 < n" using True 1(2) by linarith
      ultimately show ?thesis by simp
    next
      case False
      then have "length xs + n - 1 = (length xs - n + n - 1) + n" using 1(2) by linarith
      then show ?thesis using 1(2) by (simp only: div_add_self2)
    qed
    finally show ?thesis .
  qed
qed

lemma getTxLoop_chunks: "getTxLoop env hs p = fold (getTxChunk env) (chunks getTxChunkSize hs) p"
  by (induction env hs p rule: getTxLoop.induct)
    (subst getTxLoop.simps, subst chunks.simps, simp add: getTxChunkSize_def)

text \<open>A cost that the limiter of a policy can grant at once: no larger than its burst.\<close>

definition within_burst :: "RPCCost \<Rightarrow> RPCPolicy \<Rightarrow> bool" where
  "within_burst cost policy \<longleftrightarrow> (case po_LimitType policy of
       LimitCU \<Rightarrow> co_CU cost \<le> po_Burst policy
     | LimitRPS \<Rightarrow> co_RPC cost \<le> po_Burst policy
     | LimitOther _ \<Rightarrow> False)"

lemma getTxChunk_failed:
  assumes "rpcCall env (mkCost (int (length hs) * getTxCuPerTx) (int (length hs))) (\<lambda>c. api_BatchTx (pe_api env) c hs) p = (Inl e, p1)"
  shows "getTxChunk env hs p = incErrors IncTxRPCFailed p1"
  using assms by (simp add: getTxChunk_def incErrors_def)

text \<open>
  C30. Fetching pending transactions. \<open>GetTxInfo\<close> asks for the hashes in consecutive batches of at
  most 8, each of them once and in order; the number of requests is the length divided by 8,
  rounded up; every batch fits the burst of both kinds of limiter, and a batch that fails leaves
  the pool alone and does not stop the next one.
\<close>

theorem GetTxInfo_batches:
  "GetTxInfo env hs p = fold (getTxChunk env) (chunks 8 hs) p \<and> concat (chunks 8 hs) = hs \<and>
   length (chunks 8 hs) = (length hs + 7) div 8 \<and>
   (\<forall>c \<in> set (chunks 8 hs). c \<noteq> [] \<and> length c \<le> 8 \<and>
     (\<forall>policy \<in> snd ` set rpcPolicies. within_burst (mkCost (int (length c) * getTxCuPerTx) (int (length c))) policy)) \<and>
   (\<forall>c q e q1. rpcCall env (mkCost (int (length c) * getTxCuPerTx) (int (length c)))
       (\<lambda>cl. api_BatchTx (pe_api env) cl c) q = (Inl e, q1) \<longrightarrow>
     ps_pool (getTxChunk env c q) = ps_pool q \<and>
     er_TxRPCFailed (ps_errors (getTxChunk env c q)) = er_TxRPCFailed (ps_errors q) + 1)"
proof (intro conjI ballI allI impI)
  show "GetTxInfo env hs p = fold (getTxChunk env) (chunks 8 hs) p"
    by (simp add: GetTxInfo_def getTxLoop_chunks getTxChunkSize_def chunks.simps [of 8 "[]"])
  show "concat (chunks 8 hs) = hs" "length (chunks 8 hs) = (length hs + 7) div 8"
    by (simp_all add: concat_chunks length_chunks)
next
  fix c assume "c \<in> set (chunks 8 hs)"
  then have c: "c \<noteq> []" "length c \<le> 8" using chunks_size by blast+
  then show "c \<noteq> []" "length c \<le> 8" by simp_all
  fix policy assume "policy \<in> snd ` set rpcPolicies"
  with c show "within_burst (mkCost (int (length c) * getTxCuPerTx) (int (length c))) policy"
    by (auto simp: getTxCuPerTx_def rpcPolicies_def within_burst_def mkCost_def)
next
  fix c q e q1
  assume r: "rpcCall env (mkCost (int (length c) * getTxCuPerTx) (int (length c)))
       (\<lambda>cl. api_BatchTx (pe_api env) cl c) q = (Inl e, q1)"
  show "ps_pool (getTxChunk env c q) = ps_pool q"
    "er_TxRPCFailed (ps_errors (getTxChunk env c q)) = er_TxRPCFailed (ps_errors q) + 1"
    using rpcCall_frame [OF r]
    by (simp_all add: getTxChunk_failed [OF r] frame_def incErrors_def IncTxRPCFailed_def)
qed

theorem GetTxInfo_batches_witness:
  "GetTxInfo sample_proc_env [1, 2, 3, 4, 5, 6, 7, 8, 9] sample_process =
     getTxChunk sample_proc_env [9] (getTxChunk sample_proc_env [1, 2, 3, 4, 5, 6, 7, 8] sample_process)"
proof -
  have "chunks 8 [1, 2, 3, 4, 5, 6, 7, 8, 9 :: Hash] = [[1, 2, 3, 4, 5, 6, 7, 8], [9]]"
    by (simp add: chunks.simps)
  with GetTxInfo_batches [of sample_proc_env "[1, 2, 3, 4, 5, 6, 7, 8, 9]" sample_process] show ?thesis by simp
qed

section \<open>Costs of the other calls\<close>

text \<open>The costs of \<open>getLastestBlockHeader\<close>, \<open>fetchBlockReceipts\<close>, \<open>HeaderByNumber\<close> and \<open>CompareFeeHistory\<close>.\<close>

definition single_costs :: "RPCCost list" where
  "single_costs = [mkCost getBlockReceiptCu 1, mkCost getBlockTxCountCu 1, mkCost getBlockByNumberCu 1, mkCost feeHistoryCu 1]"

lemma single_costs_fit: "\<forall>cost \<in> set single_costs. \<forall>policy \<in> snd ` set rpcPolicies. within_burst cost policy"
  by (simp add: single_costs_def within_burst_def mkCost_def cost_defs rpcPolicies_def)

text \<open>
  C39. Batches of receipts above the burst. With the limiters that \<open>NewRpcManager\<close> makes and a
  limiter that refuses requests above its burst, \<open>fetchReceiptsBatch\<close> fails for every block of 27
  transactions or more, whatever the providers would answer: its first chunk needs more than 400
  compute units and more than 20 requests. The costs that the server really uses all fit.
\<close>

theorem fetchReceiptsBatch_refused:
  assumes "burst_law (pe_rpc env)" "\<forall>c \<in> set (rm_clients (ps_rpc p)). policy_client c" "mgr_ok (ps_rpc p)"
    and "27 \<le> length txs"
  shows "(\<exists>e p'. fetchReceiptsBatch env txs p = (Inl (AllProvidersFailed e), p') \<and> frame p p') \<and>
    (\<forall>cost \<in> set single_costs. \<forall>policy \<in> snd ` set rpcPolicies. within_burst cost policy)"
proof -
  let ?n = "length (take receiptChunkSize txs)"
  let ?cost = "mkCost (int ?n * receiptCuPerTx) (int ?n)"
  have "400 < co_CU ?cost" "20 < co_RPC ?cost" using assms(4) by (auto simp: mkCost_def cost_defs min_def)
  from over_burst_fails [OF assms(1-3) this, where w = "ps_world p"] obtain e r w where
    *: "\<And>fn :: _ \<Rightarrow> _ \<Rightarrow> (string + (nat \<Rightarrow> string option \<times> Receipt option)) \<times> _.
      EthClientFunc (pe_rpc env) ?cost fn (ps_rpc p) (ps_world p) = (Inl (AllProvidersFailed e), r, w)" by blast
  have call: "rpcCall env ?cost fn p = (Inl (AllProvidersFailed e), p\<lparr>ps_rpc := r, ps_world := w\<rparr>)"
    for fn :: "_ \<Rightarrow> _ \<Rightarrow> (string + (nat \<Rightarrow> string option \<times> Receipt option)) \<times> _"
    by (simp add: rpcCall_def * del: length_take)
  have "txs \<noteq> []" using assms(4) by auto
  then have "fetchReceiptsBatch env txs p = (Inl (AllProvidersFailed e), p\<lparr>ps_rpc := r, ps_world := w\<rparr>)"
    by (simp add: fetchReceiptsBatch_def receiptsBatchLoop.simps [of env txs] Let_def call del: length_take)
  moreover have "frame p (p\<lparr>ps_rpc := r, ps_world := w\<rparr>)"
    using rpcCall_frame [OF call] by simp
  ultimately show ?thesis using single_costs_fit by blast
qed

lemma sample_policies: "\<forall>c \<in> set (rm_clients (ps_rpc sample_process)). policy_client c"
  by (auto simp: sample_process_def NewProcess_def sample_manager_def sample_client_def policy_client_def rpcPolicies_def)

theorem fetchReceiptsBatch_refused_witness:
  "\<exists>e p'. fetchReceiptsBatch sample_proc_env (replicate 30 7) sample_process = (Inl (AllProvidersFailed e), p')"
proof -
  have "burst_law (pe_rpc sample_proc_env)" by (simp add: burst_law_def sample_proc_env_def sample_env_def)
  moreover have "mgr_ok (ps_rpc sample_process)"
    by (simp add: sample_process_def NewProcess_def mgr_ok_def sample_manager_def)
  ultimately show ?thesis
    using fetchReceiptsBatch_refused [OF _ sample_policies, of sample_proc_env "replicate 30 7"] by auto
qed

section \<open>Fee statistics\<close>

text \<open>The reference: the sum of a field over all stored statistics of one bucket.\<close>

definition all_stats :: "BlockData list \<Rightarrow> FeeBucketStat list" where
  "all_stats blocks = concat (map bd_FeeBuckets blocks)"

definition bucket_sum :: "(FeeBucketStat \<Rightarrow> 'a::comm_monoid_add) \<Rightarrow> FeeBucketStat list \<Rightarrow> u32 \<Rightarrow> 'a" where
  "bucket_sum f stats b = sum_list (map f (filter (\<lambda>s. fb_Bucket s = b) stats))"

lemma bucket_sum_simps [simp]:
  "bucket_sum f [] b = 0"
  "bucket_sum f (s # ss) b = (if fb_Bucket s = b then f s else 0) + bucket_sum f ss b"
  by (simp_all add: bucket_sum_def)

text \<open>\<open>f\<close> is a field that \<open>aggregateFeeBucket\<close> sums.\<close>

definition summed :: "(FeeBucketStat \<Rightarrow> 'a::comm_monoid_add) \<Rightarrow> bool" where
  "summed f \<longleftrightarrow> (\<forall>b s. f (addStat b s) = f s + f b) \<and> (\<forall>b. f (zero_stat b) = 0)"

lemma summed_fields: "summed fb_TxCount" "summed fb_TotalWaitBlocks" "summed fb_TotalWaitSeconds"
  by (simp_all add: summed_def addStat_def zero_stat_def)

definition entry :: "(FeeBucketStat \<Rightarrow> 'a::zero) \<Rightarrow> (u32, FeeBucketStat) fmap \<Rightarrow> u32 \<Rightarrow> 'a" where
  "entry f stats b = (case fmlookup stats b of None \<Rightarrow> 0 | Some s \<Rightarrow> f s)"

lemma entry_step:
  "summed f \<Longrightarrow> entry f (aggregateStep s stats) b = (if fb_Bucket s = b then f s else 0) + entry f stats b"
  by (auto simp: entry_def aggregateStep_def Let_def summed_def add.commute split: option.split)

lemma entry_fold: "summed f \<Longrightarrow> entry f (fold aggregateStep ss stats) b = bucket_sum f ss b + entry f stats b"
  by (induction ss arbitrary: stats) (simp_all add: entry_step add_ac)

lemma aggregate_fold: "aggregateFeeBucket blocks = fold aggregateStep (all_stats blocks) fmempty"
proof -
  have "fold (\<lambda>block. fold aggregateStep (bd_FeeBuckets block)) blocks m = fold aggregateStep (all_stats blocks) m" for m
    by (induction blocks arbitrary: m) (simp_all add: all_stats_def)
  then show ?thesis by (simp add: aggregateFeeBucket_def)
qed

lemma aggregate_entry: "summed f \<Longrightarrow> entry f (aggregateFeeBucket blocks) b = bucket_sum f (all_stats blocks) b"
  by (simp add: aggregate_fold entry_fold) (simp add: entry_def)

definition own_bucket :: "(u32, FeeBucketStat) fmap \<Rightarrow> bool" where
  "own_bucket stats \<longleftrightarrow> (\<forall>b s. fmlookup stats b = Some s \<longrightarrow> fb_Bucket s = b)"

lemma own_step: "own_bucket stats \<Longrightarrow> own_bucket (aggregateStep s stats)"
  by (cases "fmlookup stats (fb_Bucket s)")
    (simp_all add: own_bucket_def aggregateStep_def addStat_def zero_stat_def)

lemma own_fold: "own_bucket stats \<Longrightarrow> own_bucket (fold aggregateStep ss stats)"
  by (induction ss arbitrary: stats) (simp_all add: own_step)

lemma aggregate_own: "own_bucket (aggregateFeeBucket blocks)"
  unfolding aggregate_fold by (rule own_fold) (simp add: own_bucket_def)

lemma map_filter_comp: "List.map_filter g (List.map_filter f xs) = List.map_filter (\<lambda>x. Option.bind (f x) g) xs"
  by (induction xs) (auto simp: map_filter_simps split: option.split)

lemma convert_buckets:
  assumes "is_range_order ord" "own_bucket stats"
  shows "map fe_Bucket (convertFeeBucketToProto ord stats) =
      filter (\<lambda>b. entry fb_TxCount stats b \<noteq> 0) (ord (fmdom stats))"
proof -
  have "map fe_Bucket (List.map_filter (\<lambda>b. Option.bind (fmlookup stats b) toProto) bs) =
      filter (\<lambda>b. entry fb_TxCount stats b \<noteq> 0) bs" for bs
    using assms(2)
    by (induction bs)
      (auto simp: map_filter_simps entry_def toProto_def own_bucket_def Let_def split: option.splits prod.splits)
  then show ?thesis by (simp add: convertFeeBucketToProto_def map_filter_comp)
qed

text \<open>
  C31. The fee statistics that are sent. The message has one entry for each bucket whose
  transaction count over the stored blocks is not zero, in increasing order of the bucket number,
  whatever the order in which the maps are read; its count is the sum over the stored blocks and
  its averages are the sums of the waits divided by that count (sums in machine arithmetic).
\<close>

theorem feeStatistics_sums:
  assumes "is_range_order ord"
  shows "map fe_Bucket (feeStatistics ord blocks) =
      sorted_list_of_set {b. bucket_sum fb_TxCount (all_stats blocks) b \<noteq> 0} \<and>
    (\<forall>f \<in> set (feeStatistics ord blocks).
      fe_TotalTxCount f = bucket_sum fb_TxCount (all_stats blocks) (fe_Bucket f) \<and>
      fe_AvrWaitBlocks f = f64_div (f64_of_u64 (bucket_sum fb_TotalWaitBlocks (all_stats blocks) (fe_Bucket f)))
        (f64_of_u32 (fe_TotalTxCount f)) \<and>
      fe_AvrWaitSeconds f = f64_div (f64_of_u64 (bucket_sum fb_TotalWaitSeconds (all_stats blocks) (fe_Bucket f)))
        (f64_of_u32 (fe_TotalTxCount f)))"
proof -
  let ?stats = "aggregateFeeBucket blocks"
  have own: "own_bucket ?stats" by (rule aggregate_own)
  note sum = aggregate_entry [OF summed_fields(1), of blocks] aggregate_entry [OF summed_fields(2), of blocks]
    aggregate_entry [OF summed_fields(3), of blocks]
  have ord: "distinct (ord (fmdom ?stats))" "set (ord (fmdom ?stats)) = fset (fmdom ?stats)"
    using assms by (simp_all add: is_range_order_def)
  let ?l = "convertFeeBucketToProto ord ?stats"
  have l: "map fe_Bucket ?l = filter (\<lambda>b. entry fb_TxCount ?stats b \<noteq> 0) (ord (fmdom ?stats))"
    by (rule convert_buckets [OF assms own])
  have dom: "{b. entry fb_TxCount ?stats b \<noteq> 0} \<subseteq> fset (fmdom ?stats)"
    by (auto simp: entry_def fmlookup_dom_iff split: option.splits)
  then have set: "set (map fe_Bucket ?l) = {b. entry fb_TxCount ?stats b \<noteq> 0}" unfolding l using ord by auto
  have "map fe_Bucket (sort_key fe_Bucket ?l) = sorted_list_of_set {b. entry fb_TxCount ?stats b \<noteq> 0}"
  proof (rule sorted_distinct_set_unique)
    show "distinct (map fe_Bucket (sort_key fe_Bucket ?l))"
      using ord(1) l by (metis distinct_filter distinct_map distinct_sort set_sort)
    have "finite {b. entry fb_TxCount ?stats b \<noteq> 0}" using dom finite_fset finite_subset by blast
    then show "set (map fe_Bucket (sort_key fe_Bucket ?l)) = set (sorted_list_of_set {b. entry fb_TxCount ?stats b \<noteq> 0})"
      using set by simp
  qed simp_all
  then have "map fe_Bucket (feeStatistics ord blocks) =
      sorted_list_of_set {b. bucket_sum fb_TxCount (all_stats blocks) b \<noteq> 0}"
    by (simp add: feeStatistics_def sum)
  moreover have "fe_TotalTxCount f = entry fb_TxCount ?stats (fe_Bucket f) \<and>
      fe_AvrWaitBlocks f = f64_div (f64_of_u64 (entry fb_TotalWaitBlocks ?stats (fe_Bucket f))) (f64_of_u32 (fe_TotalTxCount f)) \<and>
      fe_AvrWaitSeconds f = f64_div (f64_of_u64 (entry fb_TotalWaitSeconds ?stats (fe_Bucket f))) (f64_of_u32 (fe_TotalTxCount f))"
    if "f \<in> set (feeStatistics ord blocks)" for f
  proof -
    from that obtain b s where "fmlookup ?stats b = Some s" "toProto s = Some f"
      by (auto simp: feeStatistics_def convertFeeBucketToProto_def List.map_filter_def)
    moreover from this own have "fb_Bucket s = b" by (simp add: own_bucket_def)
    ultimately show ?thesis by (auto simp: toProto_def entry_def Let_def split: if_splits prod.splits)
  qed
  ultimately show ?thesis unfolding sum by blast
qed

definition sample_stat :: "u32 \<Rightarrow> u32 \<Rightarrow> FeeBucketStat" where
  "sample_stat b n = (zero_stat b)\<lparr>fb_TxCount := n, fb_TotalWaitBlocks := 2, fb_TotalWaitSeconds := 24\<rparr>"

definition sample_blocks :: "BlockData list" where
  "sample_blocks =
     [(sample_block 8)\<lparr>bd_FeeBuckets := [sample_stat 3 1, sample_stat 0 2]\<rparr>,
      (sample_block 7)\<lparr>bd_FeeBuckets := [sample_stat 3 4, sample_stat 9 0]\<rparr>]"

theorem feeStatistics_sums_witness:
  "map fe_Bucket (feeStatistics sorted_list_of_fset sample_blocks) = [0, 3] \<and>
   list_all (\<lambda>f. fe_TotalTxCount f = bucket_sum fb_TxCount (all_stats sample_blocks) (fe_Bucket f))
     (feeStatistics sorted_list_of_fset sample_blocks) \<and>
   bucket_sum fb_TxCount (all_stats sample_blocks) 3 = 5"
proof (intro conjI)
  show "list_all (\<lambda>f. fe_TotalTxCount f = bucket_sum fb_TxCount (all_stats sample_blocks) (fe_Bucket f))
     (feeStatistics sorted_list_of_fset sample_blocks)"
    using feeStatistics_sums [OF is_range_order_sorted, of sample_blocks] by (simp add: list_all_iff)
  have pos: "{b. bucket_sum fb_TxCount (all_stats sample_blocks) b \<noteq> 0} = {0, 3}"
    by (auto simp: all_stats_def sample_blocks_def sample_stat_def zero_stat_def split: if_splits)
  show "map fe_Bucket (feeStatistics sorted_list_of_fset sample_blocks) = [0, 3]"
    using feeStatistics_sums [OF is_range_order_sorted, of sample_blocks] unfolding pos by simp
  show "bucket_sum fb_TxCount (all_stats sample_blocks) 3 = 5"
    by (simp add: all_stats_def sample_blocks_def sample_stat_def zero_stat_def)
qed

end
