(* ===== verification/Pending_Pipeline.thy ===== *)
theory Pending_Pipeline
  imports Block_Pipeline_Gap Processor_Stats
begin

text \<open>
  The pending pipeline (\<open>internal/coordinator/pendingPipeline.go\<close>) and the coordinator. The hashes go
  through one buffered channel to a fixed number of workers; each worker collects a batch and hands
  it to the processor when it has 24 hashes or when its ticker fires. \<open>getTx\<close> is the call
  \<open>proc.GetTxInfo\<close> on the processor's state. The goroutines are interleaved: a run is a list of
  events, each one iteration of the loop of one worker or one call of \<open>push\<close>.
\<close>

section \<open>The pipeline\<close>

definition pendingWorkerCount :: nat where "pendingWorkerCount = 8"
definition maxBatchSize :: nat where "maxBatchSize = 24"
definition txBufferSize :: nat where "txBufferSize = 50000"

record pendingPipeline =
  pl_workers :: nat
  pl_jobs :: "Hash chan"

definition newPendingPipeline :: "nat \<Rightarrow> pendingPipeline" where
  "newPendingPipeline workers = \<lparr>pl_workers = workers, pl_jobs = make_chan txBufferSize\<rparr>"

definition Pending_push :: "Hash \<Rightarrow> pendingPipeline \<Rightarrow> pendingPipeline" where
  "Pending_push hash pl = pl\<lparr>pl_jobs := snd (chan_try_send hash (pl_jobs pl))\<rparr>"

definition flush :: "(Hash list \<Rightarrow> 'p \<Rightarrow> 'p) \<Rightarrow> Hash list \<times> 'p \<Rightarrow> Hash list \<times> 'p" where
  "flush getTx = (\<lambda>(batch, p). if batch = [] then (batch, p) else ([], getTx batch p))"

text \<open>The branches of the \<open>select\<close> of \<open>worker\<close>; the flag says whether the worker goes on.\<close>

datatype worker_event = CtxDone | Job Hash | JobsClosed | Ticker

fun worker :: "(Hash list \<Rightarrow> 'p \<Rightarrow> 'p) \<Rightarrow> worker_event \<Rightarrow> Hash list \<times> 'p \<Rightarrow> bool \<times> (Hash list \<times> 'p)" where
  "worker getTx CtxDone st = (False, st)"
| "worker getTx JobsClosed st = (False, flush getTx st)"
| "worker getTx Ticker st = (True, flush getTx st)"
| "worker getTx (Job hash) (batch, p) =
     (let batch = batch @ [hash]
      in (True, if length batch \<ge> maxBatchSize then flush getTx (batch, p) else (batch, p)))"

section \<open>The running workers\<close>

text \<open>The batch of a worker that has returned is \<open>None\<close>.\<close>

record 'p pending_run =
  pu_pipe :: pendingPipeline
  pu_batches :: "Hash list option list"
  pu_proc :: 'p

definition Pending_start :: "pendingPipeline \<Rightarrow> 'p \<Rightarrow> 'p pending_run" where
  "Pending_start pl p = \<lparr>pu_pipe = pl, pu_batches = replicate (pl_workers pl) (Some []), pu_proc = p\<rparr>"

datatype pend_event = Push Hash | Take nat | Tick nat | Stop nat

definition workerStep ::
  "(Hash list \<Rightarrow> 'p \<Rightarrow> 'p) \<Rightarrow> nat \<Rightarrow> worker_event \<Rightarrow> 'p pending_run \<Rightarrow> 'p pending_run" where
  "workerStep getTx i ev s =
     (if i < length (pu_batches s)
      then (case pu_batches s ! i of
              None \<Rightarrow> s
            | Some batch \<Rightarrow>
                (case worker getTx ev (batch, pu_proc s) of
                   (goesOn, batch', p) \<Rightarrow>
                     s\<lparr>pu_batches := (pu_batches s)[i := if goesOn then Some batch' else None], pu_proc := p\<rparr>))
      else s)"

text \<open>A worker that would receive from an empty channel waits: nothing happens.\<close>

fun pend_step :: "(Hash list \<Rightarrow> 'p \<Rightarrow> 'p) \<Rightarrow> pend_event \<Rightarrow> 'p pending_run \<Rightarrow> 'p pending_run" where
  "pend_step getTx (Push h) s = s\<lparr>pu_pipe := Pending_push h (pu_pipe s)\<rparr>"
| "pend_step getTx (Tick i) s = workerStep getTx i Ticker s"
| "pend_step getTx (Stop i) s = workerStep getTx i CtxDone s"
| "pend_step getTx (Take i) s =
     (if i < length (pu_batches s) \<and> pu_batches s ! i \<noteq> None
      then (case chan_try_recv (pl_jobs (pu_pipe s)) of
              None \<Rightarrow> s
            | Some (h, ch) \<Rightarrow> workerStep getTx i (Job h) (s\<lparr>pu_pipe := (pu_pipe s)\<lparr>pl_jobs := ch\<rparr>\<rparr>))
      else s)"

section \<open>The coordinator\<close>

record Coordinator =
  co_pending :: pendingPipeline
  co_block :: blockPipeline

definition NewCoordinator :: "int \<Rightarrow> Coordinator" where
  "NewCoordinator maxBlockCount =
     \<lparr>co_pending = newPendingPipeline pendingWorkerCount, co_block = newBlockPipeline maxBlockCount\<rparr>"

definition PushHeader :: "Header option \<Rightarrow> Coordinator \<Rightarrow> Coordinator" where
  "PushHeader header c = c\<lparr>co_block := Pipeline_push header (co_block c)\<rparr>"

definition PushTxHash :: "Hash \<Rightarrow> Coordinator \<Rightarrow> Coordinator" where
  "PushTxHash hash c = c\<lparr>co_pending := Pending_push hash (co_pending c)\<rparr>"

text \<open>\<open>Start\<close>: the workers are started, then the block pipeline; the processor is shared.\<close>

definition Coordinator_Start ::
  "('e, 'p) pipe_env \<Rightarrow> Coordinator \<Rightarrow> 'p \<Rightarrow> ('p pending_run \<times> blockPipeline) go" where
  "Coordinator_Start env c p =
     do {
       (b, p) \<leftarrow> Pipeline_start env (co_block c, p);
       ret (Pending_start (co_pending c) p, b)
     }"

section \<open>No hash is lost or fetched twice\<close>

definition batch_list :: "Hash list option \<Rightarrow> Hash list" where
  "batch_list b = (case b of None \<Rightarrow> [] | Some l \<Rightarrow> l)"

definition held :: "'p pending_run \<Rightarrow> Hash multiset" where
  "held s = mset (chan_buf (pl_jobs (pu_pipe s))) + mset (concat (map batch_list (pu_batches s)))"

definition accepted :: "pend_event \<Rightarrow> 'p pending_run \<Rightarrow> Hash multiset" where
  "accepted ev s = (case ev of
       Push h \<Rightarrow> if chan_full (pl_jobs (pu_pipe s)) then {#} else {#h#}
     | _ \<Rightarrow> {#})"

definition batches_ok :: "'p pending_run \<Rightarrow> bool" where
  "batches_ok s \<longleftrightarrow> chan_ok (pl_jobs (pu_pipe s)) \<and> (\<forall>b \<in> set (pu_batches s). length (batch_list b) < maxBatchSize)"

lemma mset_concat_update:
  "i < length bs \<Longrightarrow> mset (concat (map batch_list (bs[i := b]))) + mset (batch_list (bs ! i)) =
     mset (concat (map batch_list bs)) + mset (batch_list b)"
proof (induction bs arbitrary: i)
  case (Cons c cs)
  then show ?case by (cases i) (auto simp: add_ac)
qed simp

text \<open>The calls that one iteration of a worker makes.\<close>

lemma worker_calls:
  assumes "worker getTx ev (batch, p) = (go, batch', p')" "length batch < maxBatchSize" "ev \<noteq> CtxDone"
  shows "\<exists>calls. p' = fold getTx calls p \<and> (\<forall>c \<in> set calls. c \<noteq> [] \<and> length c \<le> maxBatchSize) \<and>
    length batch' < maxBatchSize \<and> (\<not> go \<longrightarrow> batch' = []) \<and>
    mset (concat calls) + mset batch' = mset batch + (case ev of Job h \<Rightarrow> {#h#} | _ \<Rightarrow> {#})"
proof -
  have m: "0 < maxBatchSize" by (simp add: maxBatchSize_def)
  have fl: "\<exists>calls. snd (flush getTx (b, p)) = fold getTx calls p \<and> (\<forall>c \<in> set calls. c \<noteq> [] \<and> length c \<le> maxBatchSize) \<and>
      fst (flush getTx (b, p)) = [] \<and> concat calls = b" if "length b \<le> maxBatchSize" for b
  proof (cases "b = []")
    case True
    then show ?thesis by (intro exI [of _ "[]"]) (simp add: flush_def)
  next
    case False
    with that show ?thesis by (intro exI [of _ "[b]"]) (simp add: flush_def)
  qed
  show ?thesis
  proof (cases ev)
    case (Job h)
    show ?thesis
    proof (cases "maxBatchSize \<le> length (batch @ [h])")
      case True
      from fl [of "batch @ [h]"] assms Job True m show ?thesis by (fastforce simp: Let_def)
    next
      case False
      with assms Job show ?thesis by (intro exI [of _ "[]"]) (auto simp: Let_def)
    qed
  qed (use fl [of batch] assms m in \<open>fastforce+\<close>)
qed

definition small_calls :: "Hash list list \<Rightarrow> bool" where
  "small_calls calls \<longleftrightarrow> (\<forall>c \<in> set calls. c \<noteq> [] \<and> length c \<le> maxBatchSize)"

lemma multiset_exchange:
  fixes b :: "'a multiset"
  assumes "x' + b = y + b'" "c + b' = b + j"
  shows "c + x' = y + j"
proof -
  have "(c + x') + b = c + (y + b')" using assms(1) by (simp add: add.assoc)
  also have "\<dots> = y + (c + b')" by (rule add.left_commute)
  also have "\<dots> = (y + j) + b" unfolding assms(2) by (simp add: ac_simps)
  finally show ?thesis by (rule add_right_imp_eq)
qed

lemma workerStep_calls:
  assumes ok: "batches_ok s" and ev: "ev \<noteq> CtxDone" and i: "i < length (pu_batches s)" "pu_batches s ! i \<noteq> None"
  shows "\<exists>calls. pu_proc (workerStep getTx i ev s) = fold getTx calls (pu_proc s) \<and> small_calls calls \<and>
    batches_ok (workerStep getTx i ev s) \<and> pu_pipe (workerStep getTx i ev s) = pu_pipe s \<and>
    mset (concat calls) + mset (concat (map batch_list (pu_batches (workerStep getTx i ev s)))) =
      mset (concat (map batch_list (pu_batches s))) + (case ev of Job h \<Rightarrow> {#h#} | _ \<Rightarrow> {#})"
proof -
  from i(2) obtain batch where b: "pu_batches s ! i = Some batch" by blast
  then have mem: "Some batch \<in> set (pu_batches s)" using i(1) by (metis nth_mem)
  then have len: "length batch < maxBatchSize" using ok by (auto simp: batches_ok_def batch_list_def)
  obtain go batch' p' where w: "worker getTx ev (batch, pu_proc s) = (go, batch', p')" using prod_cases3 by blast
  from worker_calls [OF w len ev] obtain calls where
    c: "p' = fold getTx calls (pu_proc s)" "small_calls calls" "length batch' < maxBatchSize" "\<not> go \<longrightarrow> batch' = []"
    "mset (concat calls) + mset batch' = mset batch + (case ev of Job h \<Rightarrow> {#h#} | _ \<Rightarrow> {#})"
    unfolding small_calls_def by blast
  let ?b = "if go then Some batch' else None"
  have s': "workerStep getTx i ev s = s\<lparr>pu_batches := (pu_batches s)[i := ?b], pu_proc := p'\<rparr>"
    using i b w by (simp add: workerStep_def)
  have bl: "batch_list ?b = batch'" using c(4) by (simp add: batch_list_def)
  have "set ((pu_batches s)[i := ?b]) \<subseteq> insert ?b (set (pu_batches s))" by (rule set_update_subset_insert)
  then have "batches_ok (workerStep getTx i ev s)"
    using ok c(3) bl unfolding batches_ok_def s' by auto
  moreover have "mset (concat calls) + mset (concat (map batch_list ((pu_batches s)[i := ?b]))) =
      mset (concat (map batch_list (pu_batches s))) + (case ev of Job h \<Rightarrow> {#h#} | _ \<Rightarrow> {#})"
  proof -
    have "mset (concat (map batch_list ((pu_batches s)[i := ?b]))) + mset batch =
        mset (concat (map batch_list (pu_batches s))) + mset batch'"
      using mset_concat_update [OF i(1), of ?b] unfolding bl by (simp add: b batch_list_def)
    from multiset_exchange [OF this c(5)] show ?thesis .
  qed
  ultimately show ?thesis using c(1,2) by (auto simp: s')
qed

fun live :: "pend_event \<Rightarrow> bool" where
  "live (Stop _) = False"
| "live _ = True"

lemma pend_step_calls:
  assumes ok: "batches_ok s" and "live ev"
  shows "\<exists>calls. pu_proc (pend_step getTx ev s) = fold getTx calls (pu_proc s) \<and> small_calls calls \<and>
    batches_ok (pend_step getTx ev s) \<and>
    mset (concat calls) + held (pend_step getTx ev s) = held s + accepted ev s"
proof -
  have none: "\<exists>calls. pu_proc s = fold getTx calls (pu_proc s) \<and> small_calls calls \<and> batches_ok s \<and>
      mset (concat calls) + held s = held s + {#}"
    by (rule exI [of _ "[]"]) (simp add: small_calls_def ok)
  show ?thesis
  proof (cases ev)
    case (Push h)
    then show ?thesis
      by (intro exI [of _ "[]"])
        (use ok in \<open>auto simp: small_calls_def batches_ok_def held_def accepted_def Pending_push_def
          chan_try_send_def chan_ok_def chan_full_def\<close>)
  next
    case (Tick i)
    show ?thesis
    proof (cases "i < length (pu_batches s) \<and> pu_batches s ! i \<noteq> None")
      case True
      with workerStep_calls [OF ok, of Ticker i getTx] Tick show ?thesis
        by (auto simp: held_def accepted_def add_ac)
    next
      case False
      then have "workerStep getTx i Ticker s = s" by (auto simp: workerStep_def)
      with none Tick show ?thesis by (simp add: accepted_def)
    qed
  next
    case (Take i)
    show ?thesis
    proof (cases "i < length (pu_batches s) \<and> pu_batches s ! i \<noteq> None \<and> chan_buf (pl_jobs (pu_pipe s)) \<noteq> []")
      case True
      then obtain h hs where buf: "chan_buf (pl_jobs (pu_pipe s)) = h # hs" by (meson neq_Nil_conv)
      let ?s = "s\<lparr>pu_pipe := (pu_pipe s)\<lparr>pl_jobs := (pl_jobs (pu_pipe s))\<lparr>chan_buf := hs\<rparr>\<rparr>\<rparr>"
      have run: "pend_step getTx ev s = workerStep getTx i (Job h) ?s"
        using True buf Take by (simp add: chan_try_recv_def)
      have "batches_ok ?s" using ok buf by (simp add: batches_ok_def chan_ok_def)
      from workerStep_calls [OF this, of "Job h" i getTx] True obtain calls where
        "pu_proc (pend_step getTx ev s) = fold getTx calls (pu_proc s)" "small_calls calls"
        "batches_ok (pend_step getTx ev s)" "pu_pipe (pend_step getTx ev s) = pu_pipe ?s"
        "mset (concat calls) + mset (concat (map batch_list (pu_batches (pend_step getTx ev s)))) =
          mset (concat (map batch_list (pu_batches s))) + {#h#}"
        unfolding run by auto
      moreover from this have "mset (concat calls) + held (pend_step getTx ev s) = held s + accepted ev s"
        using buf Take by (simp add: held_def accepted_def add_ac)
      ultimately show ?thesis by blast
    next
      case False
      then have "pend_step getTx ev s = s" using Take by (auto simp: chan_try_recv_def)
      with none Take show ?thesis by (simp add: accepted_def)
    qed
  qed (use assms in simp)
qed

fun all_accepted :: "(Hash list \<Rightarrow> 'p \<Rightarrow> 'p) \<Rightarrow> pend_event list \<Rightarrow> 'p pending_run \<Rightarrow> Hash multiset" where
  "all_accepted getTx [] s = {#}"
| "all_accepted getTx (ev # evs) s = accepted ev s + all_accepted getTx evs (pend_step getTx ev s)"

lemma pend_run_calls:
  assumes "batches_ok s" "list_all live evs"
  shows "\<exists>calls. pu_proc (fold (pend_step getTx) evs s) = fold getTx calls (pu_proc s) \<and> small_calls calls \<and>
    batches_ok (fold (pend_step getTx) evs s) \<and>
    mset (concat calls) + held (fold (pend_step getTx) evs s) = held s + all_accepted getTx evs s"
  using assms
proof (induction evs arbitrary: s)
  case Nil
  then show ?case by (intro exI [of _ "[]"]) (simp add: small_calls_def)
next
  case (Cons ev evs)
  from pend_step_calls [of s ev getTx] Cons.prems obtain c1 where
    1: "pu_proc (pend_step getTx ev s) = fold getTx c1 (pu_proc s)" "small_calls c1" "batches_ok (pend_step getTx ev s)"
    "mset (concat c1) + held (pend_step getTx ev s) = held s + accepted ev s" by auto
  from Cons.IH [OF 1(3)] Cons.prems(2) obtain c2 where
    2: "pu_proc (fold (pend_step getTx) evs (pend_step getTx ev s)) = fold getTx c2 (pu_proc (pend_step getTx ev s))"
    "small_calls c2" "batches_ok (fold (pend_step getTx) evs (pend_step getTx ev s))"
    "mset (concat c2) + held (fold (pend_step getTx) evs (pend_step getTx ev s)) =
      held (pend_step getTx ev s) + all_accepted getTx evs (pend_step getTx ev s)" by auto
  have "mset (concat (c1 @ c2)) + held (fold (pend_step getTx) (ev # evs) s) = held s + all_accepted getTx (ev # evs) s"
  proof -
    have "mset (concat (c1 @ c2)) + held (fold (pend_step getTx) (ev # evs) s) =
        mset (concat c1) + held (pend_step getTx ev s) + all_accepted getTx evs (pend_step getTx ev s)"
      using 2(4) by (simp add: add.assoc)
    then show ?thesis unfolding 1(4) by (simp add: add.assoc)
  qed
  with 1 2 show ?case by (intro exI [of _ "c1 @ c2"]) (auto simp: small_calls_def)
qed



end
