(* ===== verification/Ingestion.thy ===== *)
theory Ingestion
  imports Pending_Pipeline
begin

text \<open>
  The subscriber (\<open>internal/network/ingestion\<close>): the providers and their rotation, the deduplication of
  pending hashes, the two WebSocket streams, the header loop with failover and the pending sessions
  with handover.

  A stream is the list of what its \<open>select\<close> receives, in order, each with the clock reading of the
  code; the result \<open>None\<close> of a stream means that it still runs after these events. The LRU cache, the
  text of a hash, dialling and subscribing are other packages and are arguments. \<open>'w\<close> is the state of
  the world outside.
\<close>

section \<open>Data\<close>

record Provider =
  pv_Name :: string
  pv_Url :: string

datatype ingest_error =
    ErrHeaderChannelClose
  | ErrHeaderTimeout string Time
  | ErrSubscriptionClosed
  | ErrPendingChannelClose
  | ErrPendingSubscriptionTimeout
  | ErrNoEthereumProviders
  | ErrCtx string
  | ErrStream string
  | ErrDial string string
  | ErrSubscribe string string
  | ErrInitialPending ingest_error

definition connectRetryCount :: nat where "connectRetryCount = 3"
definition pendingConnectRetryDelay :: Time where "pendingConnectRetryDelay = 3 * 1000000000"
definition txDedupCasheSize :: int where "txDedupCasheSize = 10000"
definition headerTimeout :: Time where "headerTimeout = 30 * 1000000000"
definition headerConnectRetryDelay :: Time where "headerConnectRetryDelay = 1000000000"

record 'l Subscriber =
  sb_coor :: Coordinator
  sb_dedup :: "'l option"
  sb_providers :: "Provider list"
  sb_pendingSwitch :: "string chan"
  sb_errChan :: "ingest_error chan"

section \<open>Deduplication\<close>

record 'l lru_env =
  lru_New :: "int \<Rightarrow> string + 'l"
  lru_Get :: "string \<Rightarrow> 'l \<Rightarrow> bool \<times> 'l"
  lru_Add :: "string \<Rightarrow> 'l \<Rightarrow> 'l"

definition NewCache :: "'l lru_env \<Rightarrow> int \<Rightarrow> string + 'l" where
  "NewCache env n = lru_New env n"

definition Seen :: "'l lru_env \<Rightarrow> string \<Rightarrow> 'l \<Rightarrow> bool \<times> 'l" where
  "Seen env txHash c =
     (case lru_Get env txHash c of
        (True, c) \<Rightarrow> (True, c)
      | (False, c) \<Rightarrow> (False, lru_Add env txHash c))"

definition NewSubscriber :: "'l lru_env \<Rightarrow> Provider list \<Rightarrow> Coordinator \<Rightarrow> string + 'l Subscriber" where
  "NewSubscriber env providers coor =
     (case NewCache env txDedupCasheSize of
        Inl err \<Rightarrow> Inl err
      | Inr dedup \<Rightarrow>
          Inr \<lparr>sb_coor = coor, sb_dedup = Some dedup, sb_providers = providers,
               sb_pendingSwitch = make_chan 4, sb_errChan = make_chan 1\<rparr>)"

definition reportFatal :: "ingest_error \<Rightarrow> 'l Subscriber \<Rightarrow> 'l Subscriber" where
  "reportFatal err s = s\<lparr>sb_errChan := snd (chan_try_send err (sb_errChan s))\<rparr>"

definition notifyPendingSwitch :: "string \<Rightarrow> 'l Subscriber \<Rightarrow> 'l Subscriber" where
  "notifyPendingSwitch name s = s\<lparr>sb_pendingSwitch := snd (chan_try_send name (sb_pendingSwitch s))\<rparr>"

section \<open>Providers\<close>

definition provider :: "Provider list \<Rightarrow> string \<Rightarrow> Provider option" where
  "provider providers name =
     (case List.find (\<lambda>p. pv_Name p = name) providers of
        None \<Rightarrow> None
      | Some p \<Rightarrow> if pv_Url p = '''' then None else Some p)"

text \<open>The index of the first provider with the name, \<open>0\<close> when there is none.\<close>

fun nameIndex :: "string \<Rightarrow> Provider list \<Rightarrow> nat option" where
  "nameIndex name [] = None"
| "nameIndex name (p # ps) = (if pv_Name p = name then Some 0 else map_option Suc (nameIndex name ps))"

definition alternateProvider :: "Provider list \<Rightarrow> string \<Rightarrow> Provider option" where
  "alternateProvider providers name =
     (let n = length providers
      in if n = 0 then None
         else
           let curIdx = (case nameIndex name providers of None \<Rightarrow> 0 | Some i \<Rightarrow> i)
           in List.find (\<lambda>p. \<not> (pv_Name p = name \<or> pv_Url p = ''''))
                (map (\<lambda>i. providers ! ((curIdx + i) mod n)) [1 ..< Suc n]))"

section \<open>The header stream\<close>

datatype header_event =
    HCtxDone string
  | HErr "string option"
  | HErrClosed
  | HHeader "Header option" Time
  | HClosed
  | HTick Time

fun consumeHeaderStream ::
  "Provider \<Rightarrow> Time \<Rightarrow> (Header option \<Rightarrow> 's \<Rightarrow> 's) \<Rightarrow> header_event list \<Rightarrow> Time \<Rightarrow> 's \<Rightarrow> ingest_error option \<times> 's" where
  "consumeHeaderStream pv timeout push [] lastHeaderAt s = (None, s)"
| "consumeHeaderStream pv timeout push (HCtxDone e # evs) lastHeaderAt s = (Some (ErrCtx e), s)"
| "consumeHeaderStream pv timeout push (HErrClosed # evs) lastHeaderAt s = (Some ErrSubscriptionClosed, s)"
| "consumeHeaderStream pv timeout push (HErr err # evs) lastHeaderAt s =
     (case err of None \<Rightarrow> (Some ErrSubscriptionClosed, s) | Some e \<Rightarrow> (Some (ErrStream e), s))"
| "consumeHeaderStream pv timeout push (HClosed # evs) lastHeaderAt s = (Some ErrHeaderChannelClose, s)"
| "consumeHeaderStream pv timeout push (HHeader header now # evs) lastHeaderAt s =
     (if header = None then consumeHeaderStream pv timeout push evs lastHeaderAt s
      else consumeHeaderStream pv timeout push evs now (push header s))"
| "consumeHeaderStream pv timeout push (HTick now # evs) lastHeaderAt s =
     (if now - lastHeaderAt \<ge> timeout then (Some (ErrHeaderTimeout (pv_Name pv) lastHeaderAt), s)
      else consumeHeaderStream pv timeout push evs lastHeaderAt s)"

text \<open>
  \<open>ie_Headers\<close> is what the stream of a provider receives until it ends (or for as long as it is
  watched) and the time it starts.
\<close>

record 'w ingest_env =
  ie_CtxErr :: "'w \<Rightarrow> string option"
  ie_Dial :: "string \<Rightarrow> 'w \<Rightarrow> string option \<times> 'w"
  ie_Subscribe :: "string \<Rightarrow> 'w \<Rightarrow> string option \<times> 'w"
  ie_Headers :: "Provider \<Rightarrow> 'w \<Rightarrow> (Time \<times> header_event list) \<times> 'w"
  ie_Wait :: "Time \<Rightarrow> 'w \<Rightarrow> bool \<times> 'w"

definition connectHeadAndStream ::
  "'w ingest_env \<Rightarrow> Provider \<Rightarrow> 'l Subscriber \<times> 'w \<Rightarrow> ingest_error option \<times> 'l Subscriber \<times> 'w" where
  "connectHeadAndStream env pv = (\<lambda>(s, w).
     case ie_Dial env (pv_Url pv) w of
       (Some err, w) \<Rightarrow> (Some (ErrDial (pv_Name pv) err), s, w)
     | (None, w) \<Rightarrow>
         (case ie_Subscribe env ''newHeads'' w of
            (Some err, w) \<Rightarrow> (Some (ErrSubscribe (pv_Name pv) err), s, w)
          | (None, w) \<Rightarrow>
              (case ie_Headers env pv w of
                 ((t0, evs), w) \<Rightarrow>
                   (case consumeHeaderStream pv headerTimeout PushHeader evs t0 (sb_coor s) of
                      (res, coor) \<Rightarrow> (res, s\<lparr>sb_coor := coor\<rparr>, w)))))"

section \<open>The header loop\<close>

text \<open>
  One iteration of \<open>runHeaderSub\<close>: it returns, goes on with the provider of a name, or stays in a
  stream that has not ended.
\<close>

datatype header_round = SubReturned | NextRound string | InStream string

definition headerRound ::
  "'w ingest_env \<Rightarrow> string \<Rightarrow> 'l Subscriber \<times> 'w \<Rightarrow> header_round \<times> 'l Subscriber \<times> 'w" where
  "headerRound env currentProvider = (\<lambda>(s, w).
     if ie_CtxErr env w \<noteq> None then (SubReturned, s, w)
     else
       case provider (sb_providers s) currentProvider of
         None \<Rightarrow>
           (case alternateProvider (sb_providers s) currentProvider of
              None \<Rightarrow> (SubReturned, reportFatal ErrNoEthereumProviders s, w)
            | Some nextProvider \<Rightarrow> (NextRound (pv_Name nextProvider), s, w))
       | Some pv \<Rightarrow>
           if pv_Name pv = '''' then
             (case alternateProvider (sb_providers s) currentProvider of
                None \<Rightarrow> (SubReturned, reportFatal ErrNoEthereumProviders s, w)
              | Some nextProvider \<Rightarrow> (NextRound (pv_Name nextProvider), s, w))
           else
             (case connectHeadAndStream env pv (s, w) of
                (None, s, w) \<Rightarrow> (InStream (pv_Name pv), s, w)
              | (Some err, s, w) \<Rightarrow>
                  if ie_CtxErr env w \<noteq> None then (SubReturned, s, w)
                  else
                    let (cur, s) = (case alternateProvider (sb_providers s) (pv_Name pv) of
                          None \<Rightarrow> (currentProvider, s)
                        | Some nextProvider \<Rightarrow>
                            (pv_Name nextProvider, notifyPendingSwitch (pv_Name nextProvider) s))
                    in case ie_Wait env headerConnectRetryDelay w of
                         (False, w) \<Rightarrow> (SubReturned, s, w)
                       | (True, w) \<Rightarrow> (NextRound cur, s, w)))"

text \<open>The first \<open>n\<close> iterations of the loop.\<close>

fun headerRounds ::
  "'w ingest_env \<Rightarrow> nat \<Rightarrow> string \<Rightarrow> 'l Subscriber \<times> 'w \<Rightarrow> header_round \<times> 'l Subscriber \<times> 'w" where
  "headerRounds env 0 cur sw = (NextRound cur, sw)"
| "headerRounds env (Suc n) cur sw =
     (case headerRound env cur sw of
        (NextRound cur', sw') \<Rightarrow> headerRounds env n cur' sw'
      | r \<Rightarrow> r)"

definition runHeaderSub ::
  "'w ingest_env \<Rightarrow> nat \<Rightarrow> 'l Subscriber \<times> 'w \<Rightarrow> header_round \<times> 'l Subscriber \<times> 'w" where
  "runHeaderSub env n = (\<lambda>(s, w).
     case sb_providers s of
       [] \<Rightarrow> (SubReturned, reportFatal ErrNoEthereumProviders s, w)
     | p # _ \<Rightarrow> headerRounds env n (pv_Name p) (s, w))"

section \<open>The pending stream\<close>

datatype hash_event =
    PCtxDone string
  | PErr "string option"
  | PErrClosed
  | PHash Hash
  | PClosed

text \<open>The loop of \<open>connectPendingAndStream\<close>: the throughput counters, the cache and the coordinator.\<close>

definition onHash ::
  "'l lru_env \<Rightarrow> (Hash \<Rightarrow> string) \<Rightarrow> Hash \<Rightarrow> Count \<times> 'l Subscriber \<Rightarrow> Count \<times> 'l Subscriber" where
  "onHash lru hex txHash = (\<lambda>(m, s).
     if txHash = 0 then (m, s)
     else
       let m = IncPendginRecieved m
       in case sb_dedup s of
            None \<Rightarrow> (m, s\<lparr>sb_coor := PushTxHash txHash (sb_coor s)\<rparr>)
          | Some c \<Rightarrow>
              (case Seen lru (hex txHash) c of
                 (True, c) \<Rightarrow> (m, s\<lparr>sb_dedup := Some c\<rparr>)
               | (False, c) \<Rightarrow> (m, s\<lparr>sb_dedup := Some c, sb_coor := PushTxHash txHash (sb_coor s)\<rparr>)))"

fun consumePending ::
  "'l lru_env \<Rightarrow> (Hash \<Rightarrow> string) \<Rightarrow> hash_event list \<Rightarrow> Count \<times> 'l Subscriber \<Rightarrow>
   ingest_error option \<times> Count \<times> 'l Subscriber" where
  "consumePending lru hex [] ms = (None, ms)"
| "consumePending lru hex (PCtxDone e # evs) ms = (Some (ErrCtx e), ms)"
| "consumePending lru hex (PErrClosed # evs) ms = (Some ErrSubscriptionClosed, ms)"
| "consumePending lru hex (PErr err # evs) ms =
     (case err of None \<Rightarrow> (Some ErrSubscriptionClosed, ms) | Some e \<Rightarrow> (Some (ErrStream e), ms))"
| "consumePending lru hex (PClosed # evs) ms = (Some ErrPendingChannelClose, ms)"
| "consumePending lru hex (PHash h # evs) ms = consumePending lru hex evs (onHash lru hex h ms)"

text \<open>
  The body of a session: the flag says whether \<open>session.ready\<close> was closed. Unlike those of the header
  stream, the errors of dialling and subscribing are returned as they are. \<open>hashes\<close> is what the stream
  of a provider receives.
\<close>

definition connectPendingAndStream ::
  "'l lru_env \<Rightarrow> (Hash \<Rightarrow> string) \<Rightarrow> 'w ingest_env \<Rightarrow> (Provider \<Rightarrow> 'w \<Rightarrow> hash_event list \<times> 'w) \<Rightarrow> Provider \<Rightarrow>
   (Count \<times> 'l Subscriber) \<times> 'w \<Rightarrow> (bool \<times> ingest_error option) \<times> (Count \<times> 'l Subscriber) \<times> 'w" where
  "connectPendingAndStream lru hex env hashes pv = (\<lambda>(ms, w).
     case ie_Dial env (pv_Url pv) w of
       (Some err, w) \<Rightarrow> ((False, Some (ErrStream err)), ms, w)
     | (None, w) \<Rightarrow>
         (case ie_Subscribe env ''newPendingTransactions'' w of
            (Some err, w) \<Rightarrow> ((False, Some (ErrStream err)), ms, w)
          | (None, w) \<Rightarrow>
              (case hashes pv w of
                 (evs, w) \<Rightarrow>
                   (case consumePending lru hex evs ms of
                      (res, ms) \<Rightarrow> ((True, res), ms, w)))))"

section \<open>Pending sessions\<close>

text \<open>
  A session has the identity of its context; \<open>ss_live\<close> holds the identities of the sessions whose
  context has not been cancelled. The outcome of waiting for a new session is one of the four branches
  of the \<open>select\<close> of \<open>startPendingSession\<close>.
\<close>

record pendingSession =
  pn_id :: nat
  pn_provider :: Provider

record sessions =
  ss_live :: "nat fset"
  ss_next :: nat

datatype start_outcome = Ready | EndedEarly ingest_error | ReadyTimeout | StartCancelled string

record 'w session_env =
  ns_CtxErr :: "'w \<Rightarrow> string option"
  ns_Start :: "Provider \<Rightarrow> 'w \<Rightarrow> start_outcome \<times> 'w"
  ns_OldDone :: "nat \<Rightarrow> 'w \<Rightarrow> 'w"
  ns_Wait :: "Time \<Rightarrow> 'w \<Rightarrow> bool \<times> 'w"

definition cancel :: "pendingSession \<Rightarrow> sessions \<Rightarrow> sessions" where
  "cancel session ss = ss\<lparr>ss_live := ss_live ss |-| {|pn_id session|}\<rparr>"

definition startPendingSession ::
  "'w session_env \<Rightarrow> Provider \<Rightarrow> sessions \<times> 'w \<Rightarrow> (ingest_error + pendingSession) \<times> sessions \<times> 'w" where
  "startPendingSession env pv = (\<lambda>(ss, w).
     let session = \<lparr>pn_id = ss_next ss, pn_provider = pv\<rparr>;
         ss = ss\<lparr>ss_live := finsert (ss_next ss) (ss_live ss), ss_next := Suc (ss_next ss)\<rparr>
     in case ns_Start env pv w of
          (Ready, w) \<Rightarrow> (Inr session, ss, w)
        | (EndedEarly err, w) \<Rightarrow> (Inl err, cancel session ss, w)
        | (ReadyTimeout, w) \<Rightarrow> (Inl ErrPendingSubscriptionTimeout, cancel session ss, w)
        | (StartCancelled e, w) \<Rightarrow> (Inl (ErrCtx e), cancel session ss, w))"

text \<open>\<open>n\<close> is the number of attempts left.\<close>

fun handoverLoop ::
  "'w session_env \<Rightarrow> Provider list \<Rightarrow> nat \<Rightarrow> pendingSession \<Rightarrow> Provider \<Rightarrow> sessions \<times> 'w \<Rightarrow>
   (pendingSession \<times> bool) \<times> sessions \<times> 'w" where
  "handoverLoop env ps 0 old pv sw = ((old, False), sw)"
| "handoverLoop env ps (Suc n) old pv (ss, w) =
     (if ns_CtxErr env w \<noteq> None then ((old, False), ss, w)
      else
        case startPendingSession env pv (ss, w) of
          (Inr nextSession, ss, w) \<Rightarrow> ((nextSession, True), cancel old ss, ns_OldDone env (pn_id old) w)
        | (Inl err, ss, w) \<Rightarrow>
            if ns_CtxErr env w \<noteq> None then ((old, False), ss, w)
            else
              (case alternateProvider ps (pv_Name pv) of
                 None \<Rightarrow> ((old, False), ss, w)
               | Some nextProvider \<Rightarrow> handoverLoop env ps n old nextProvider (ss, w)))"

definition handoverPending ::
  "'w session_env \<Rightarrow> Provider list \<Rightarrow> pendingSession \<Rightarrow> Provider \<Rightarrow> sessions \<times> 'w \<Rightarrow>
   (pendingSession \<times> bool) \<times> sessions \<times> 'w" where
  "handoverPending env ps old firstProvider sw = handoverLoop env ps (length ps) old firstProvider sw"

text \<open>
  The attempts of \<open>connectInitialPendingSession\<close> with one provider, \<open>n\<close> of them after the current
  one; \<open>Inl (err, True)\<close> is the return of the cancelled context.
\<close>

definition ctxErrOf :: "'w session_env \<Rightarrow> 'w \<Rightarrow> ingest_error" where
  "ctxErrOf env w = ErrCtx (case ns_CtxErr env w of None \<Rightarrow> [] | Some e \<Rightarrow> e)"

fun initialAttempts ::
  "'w session_env \<Rightarrow> Provider \<Rightarrow> nat \<Rightarrow> sessions \<times> 'w \<Rightarrow> (ingest_error \<times> bool + pendingSession) \<times> sessions \<times> 'w" where
  "initialAttempts env pv n (ss, w) =
     (if ns_CtxErr env w \<noteq> None then (Inl (ctxErrOf env w, True), ss, w)
      else
        case startPendingSession env pv (ss, w) of
          (Inr session, ss, w) \<Rightarrow> (Inr session, ss, w)
        | (Inl err, ss, w) \<Rightarrow>
            (case n of
               0 \<Rightarrow> (Inl (err, False), ss, w)
             | Suc k \<Rightarrow>
                 (case ns_Wait env pendingConnectRetryDelay w of
                    (False, w) \<Rightarrow> (Inl (ctxErrOf env w, True), ss, w)
                  | (True, w) \<Rightarrow> initialAttempts env pv k (ss, w))))"

declare initialAttempts.simps [simp del]

text \<open>\<open>Inl None\<close> is the return of a nil session with a nil error.\<close>

fun initialProviders ::
  "'w session_env \<Rightarrow> Provider list \<Rightarrow> ingest_error option \<Rightarrow> sessions \<times> 'w \<Rightarrow>
   (ingest_error option + pendingSession) \<times> sessions \<times> 'w" where
  "initialProviders env [] lastErr sw = (Inl lastErr, sw)"
| "initialProviders env (pv # ps) lastErr sw =
     (case initialAttempts env pv (connectRetryCount - 1) sw of
        (Inr session, sw) \<Rightarrow> (Inr session, sw)
      | (Inl (err, True), sw) \<Rightarrow> (Inl (Some err), sw)
      | (Inl (err, False), sw) \<Rightarrow> initialProviders env ps (Some err) sw)"

definition connectInitialPendingSession ::
  "'w session_env \<Rightarrow> Provider list \<Rightarrow> sessions \<times> 'w \<Rightarrow>
   (ingest_error option + pendingSession) \<times> sessions \<times> 'w" where
  "connectInitialPendingSession env ps sw = initialProviders env ps None sw"

section \<open>The pending loop\<close>

text \<open>
  The loop after a broken session; \<open>None\<close> is not returning. The flag says whether \<open>runPendingSub\<close>
  goes on.
\<close>

partial_function (option) reconnectPending ::
  "'w session_env \<Rightarrow> Provider list \<Rightarrow> pendingSession \<Rightarrow> sessions \<times> 'w \<Rightarrow> ((pendingSession \<times> bool) \<times> sessions \<times> 'w) option" where
  [code]: "reconnectPending env ps session sw =
     (case alternateProvider ps (pv_Name (pn_provider session)) of
        None \<Rightarrow> Some ((session, False), sw)
      | Some nextProvider \<Rightarrow>
          (case handoverPending env ps session nextProvider sw of
             ((nextSession, ok), ss, w) \<Rightarrow>
               if ok then Some ((nextSession, True), ss, w)
               else
                 (case ns_Wait env pendingConnectRetryDelay w of
                    (go, w) \<Rightarrow>
                      if go then reconnectPending env ps session (ss, w) else Some ((session, False), ss, w))))"

datatype pending_event = SubCtxDone | Rotation | Forced string | SwitchClosed | SessionDone | SessionChanClosed

definition switchSession ::
  "'w session_env \<Rightarrow> Provider list \<Rightarrow> pendingSession \<Rightarrow> Provider \<Rightarrow> sessions \<times> 'w \<Rightarrow> (pendingSession \<times> bool) \<times> sessions \<times> 'w" where
  "switchSession env ps session nextProvider sw =
     (case handoverPending env ps session nextProvider sw of
        ((nextSession, ok), sw) \<Rightarrow> ((if ok then nextSession else session, True), sw))"

fun pendingStep ::
  "'w session_env \<Rightarrow> Provider list \<Rightarrow> pending_event \<Rightarrow> pendingSession \<Rightarrow> sessions \<times> 'w \<Rightarrow>
   ((pendingSession \<times> bool) \<times> sessions \<times> 'w) option" where
  "pendingStep env ps SubCtxDone session (ss, w) = Some ((session, False), cancel session ss, w)"
| "pendingStep env ps SwitchClosed session (ss, w) = Some ((session, False), cancel session ss, w)"
| "pendingStep env ps SessionChanClosed session sw = Some ((session, True), sw)"
| "pendingStep env ps Rotation session sw =
     (case alternateProvider ps (pv_Name (pn_provider session)) of
        None \<Rightarrow> Some ((session, True), sw)
      | Some nextProvider \<Rightarrow> Some (switchSession env ps session nextProvider sw))"
| "pendingStep env ps (Forced name) session sw =
     (if name = pv_Name (pn_provider session) then Some ((session, True), sw)
      else
        case provider ps name of
          None \<Rightarrow> Some ((session, True), sw)
        | Some nextProvider \<Rightarrow> Some (switchSession env ps session nextProvider sw))"
| "pendingStep env ps SessionDone session sw = reconnectPending env ps session sw"

fun pendingLoop ::
  "'w session_env \<Rightarrow> Provider list \<Rightarrow> pending_event list \<Rightarrow> pendingSession \<Rightarrow> sessions \<times> 'w \<Rightarrow>
   ((pendingSession \<times> bool) \<times> sessions \<times> 'w) option" where
  "pendingLoop env ps [] session sw = Some ((session, True), sw)"
| "pendingLoop env ps (ev # evs) session sw =
     (case pendingStep env ps ev session sw of
        None \<Rightarrow> None
      | Some ((session, False), sw) \<Rightarrow> Some ((session, False), sw)
      | Some ((session, True), sw) \<Rightarrow> pendingLoop env ps evs session sw)"

text \<open>
  \<open>runPendingSub\<close> over a list of events: \<open>Inl\<close> is the return before the loop, with the subscriber after
  \<open>reportFatal\<close>. A nil session with a nil error does not occur for a non-empty list of providers
  (\<open>initial_error\<close>).
\<close>

definition runPendingSub ::
  "'w session_env \<Rightarrow> pending_event list \<Rightarrow> 'l Subscriber \<Rightarrow> sessions \<times> 'w \<Rightarrow>
   (('l Subscriber + pendingSession \<times> bool) \<times> sessions \<times> 'w) option" where
  "runPendingSub env evs s sw =
     (if sb_providers s = [] then Some (Inl (reportFatal ErrNoEthereumProviders s), sw)
      else
        case connectInitialPendingSession env (sb_providers s) sw of
          (Inl (Some err), sw) \<Rightarrow> Some (Inl (reportFatal (ErrInitialPending err) s), sw)
        | (Inl None, sw) \<Rightarrow> None
        | (Inr session, sw) \<Rightarrow>
            map_option (\<lambda>(r, sw). (Inr r, sw)) (pendingLoop env (sb_providers s) evs session sw))"

end
