(* ===== verification/Ingestion_Props.thy ===== *)
theory Ingestion_Props
  imports Ingestion
begin

text \<open>
  Correctness of the subscriber: the rotation over the providers, the watchdog and the failover of
  the header loop, the deduplication of hashes, and the pending sessions (never more than one live
  session, handover to the first provider that answers).
\<close>

section \<open>Rotation\<close>

text \<open>The providers that can be dialled.\<close>

definition usable :: "Provider list \<Rightarrow> Provider list" where
  "usable ps = filter (\<lambda>p. pv_Url p \<noteq> '''') ps"

lemma nameIndex_split:
  "pv_Name p \<notin> pv_Name ` set xs \<Longrightarrow> nameIndex (pv_Name p) (xs @ p # ys) = Some (length xs)"
  by (induction xs) auto

lemma cyclic_rotate:
  assumes "ps \<noteq> []"
  shows "map (\<lambda>i. ps ! ((k + i) mod length ps)) [1 ..< Suc (length ps)] = rotate (Suc k) ps"
proof (rule nth_equalityI)
  show "length (map (\<lambda>i. ps ! ((k + i) mod length ps)) [1 ..< Suc (length ps)]) = length (rotate (Suc k) ps)"
    by (simp del: upt_Suc)
next
  fix i assume "i < length (map (\<lambda>i. ps ! ((k + i) mod length ps)) [1 ..< Suc (length ps)])"
  then have "i < length ps" by (simp del: upt_Suc)
  then show "map (\<lambda>i. ps ! ((k + i) mod length ps)) [1 ..< Suc (length ps)] ! i = rotate (Suc k) ps ! i"
    using assms nth_rotate [of i ps "Suc k"] by (simp add: add_ac del: rotate_Suc upt_Suc)
qed

lemma find_filter: "List.find P xs = (case filter P xs of [] \<Rightarrow> None | x # _ \<Rightarrow> Some x)"
  by (induction xs) auto

lemma filter_other_names:
  "pv_Name p \<notin> pv_Name ` set zs \<Longrightarrow>
    filter (\<lambda>q. \<not> (pv_Name q = pv_Name p \<or> pv_Url q = '''')) zs = usable zs"
  unfolding usable_def by (rule filter_cong, simp) (metis image_eqI)

lemma alternate_split:
  assumes "distinct (map pv_Name (xs @ p # ys))"
  shows "alternateProvider (xs @ p # ys) (pv_Name p) =
    (case usable (ys @ xs) of [] \<Rightarrow> None | q # _ \<Rightarrow> Some q)"
proof -
  let ?ps = "xs @ p # ys"
  have nm: "pv_Name p \<notin> pv_Name ` set xs" "pv_Name p \<notin> pv_Name ` set (ys @ xs)" using assms by auto
  have "rotate (Suc (length xs)) ?ps = ys @ xs @ [p]"
    using rotate_append [of "xs @ [p]" ys] by simp
  then have "alternateProvider ?ps (pv_Name p) =
      List.find (\<lambda>q. \<not> (pv_Name q = pv_Name p \<or> pv_Url q = '''')) ((ys @ xs) @ [p])"
    using cyclic_rotate [of ?ps "length xs"] nameIndex_split [OF nm(1), of ys]
    by (simp add: alternateProvider_def Let_def del: rotate_Suc upt_Suc)
  moreover have "filter (\<lambda>q. \<not> (pv_Name q = pv_Name p \<or> pv_Url q = [])) ((ys @ xs) @ [p]) = usable (ys @ xs)"
    unfolding filter_append [of _ "ys @ xs"] filter_other_names [OF nm(2)] by simp
  ultimately show ?thesis unfolding find_filter by simp
qed

text \<open>
  With distinct names the provider after a usable one is the next usable one in cyclic order, and
  there is none exactly when no other is usable.
\<close>

lemma alternate_cyclic:
  assumes "distinct (map pv_Name ps)" "i < length (usable ps)"
  shows "alternateProvider ps (pv_Name (usable ps ! i)) =
    (if length (usable ps) = 1 then None else Some (usable ps ! (Suc i mod length (usable ps))))"
proof -
  define p where "p = usable ps ! i"
  have "p \<in> set (usable ps)" unfolding p_def using assms(2) by (rule nth_mem)
  then have p: "p \<in> set ps" "pv_Url p \<noteq> []" by (simp_all add: usable_def)
  from split_list [OF p(1)] obtain xs ys where ps: "ps = xs @ p # ys" by blast
  have u: "usable ps = usable xs @ p # usable ys" using p(2) by (simp add: ps usable_def)
  have "distinct (usable ps)" using assms(1) by (auto simp: usable_def distinct_map)
  moreover have "usable ps ! length (usable xs) = usable ps ! i" using p_def u nth_append_length by metis
  moreover have "length (usable xs) < length (usable ps)" unfolding u by simp
  ultimately have i: "i = length (usable xs)" using assms(2) nth_eq_iff_index_eq by metis
  have a: "alternateProvider ps (pv_Name p) = (case usable ys @ usable xs of [] \<Rightarrow> None | q # _ \<Rightarrow> Some q)"
    using alternate_split [of xs p ys] assms(1) by (simp add: ps usable_def)
  have "alternateProvider ps (pv_Name p) =
      (if length (usable ps) = 1 then None else Some (usable ps ! (Suc i mod length (usable ps))))"
    unfolding a u i by (cases "usable ys"; cases "usable xs") (auto simp: nth_append)
  then show ?thesis by (simp only: p_def)
qed

section \<open>The header stream\<close>

text \<open>The time of the last header of a list of events.\<close>

fun last_header :: "Time \<Rightarrow> header_event list \<Rightarrow> Time" where
  "last_header t [] = t"
| "last_header t (HHeader (Some h) now # evs) = last_header now evs"
| "last_header t (_ # evs) = last_header t evs"

text \<open>The headers that a list of events delivers.\<close>

fun delivered :: "header_event list \<Rightarrow> Header list" where
  "delivered [] = []"
| "delivered (HHeader (Some h) now # evs) = h # delivered evs"
| "delivered (_ # evs) = delivered evs"

text \<open>The events that end a stream whose last header came at the given time.\<close>

fun ends_stream :: "Time \<Rightarrow> Time \<Rightarrow> header_event \<Rightarrow> bool" where
  "ends_stream timeout t (HHeader h now) = False"
| "ends_stream timeout t (HTick now) = (timeout \<le> now - t)"
| "ends_stream timeout t _ = True"

lemma last_header_Cons: "last_header t (ev # evs) = last_header (last_header t [ev]) evs"
proof (cases ev)
  case (HHeader h now)
  then show ?thesis by (cases h) simp_all
qed simp_all

text \<open>A stream stops at the first event that ends it, and has pushed the headers before.\<close>

definition stream_spec ::
  "Time \<Rightarrow> (Header option \<Rightarrow> 's \<Rightarrow> 's) \<Rightarrow> header_event list \<Rightarrow> Time \<Rightarrow> 's \<Rightarrow> ingest_error option \<Rightarrow> 's \<Rightarrow> nat \<Rightarrow> bool" where
  "stream_spec timeout push evs t s res s' n \<longleftrightarrow>
     n \<le> length evs \<and> (\<forall>i < n. \<not> ends_stream timeout (last_header t (take i evs)) (evs ! i)) \<and>
     s' = fold (\<lambda>h. push (Some h)) (delivered (take n evs)) s \<and>
     (if n = length evs then res = None
      else res \<noteq> None \<and> ends_stream timeout (last_header t (take n evs)) (evs ! n))"

lemma stream_spec_stop: "ends_stream timeout t ev \<Longrightarrow> stream_spec timeout push (ev # evs) t s (Some e) s 0"
  by (simp add: stream_spec_def)

lemma stream_spec_Suc:
  assumes "\<not> ends_stream timeout t ev" "stream_spec timeout push evs (last_header t [ev]) (fold (\<lambda>h. push (Some h)) (delivered [ev]) s) res s' n"
  shows "stream_spec timeout push (ev # evs) t s res s' (Suc n)"
proof -
  define t' where "t' = last_header t [ev]"
  define hs where "hs = delivered [ev]"
  have l: "last_header t (ev # xs) = last_header t' xs" for xs
    unfolding t'_def by (rule last_header_Cons)
  have d: "delivered (ev # xs) = hs @ delivered xs" for xs
  proof (cases ev)
    case (HHeader h now)
    then show ?thesis unfolding hs_def by (cases h) simp_all
  qed (simp_all add: hs_def)
  from assms(2) have sp: "stream_spec timeout push evs t' (fold (\<lambda>h. push (Some h)) hs s) res s' n"
    by (simp add: t'_def hs_def)
  have "\<not> ends_stream timeout (last_header t (take i (ev # evs))) ((ev # evs) ! i)" if "i < Suc n" for i
    using assms(1) sp that by (cases i) (simp_all add: stream_spec_def l)
  with sp show ?thesis unfolding stream_spec_def by (auto simp: l d simp del: delivered.simps last_header.simps)
qed

lemma consume_spec:
  "\<exists>n. stream_spec timeout push evs t s (fst (consumeHeaderStream pv timeout push evs t s))
     (snd (consumeHeaderStream pv timeout push evs t s)) n"
proof (induction evs arbitrary: t s)
  case Nil
  show ?case by (simp add: stream_spec_def)
next
  case (Cons ev evs)
  show ?case
  proof (cases "ends_stream timeout t ev")
    case True
    have "\<exists>e. consumeHeaderStream pv timeout push (ev # evs) t s = (Some e, s)"
      using True by (cases ev) (auto split: option.splits)
    then show ?thesis using stream_spec_stop [OF True] by fastforce
  next
    case False
    then have "consumeHeaderStream pv timeout push (ev # evs) t s =
        consumeHeaderStream pv timeout push evs (last_header t [ev]) (fold (\<lambda>h. push (Some h)) (delivered [ev]) s)"
    proof (cases ev)
      case (HHeader h now)
      then show ?thesis by (cases h) simp_all
    qed simp_all
    then show ?thesis using stream_spec_Suc [OF False] Cons.IH by metis
  qed
qed

text \<open>
  C28. The watchdog of the header stream. The stream ends at the first closed channel, error, cancelled
  context or tick of the watchdog that comes 30 seconds or more after the last header (or the start);
  the coordinator has then received every header before that event, each once and in order, and
  no other. While the stream runs, no tick has seen 30 seconds without a header.
\<close>

theorem header_stream_watchdog:
  "\<exists>n \<le> length evs. (\<forall>i < n. \<not> ends_stream headerTimeout (last_header t0 (take i evs)) (evs ! i)) \<and>
     snd (consumeHeaderStream pv headerTimeout PushHeader evs t0 coor) =
       fold (\<lambda>h. PushHeader (Some h)) (delivered (take n evs)) coor \<and>
     (if n = length evs then fst (consumeHeaderStream pv headerTimeout PushHeader evs t0 coor) = None
      else fst (consumeHeaderStream pv headerTimeout PushHeader evs t0 coor) \<noteq> None \<and>
        ends_stream headerTimeout (last_header t0 (take n evs)) (evs ! n)) \<and>
     (\<forall>i < n. \<forall>now. evs ! i = HTick now \<longrightarrow> now < last_header t0 (take i evs) + 30 * 1000000000)"
proof -
  from consume_spec [of headerTimeout PushHeader evs t0 coor pv] obtain n where
    n: "stream_spec headerTimeout PushHeader evs t0 coor (fst (consumeHeaderStream pv headerTimeout PushHeader evs t0 coor))
      (snd (consumeHeaderStream pv headerTimeout PushHeader evs t0 coor)) n" by blast
  then have "\<forall>i < n. \<forall>now. evs ! i = HTick now \<longrightarrow> now < last_header t0 (take i evs) + 30 * 1000000000"
    by (fastforce simp: stream_spec_def headerTimeout_def)
  with n show ?thesis unfolding stream_spec_def by blast
qed

theorem header_stream_watchdog_witness:
  "\<exists>n \<le> length [HHeader (Some (sample_header (Some 7))) 5000000000, HTick 10000000000, HTick 40000000000].
     snd (consumeHeaderStream \<lparr>pv_Name = ''alchemy'', pv_Url = ''ws''\<rparr> headerTimeout PushHeader
       [HHeader (Some (sample_header (Some 7))) 5000000000, HTick 10000000000, HTick 40000000000] 0 (NewCoordinator 10)) =
     fold (\<lambda>h. PushHeader (Some h))
       (delivered (take n [HHeader (Some (sample_header (Some 7))) 5000000000, HTick 10000000000, HTick 40000000000]))
       (NewCoordinator 10)"
  using header_stream_watchdog [of "[HHeader (Some (sample_header (Some 7))) 5000000000, HTick 10000000000, HTick 40000000000]"
      0 "\<lparr>pv_Name = ''alchemy'', pv_Url = ''ws''\<rparr>" "NewCoordinator 10"]
  by blast

section \<open>Failover of the header loop\<close>

lemma usable_nth:
  assumes "i < length (usable ps)"
  shows "usable ps ! i \<in> set ps" "pv_Url (usable ps ! i) \<noteq> ''''"
  using nth_mem [OF assms] by (auto simp: usable_def)

lemma provider_named:
  assumes "distinct (map pv_Name ps)" "p \<in> set ps" "pv_Url p \<noteq> ''''"
  shows "provider ps (pv_Name p) = Some p"
proof -
  from assms(2) obtain xs ys where ps: "ps = xs @ p # ys" by (meson split_list)
  have "filter (\<lambda>q. pv_Name q = pv_Name p) xs = []"
    using assms(1) unfolding ps by (auto simp: filter_empty_conv image_iff)
  then show ?thesis using assms(3) by (simp add: provider_def find_filter ps)
qed

text \<open>The context lives, and every stream that is opened ends.\<close>

definition restless :: "'w ingest_env \<Rightarrow> 'l Subscriber \<Rightarrow> bool" where
  "restless env s0 \<longleftrightarrow>
     (\<forall>w. ie_CtxErr env w = None) \<and> (\<forall>d w. fst (ie_Wait env d w)) \<and>
     (\<forall>pv s w. pv \<in> set (sb_providers s0) \<longrightarrow> fst (connectHeadAndStream env pv (s :: 'l Subscriber, w)) \<noteq> None)"

lemma connect_fields:
  assumes "connectHeadAndStream env pv (s, w) = (res, s', w')"
  shows "sb_providers s' = sb_providers s" "sb_errChan s' = sb_errChan s" "sb_pendingSwitch s' = sb_pendingSwitch s"
  using assms by (auto simp: connectHeadAndStream_def split: prod.splits option.splits)

lemma headerRound_failed:
  assumes "restless env s" "distinct (map pv_Name (sb_providers s))" "\<forall>p \<in> set (sb_providers s). pv_Name p \<noteq> ''''"
    and i: "i < length (usable (sb_providers s))"
  shows "\<exists>s' w'. headerRound env (pv_Name (usable (sb_providers s) ! i)) (s, w) =
      (NextRound (pv_Name (usable (sb_providers s) ! (Suc i mod length (usable (sb_providers s))))), s', w') \<and>
    sb_providers s' = sb_providers s \<and> sb_errChan s' = sb_errChan s \<and>
    sb_pendingSwitch s' = (if length (usable (sb_providers s)) = 1 then sb_pendingSwitch s
      else snd (chan_try_send (pv_Name (usable (sb_providers s) ! (Suc i mod length (usable (sb_providers s))))) (sb_pendingSwitch s)))"
proof -
  define us where "us = usable (sb_providers s)"
  define p where "p = us ! i"
  have p: "p \<in> set (sb_providers s)" "pv_Url p \<noteq> ''''" using usable_nth [OF i] by (simp_all add: p_def us_def)
  have pr: "provider (sb_providers s) (pv_Name p) = Some p" using provider_named assms(2) p by blast
  have nm: "pv_Name p \<noteq> ''''" using assms(3) p(1) by blast
  have alt: "alternateProvider (sb_providers s) (pv_Name p) =
      (if length us = 1 then None else Some (us ! (Suc i mod length us)))"
    using alternate_cyclic [OF assms(2) i] by (simp add: p_def us_def)
  obtain res s1 w1 where c: "connectHeadAndStream env p (s, w) = (res, s1, w1)" using prod_cases3 by blast
  with assms(1) p(1) obtain err where res: "res = Some err" unfolding restless_def by (metis fst_conv not_None_eq)
  obtain go w2 where wt: "ie_Wait env headerConnectRetryDelay w1 = (go, w2)" by fastforce
  with assms(1) have go unfolding restless_def by (metis fst_conv)
  have ctx: "ie_CtxErr env v = None" for v using assms(1) by (simp add: restless_def)
  have one: "us ! i = us ! (Suc i mod length us)" if "length us = 1" using that i by (simp add: us_def)
  show ?thesis
    unfolding us_def [symmetric] p_def [symmetric]
    using c res wt \<open>go\<close> ctx pr nm alt connect_fields [OF c] one
    by (auto simp: headerRound_def notifyPendingSwitch_def p_def)
qed

text \<open>The names of the next \<open>n\<close> usable providers after number \<open>i\<close>.\<close>

definition next_names :: "Provider list \<Rightarrow> nat \<Rightarrow> nat \<Rightarrow> string list" where
  "next_names us i n = map (\<lambda>k. pv_Name (us ! ((i + k) mod length us))) [1 ..< Suc n]"

lemma next_names_Suc:
  "us \<noteq> [] \<Longrightarrow> next_names us i (Suc n) = pv_Name (us ! (Suc i mod length us)) # next_names us (Suc i mod length us) n"
proof -
  assume "us \<noteq> []"
  have "[1 ..< Suc (Suc n)] = 1 # map Suc [1 ..< Suc n]"
    by (simp only: map_Suc_upt upt_conv_Cons One_nat_def Suc_less_eq zero_less_Suc)
  moreover have "(i + Suc k) mod length us = (Suc i mod length us + k) mod length us" for k
    by (simp add: mod_simps)
  ultimately show ?thesis unfolding next_names_def by (simp only: list.map map_map comp_def) (simp add: mod_simps)
qed

lemma headerRounds_failed:
  assumes "restless env s" "distinct (map pv_Name (sb_providers s))" "\<forall>p \<in> set (sb_providers s). pv_Name p \<noteq> ''''"
    and "i < length (usable (sb_providers s))"
  shows "\<exists>s' w'. headerRounds env n (pv_Name (usable (sb_providers s) ! i)) (s, w) =
      (NextRound (pv_Name (usable (sb_providers s) ! ((i + n) mod length (usable (sb_providers s))))), s', w') \<and>
    sb_errChan s' = sb_errChan s \<and>
    sb_pendingSwitch s' = (if length (usable (sb_providers s)) = 1 then sb_pendingSwitch s
      else fold (\<lambda>name ch. snd (chan_try_send name ch)) (next_names (usable (sb_providers s)) i n) (sb_pendingSwitch s))"
  using assms
proof (induction n arbitrary: i s w)
  case 0
  then show ?case by (simp add: next_names_def)
next
  case (Suc n)
  let ?us = "usable (sb_providers s)" and ?j = "Suc i mod length (usable (sb_providers s))"
  have ne: "?us \<noteq> []" using Suc.prems(4) by auto
  then have j: "?j < length ?us" by simp
  from headerRound_failed [OF Suc.prems, of w] obtain s1 w1 where
    1: "headerRound env (pv_Name (?us ! i)) (s, w) = (NextRound (pv_Name (?us ! ?j)), s1, w1)"
    "sb_providers s1 = sb_providers s" "sb_errChan s1 = sb_errChan s"
    "sb_pendingSwitch s1 = (if length ?us = 1 then sb_pendingSwitch s else snd (chan_try_send (pv_Name (?us ! ?j)) (sb_pendingSwitch s)))"
    by blast
  have r1: "restless env s1" using Suc.prems(1) 1(2) by (simp add: restless_def)
  from Suc.IH [OF r1, of ?j w1] Suc.prems 1(2) j obtain s2 w2 where
    2: "headerRounds env n (pv_Name (?us ! ?j)) (s1, w1) = (NextRound (pv_Name (?us ! ((?j + n) mod length ?us))), s2, w2)"
    "sb_errChan s2 = sb_errChan s1"
    "sb_pendingSwitch s2 = (if length ?us = 1 then sb_pendingSwitch s1
      else fold (\<lambda>name ch. snd (chan_try_send name ch)) (next_names ?us ?j n) (sb_pendingSwitch s1))"
    by auto
  have "(?j + n) mod length ?us = (i + Suc n) mod length ?us" by (simp add: mod_simps)
  with 1 2 next_names_Suc [OF ne, of i n] show ?case by auto
qed


definition sample_subscriber :: "unit Subscriber" where
  "sample_subscriber =
     \<lparr>sb_coor = NewCoordinator 10, sb_dedup = None,
      sb_providers = [\<lparr>pv_Name = ''alchemy'', pv_Url = ''wss://a''\<rparr>, \<lparr>pv_Name = ''chainstack'', pv_Url = ''wss://c''\<rparr>],
      sb_pendingSwitch = make_chan 4, sb_errChan = make_chan 1\<rparr>"

text \<open>A network where no provider can be dialled.\<close>

definition dead_network :: "unit ingest_env" where
  "dead_network =
     \<lparr>ie_CtxErr = (\<lambda>_. None), ie_Dial = (\<lambda>_ w. (Some ''refused'', w)), ie_Subscribe = (\<lambda>_ w. (None, w)),
      ie_Headers = (\<lambda>_ w. ((0, []), w)), ie_Wait = (\<lambda>_ w. (True, w))\<rparr>"


section \<open>Deduplication\<close>

text \<open>
  What the LRU cache promises, over the set of its keys: a new one is empty, a lookup finds exactly the
  keys and keeps them, and adding below the capacity evicts nothing.
\<close>

definition lru_law :: "'l lru_env \<Rightarrow> ('l \<Rightarrow> string set) \<Rightarrow> bool" where
  "lru_law lru keys \<longleftrightarrow>
     (\<forall>c. lru_New lru txDedupCasheSize = Inr c \<longrightarrow> keys c = {}) \<and>
     (\<forall>k c. fst (lru_Get lru k c) = (k \<in> keys c) \<and> keys (snd (lru_Get lru k c)) = keys c) \<and>
     (\<forall>k c. finite (keys c) \<longrightarrow> card (keys c) < 10000 \<longrightarrow> keys (lru_Add lru k c) = insert k (keys c))"

lemma lru_lawD:
  assumes "lru_law lru keys"
  shows "lru_New lru txDedupCasheSize = Inr c \<Longrightarrow> keys c = {}"
    and "fst (lru_Get lru k c) = (k \<in> keys c)" "keys (snd (lru_Get lru k c)) = keys c"
    and "finite (keys c) \<Longrightarrow> card (keys c) < 10000 \<Longrightarrow> keys (lru_Add lru k c) = insert k (keys c)"
  using assms unfolding lru_law_def by blast+

lemma Seen_keys:
  assumes "lru_law lru keys" "finite (keys c)" "k \<in> keys c \<or> card (keys c) < 10000"
  shows "fst (Seen lru k c) = (k \<in> keys c)" "keys (snd (Seen lru k c)) = insert k (keys c)"
proof -
  obtain b c1 where g: "lru_Get lru k c = (b, c1)" by fastforce
  have "b = (k \<in> keys c)" "keys c1 = keys c" using lru_lawD(2, 3) [OF assms(1), of k c] g by simp_all
  with g assms lru_lawD(4) [OF assms(1), of c1 k]
  show "fst (Seen lru k c) = (k \<in> keys c)" "keys (snd (Seen lru k c)) = insert k (keys c)"
    by (auto simp: Seen_def split: bool.splits)
qed

lemma consumePending_hashes: "consumePending lru hex (map PHash hs) ms = (None, fold (onHash lru hex) hs ms)"
  by (induction hs arbitrary: ms) simp_all

lemma onHash_zero: "onHash lru hex 0 ms = ms"
  by (cases ms) (simp add: onHash_def)

lemma onHash_seen:
  assumes "h \<noteq> 0" "sb_dedup s = Some c" "Seen lru (hex h) c = (b, c')"
  shows "onHash lru hex h (m, s) = (IncPendginRecieved m,
    if b then s\<lparr>sb_dedup := Some c'\<rparr> else s\<lparr>sb_dedup := Some c', sb_coor := PushTxHash h (sb_coor s)\<rparr>)"
  using assms by (simp add: onHash_def)

text \<open>A session that was not ready has announced nothing; it ends with an error.\<close>

lemma connectPending_not_ready:
  assumes "connectPendingAndStream lru hex env hashes pv (ms, w) = ((False, res), ms', w')"
  shows "ms' = ms \<and> res \<noteq> None"
  using assms by (auto simp: connectPendingAndStream_def split: prod.splits option.splits)

lemma connectPending_ready:
  assumes "connectPendingAndStream lru hex env hashes pv (ms, w) = ((True, res), ms', w')"
  obtains evs where "consumePending lru hex evs ms = (res, ms')"
  using assms by (auto simp: connectPendingAndStream_def split: prod.splits option.splits)

text \<open>The list of first occurrences.\<close>

definition firsts :: "'a list \<Rightarrow> 'a list" where
  "firsts xs = rev (remdups (rev xs))"

lemma firsts_snoc: "firsts (xs @ [x]) = (if x \<in> set xs then firsts xs else firsts xs @ [x])"
  by (simp add: firsts_def)

lemma dedup_run:
  assumes "lru_law lru keys" "inj hex" "sb_dedup s = Some c" "keys c = {}"
    and "card (set hs - {0}) \<le> 10000"
  shows "\<exists>m' c'. fold (onHash lru hex) hs (m, s) =
      (m', s\<lparr>sb_dedup := Some c', sb_coor := fold PushTxHash (firsts (filter (\<lambda>h. h \<noteq> 0) hs)) (sb_coor s)\<rparr>) \<and>
    ct_PendingTx m' = ct_PendingTx m + of_nat (length (filter (\<lambda>h. h \<noteq> 0) hs)) \<and>
    keys c' = hex ` (set hs - {0})"
  using assms(5)
proof (induction hs rule: rev_induct)
  case Nil
  have "s = s\<lparr>sb_dedup := Some c\<rparr>" using assms(3) by simp
  then show ?case using assms(3, 4) by (intro exI [of _ m] exI [of _ c]) (simp add: firsts_def)
next
  case (snoc h hs)
  have le: "card (set hs - {0}) \<le> card (set (hs @ [h]) - {0})" by (rule card_mono) auto
  with snoc obtain m1 c1 where
    1: "fold (onHash lru hex) hs (m, s) =
      (m1, s\<lparr>sb_dedup := Some c1, sb_coor := fold PushTxHash (firsts (filter (\<lambda>h. h \<noteq> 0) hs)) (sb_coor s)\<rparr>)"
    "ct_PendingTx m1 = ct_PendingTx m + of_nat (length (filter (\<lambda>h. h \<noteq> 0) hs))" "keys c1 = hex ` (set hs - {0})"
    by auto
  show ?case
  proof (cases "h = 0")
    case True
    with 1 show ?thesis by (intro exI [of _ m1] exI [of _ c1]) (simp add: onHash_zero)
  next
    case False
    have mem: "hex h \<in> keys c1 \<longleftrightarrow> h \<in> set hs" using 1(3) False assms(2) by (auto simp: inj_image_mem_iff)
    have "card (keys c1) < 10000" if "h \<notin> set hs"
    proof -
      have "set (hs @ [h]) - {0} = insert h (set hs - {0})" using False by auto
      then have "card (set (hs @ [h]) - {0}) = Suc (card (set hs - {0}))" using that by simp
      moreover have "card (keys c1) = card (set hs - {0})"
        unfolding 1(3) using assms(2) by (intro card_image) (simp add: inj_on_def)
      ultimately show ?thesis using snoc.prems by simp
    qed
    then have sk: "fst (Seen lru (hex h) c1) = (h \<in> set hs)" "keys (snd (Seen lru (hex h) c1)) = insert (hex h) (keys c1)"
      using Seen_keys [OF assms(1), of c1 "hex h"] 1(3) mem by auto
    obtain b c2 where seen: "Seen lru (hex h) c1 = (b, c2)" by fastforce
    have "b = (h \<in> set hs)" "keys c2 = hex ` (set (hs @ [h]) - {0})" using sk seen False 1(3) by auto
    moreover have "fold (onHash lru hex) (hs @ [h]) (m, s) = (IncPendginRecieved m1,
        s\<lparr>sb_dedup := Some c2, sb_coor := fold PushTxHash (firsts (filter (\<lambda>h. h \<noteq> 0) (hs @ [h]))) (sb_coor s)\<rparr>)"
      using calculation(1) False by (simp add: 1(1) onHash_seen [where h = h and lru = lru and hex = hex and c = c1 and b = b and c' = c2] seen firsts_snoc)
    ultimately show ?thesis using 1(2) False by (auto simp: IncPendginRecieved_def)
  qed
qed

text \<open>
  C29. Every pending hash once. As long as at most 10000 different hashes were announced, the pending
  stream hands exactly the different hashes to the coordinator, each once, in the order of their first
  announcement; a zero hash is ignored, and every other announcement is counted.
\<close>

theorem pending_stream_dedup:
  assumes "lru_law lru keys" "inj hex" "NewSubscriber lru providers coor = Inr s"
    and "card (set hs - {0}) \<le> 10000"
  shows "\<exists>m' s'. consumePending lru hex (map PHash hs) (m, s) = (None, m', s') \<and>
    sb_coor s' = fold PushTxHash (rev (remdups (rev (filter (\<lambda>h. h \<noteq> 0) hs)))) coor \<and>
    ct_PendingTx m' = ct_PendingTx m + of_nat (length (filter (\<lambda>h. h \<noteq> 0) hs))"
proof -
  from assms(3) obtain c where c: "sb_dedup s = Some c" "lru_New lru txDedupCasheSize = Inr c" "sb_coor s = coor"
    by (auto simp: NewSubscriber_def NewCache_def split: sum.splits)
  from dedup_run [OF assms(1, 2) c(1) lru_lawD(1) [OF assms(1) c(2)] assms(4), of m] c(3) show ?thesis
    by (auto simp: consumePending_hashes firsts_def)
qed

text \<open>A cache as the list of its keys, newest first.\<close>

definition list_lru :: "string list lru_env" where
  "list_lru =
     \<lparr>lru_New = (\<lambda>_. Inr []), lru_Get = (\<lambda>k c. (k \<in> set c, c)), lru_Add = (\<lambda>k c. k # c)\<rparr>"

definition unary_hex :: "Hash \<Rightarrow> string" where
  "unary_hex h = replicate (unat h) CHR ''x''"

lemma list_lru_law: "lru_law list_lru set"
  by (auto simp: lru_law_def list_lru_def)

lemma inj_unary_hex: "inj unary_hex"
proof (rule injI)
  fix x y assume "unary_hex x = unary_hex y"
  then have "length (unary_hex x) = length (unary_hex y)" by simp
  then have "unat x = unat y" by (simp add: unary_hex_def)
  then show "x = y" by (rule word_unat_eq_iff [THEN iffD2])
qed

theorem pending_stream_dedup_witness:
  "\<exists>s'. snd (snd (consumePending list_lru unary_hex (map PHash [5, 0, 6, 5])
       (zero_Count, \<lparr>sb_coor = NewCoordinator 10, sb_dedup = Some [], sb_providers = [],
          sb_pendingSwitch = make_chan 4, sb_errChan = make_chan 1\<rparr>))) = s' \<and>
     sb_coor s' = PushTxHash 6 (PushTxHash 5 (NewCoordinator 10))"
proof -
  have new: "NewSubscriber list_lru [] (NewCoordinator 10) =
      Inr \<lparr>sb_coor = NewCoordinator 10, sb_dedup = Some [], sb_providers = [], sb_pendingSwitch = make_chan 4,
           sb_errChan = make_chan 1\<rparr>"
    by (simp add: NewSubscriber_def NewCache_def list_lru_def)
  have "card (set [5, 0, 6, 5 :: Hash] - {0}) \<le> card (set [5, 0, 6, 5 :: Hash])" by (rule card_mono) auto
  also have "\<dots> \<le> 10000" using card_length [of "[5, 0, 6, 5 :: Hash]"] by simp
  finally have small: "card (set [5, 0, 6, 5 :: Hash] - {0}) \<le> 10000" .
  have f: "rev (remdups (rev (filter (\<lambda>h. h \<noteq> 0) [5, 0, 6, 5 :: Hash]))) = [5, 6]" by simp
  from pending_stream_dedup [OF list_lru_law inj_unary_hex new small, of zero_Count] show ?thesis
    unfolding f by auto
qed

end
