(* ===== verification/Ingestion_Sessions.thy ===== *)
theory Ingestion_Sessions
  imports Ingestion_Props
begin

text \<open>
  The pending sessions: between the steps of \<open>runPendingSub\<close> exactly the current session is live, a
  failed handover keeps it, and a broken one is replaced as soon as a provider answers.
\<close>

section \<open>Live sessions\<close>

definition fresh_ok :: "sessions \<Rightarrow> bool" where
  "fresh_ok ss \<longleftrightarrow> (\<forall>i. i |\<in>| ss_live ss \<longrightarrow> i < ss_next ss)"

definition sess_ok :: "pendingSession \<Rightarrow> sessions \<Rightarrow> bool" where
  "sess_ok session ss \<longleftrightarrow> ss_live ss = {|pn_id session|} \<and> pn_id session < ss_next ss"

lemma sess_ok_fresh: "sess_ok session ss \<Longrightarrow> fresh_ok ss"
  by (simp add: sess_ok_def fresh_ok_def)

lemma startPendingSession_eq:
  assumes "fresh_ok ss" "ns_Start env pv w = (out, w1)"
  shows "startPendingSession env pv (ss, w) = (case out of
      Ready \<Rightarrow> (Inr \<lparr>pn_id = ss_next ss, pn_provider = pv\<rparr>,
        ss\<lparr>ss_live := finsert (ss_next ss) (ss_live ss), ss_next := Suc (ss_next ss)\<rparr>, w1)
    | EndedEarly err \<Rightarrow> (Inl err, ss\<lparr>ss_next := Suc (ss_next ss)\<rparr>, w1)
    | ReadyTimeout \<Rightarrow> (Inl ErrPendingSubscriptionTimeout, ss\<lparr>ss_next := Suc (ss_next ss)\<rparr>, w1)
    | StartCancelled e \<Rightarrow> (Inl (ErrCtx e), ss\<lparr>ss_next := Suc (ss_next ss)\<rparr>, w1))"
proof -
  have "ss_next ss |\<notin>| ss_live ss" using assms(1) by (auto simp: fresh_ok_def)
  then have live: "finsert (ss_next ss) (ss_live ss) |-| {|ss_next ss|} = ss_live ss" by auto
  have drop: "ss\<lparr>ss_live := ss_live ss, ss_next := n\<rparr> = ss\<lparr>ss_next := n\<rparr>" for n by simp
  show ?thesis
    using assms(2) by (cases out) (simp_all add: startPendingSession_def cancel_def Let_def live drop)
qed

lemma startPendingSession_ok:
  assumes "startPendingSession env pv (ss, w) = (res, ss', w')" "fresh_ok ss"
  shows "ss_next ss' = Suc (ss_next ss)"
    and "res = Inr session \<Longrightarrow> session = \<lparr>pn_id = ss_next ss, pn_provider = pv\<rparr> \<and>
      ss_live ss' = finsert (ss_next ss) (ss_live ss)"
    and "res = Inl err \<Longrightarrow> ss_live ss' = ss_live ss"
proof -
  obtain out w1 where out: "ns_Start env pv w = (out, w1)" by fastforce
  note eq = startPendingSession_eq [OF assms(2) out]
  show "ss_next ss' = Suc (ss_next ss)" using assms(1) eq by (cases out) auto
  show "session = \<lparr>pn_id = ss_next ss, pn_provider = pv\<rparr> \<and> ss_live ss' = finsert (ss_next ss) (ss_live ss)"
    if "res = Inr session" using that assms(1) eq by (cases out) auto
  show "ss_live ss' = ss_live ss" if "res = Inl err" using that assms(1) eq by (cases out) auto
qed

lemma start_failed_ok:
  assumes "startPendingSession env pv (ss, w) = (Inl err, ss', w')" "sess_ok session ss"
  shows "sess_ok session ss'"
  using startPendingSession_ok(1, 3) [OF assms(1) sess_ok_fresh [OF assms(2)]] assms(2) by (auto simp: sess_ok_def)

lemma start_ready_ok:
  assumes "startPendingSession env pv (ss, w) = (Inr new, ss', w')" "sess_ok old ss"
  shows "sess_ok new (cancel old ss')" "pn_provider new = pv"
proof -
  have "ss_next ss \<noteq> pn_id old" using assms(2) by (simp add: sess_ok_def)
  then have "finsert (ss_next ss) {|pn_id old|} |-| {|pn_id old|} = {|ss_next ss|}" by auto
  with startPendingSession_ok(1, 2) [OF assms(1) sess_ok_fresh [OF assms(2)]] assms(2)
  show "sess_ok new (cancel old ss')" "pn_provider new = pv" by (auto simp: sess_ok_def cancel_def)
qed

text \<open>A handover ends with exactly one live session: the new one, or the old one when it fails.\<close>

lemma handoverLoop_ok:
  assumes "handoverLoop env ps n old pv (ss, w) = ((session, ok), ss', w')" "sess_ok old ss"
  shows "sess_ok session ss' \<and> (\<not> ok \<longrightarrow> session = old)"
  using assms
proof (induction n arbitrary: pv ss w)
  case (Suc n)
  obtain res ss1 w1 where st: "startPendingSession env pv (ss, w) = (res, ss1, w1)" using prod_cases3 by blast
  show ?case
  proof (cases "ns_CtxErr env w = None")
    case True
    show ?thesis
    proof (cases res)
      case (Inl err)
      have ok1: "sess_ok old ss1" using start_failed_ok [OF st [unfolded Inl] Suc.prems(2)] .
      show ?thesis
      proof (cases "ns_CtxErr env w1 = None \<and> alternateProvider ps (pv_Name pv) \<noteq> None")
        case True
        then obtain q where q: "alternateProvider ps (pv_Name pv) = Some q" by blast
        from Suc.prems(1) st Inl True q \<open>ns_CtxErr env w = None\<close>
        have "handoverLoop env ps n old q (ss1, w1) = ((session, ok), ss', w')" by simp
        from Suc.IH [OF this ok1] show ?thesis .
      next
        case False
        with Suc.prems(1) st Inl \<open>ns_CtxErr env w = None\<close> ok1 show ?thesis by (auto split: if_splits option.splits)
      qed
    next
      case (Inr new)
      with Suc.prems st True start_ready_ok [of env pv ss w new ss1 w1 old] show ?thesis by auto
    qed
  next
    case False
    with Suc.prems show ?thesis by auto
  qed
qed simp

lemma reconnectPending_rounds [consumes 1, case_names none handover cancelled again]:
  assumes run: "reconnectPending env ps session sw = Some r"
    and none: "\<And>sw. alternateProvider ps (pv_Name (pn_provider session)) = None \<Longrightarrow> P sw ((session, False), sw)"
    and handover: "\<And>sw pv new sw'. alternateProvider ps (pv_Name (pn_provider session)) = Some pv \<Longrightarrow>
      handoverPending env ps session pv sw = ((new, True), sw') \<Longrightarrow> P sw ((new, True), sw')"
    and cancelled: "\<And>sw pv new ss w w'. handoverPending env ps session pv sw = ((new, False), ss, w) \<Longrightarrow>
      P sw ((session, False), ss, w')"
    and again: "\<And>sw pv new ss w w' r. handoverPending env ps session pv sw = ((new, False), ss, w) \<Longrightarrow>
      P (ss, w') r \<Longrightarrow> P sw r"
  shows "P sw r"
proof -
  have "e = env \<and> qs = ps \<and> old = session \<longrightarrow> P sw r" if "reconnectPending e qs old sw = Some r" for e qs old sw r
  proof (rule reconnectPending.raw_induct [OF _ that])
    fix rp e qs old sw r
    assume IH: "\<And>e qs old sw r. rp e qs old sw = Some r \<Longrightarrow> e = env \<and> qs = ps \<and> old = session \<longrightarrow> P sw r"
      and body: "(case alternateProvider qs (pv_Name (pn_provider old)) of
          None \<Rightarrow> Some ((old, False), sw)
        | Some nextProvider \<Rightarrow>
            (case handoverPending e qs old nextProvider sw of
               ((nextSession, ok), ss, w) \<Rightarrow>
                 if ok then Some ((nextSession, True), ss, w)
                 else
                   (case ns_Wait e pendingConnectRetryDelay w of
                      (go, w) \<Rightarrow> if go then rp e qs old (ss, w) else Some ((old, False), ss, w)))) = Some r"
    have "P sw r" if eq: "e = env" "qs = ps" "old = session"
    proof (cases "alternateProvider ps (pv_Name (pn_provider session))")
      case None
      with body none [OF None, of sw] show ?thesis by (simp add: eq)
    next
      case (Some pv)
      obtain new ok ss w where h: "handoverPending env ps session pv sw = ((new, ok), ss, w)" by (metis surj_pair)
      obtain go w1 where t: "ns_Wait env pendingConnectRetryDelay w = (go, w1)" by fastforce
      consider "ok" | "\<not> ok" "go" | "\<not> ok" "\<not> go" by blast
      then show ?thesis
      proof cases
        case 1
        with body Some h handover [OF Some, of sw new "(ss, w)"] show ?thesis by (simp add: eq)
      next
        case 2
        with body Some h t have "rp env ps session (ss, w1) = Some r" by (simp add: eq)
        with IH have "P (ss, w1) r" by blast
        with h 2 again show ?thesis by simp
      next
        case 3
        with body Some h t cancelled [of pv sw new ss w w1] show ?thesis by (simp add: eq)
      qed
    qed
    then show "e = env \<and> qs = ps \<and> old = session \<longrightarrow> P sw r" by blast
  qed
  with run show ?thesis by blast
qed

lemma handoverPending_ok:
  assumes "handoverPending env ps session pv sw = ((new, ok), sw')" "sess_ok session (fst sw)"
  shows "sess_ok new (fst sw') \<and> (\<not> ok \<longrightarrow> new = session)"
  using assms handoverLoop_ok [of env ps "length ps" session pv "fst sw" "snd sw" new ok "fst sw'" "snd sw'"]
  by (simp add: handoverPending_def)

lemma reconnectPending_ok:
  assumes "reconnectPending env ps session sw = Some ((session', goesOn), sw')" "sess_ok session (fst sw)"
  shows "sess_ok session' (fst sw')"
proof -
  have "sess_ok session (fst sw) \<longrightarrow> sess_ok (fst (fst ((session', goesOn), sw'))) (fst (snd ((session', goesOn), sw')))"
    using assms(1)
  proof (induction rule: reconnectPending_rounds)
    case (handover sw pv new sw')
    then show ?case using handoverPending_ok by fastforce
  next
    case (cancelled sw pv new ss w w')
    then show ?case using handoverPending_ok by fastforce
  next
    case (again sw pv new ss w w' r)
    then show ?case using handoverPending_ok [of env ps session pv sw new False "(ss, w)"] by auto
  qed simp
  with assms(2) show ?thesis by simp
qed

lemma switchSession_ok:
  assumes "switchSession env ps session pv sw = ((session', goesOn), sw')" "sess_ok session (fst sw)"
  shows "sess_ok session' (fst sw')"
proof -
  obtain new ok sw1 where h: "handoverPending env ps session pv sw = ((new, ok), sw1)" by (metis surj_pair)
  with assms handoverPending_ok [OF h] show ?thesis by (auto simp: switchSession_def split: if_splits)
qed

section \<open>The loop\<close>

text \<open>While the loop goes on exactly the current session is live; when it returns no other one is.\<close>

definition loop_ok :: "pendingSession \<Rightarrow> bool \<Rightarrow> sessions \<Rightarrow> bool" where
  "loop_ok session goesOn ss \<longleftrightarrow> (if goesOn then sess_ok session ss else ss_live ss |\<subseteq>| {|pn_id session|})"

lemma sess_loop_ok: "sess_ok session ss \<Longrightarrow> loop_ok session goesOn ss"
  by (auto simp: loop_ok_def sess_ok_def)

lemma pendingStep_ok:
  assumes "pendingStep env ps ev session sw = Some ((session', goesOn), sw')" "sess_ok session (fst sw)"
  shows "loop_ok session' goesOn (fst sw')"
proof (cases "ev = SubCtxDone \<or> ev = SwitchClosed")
  case True
  with assms show ?thesis by (cases sw) (auto simp: loop_ok_def cancel_def sess_ok_def)
next
  case False
  then have "sess_ok session' (fst sw')"
    using assms
    by (cases ev) (auto split: option.splits if_splits dest: switchSession_ok reconnectPending_ok)
  then show ?thesis by (rule sess_loop_ok)
qed

lemma pendingLoop_ok:
  assumes "pendingLoop env ps evs session sw = Some ((session', goesOn), sw')" "sess_ok session (fst sw)"
  shows "loop_ok session' goesOn (fst sw')"
  using assms
proof (induction evs arbitrary: session sw)
  case Nil
  then show ?case by (auto intro: sess_loop_ok)
next
  case (Cons ev evs)
  from Cons.prems(1) obtain s1 on sw1 where st: "pendingStep env ps ev session sw = Some ((s1, on), sw1)"
    by (auto split: option.splits)
  from pendingStep_ok [OF st Cons.prems(2)] have ok: "loop_ok s1 on (fst sw1)" .
  show ?case
  proof (cases on)
    case True
    with Cons.prems(1) st have "pendingLoop env ps evs s1 sw1 = Some ((session', goesOn), sw')" by simp
    moreover have "sess_ok s1 (fst sw1)" using ok True by (simp add: loop_ok_def)
    ultimately show ?thesis by (rule Cons.IH)
  next
    case False
    with Cons.prems(1) st ok show ?thesis by auto
  qed
qed

section \<open>The first session\<close>

text \<open>Before there is a session none is live.\<close>

definition idle :: "sessions \<Rightarrow> bool" where
  "idle ss \<longleftrightarrow> ss_live ss = {||}"

lemma idle_fresh: "idle ss \<Longrightarrow> fresh_ok ss"
  by (simp add: idle_def fresh_ok_def)

lemma start_idle:
  assumes "startPendingSession env pv (ss, w) = (res, ss', w')" "idle ss"
  shows "case res of Inl err \<Rightarrow> idle ss' | Inr session \<Rightarrow> sess_ok session ss' \<and> pn_provider session = pv"
  using startPendingSession_ok [OF assms(1) idle_fresh [OF assms(2)]] assms(2)
  by (auto simp: idle_def sess_ok_def split: sum.splits)

lemma initialAttempts_ok:
  assumes "initialAttempts env pv n (ss, w) = (res, ss', w')" "idle ss"
  shows "case res of Inl err \<Rightarrow> idle ss' | Inr session \<Rightarrow> sess_ok session ss' \<and> pn_provider session = pv"
  using assms
proof (induction n arbitrary: ss w)
  case 0
  obtain r ss1 w1 where st: "startPendingSession env pv (ss, w) = (r, ss1, w1)" using prod_cases3 by blast
  from 0 st start_idle [OF st 0(2)] show ?case
    by (cases r) (auto simp: initialAttempts.simps [of env pv 0] split: if_splits)
next
  case (Suc n)
  obtain r ss1 w1 where st: "startPendingSession env pv (ss, w) = (r, ss1, w1)" using prod_cases3 by blast
  obtain go w2 where t: "ns_Wait env pendingConnectRetryDelay w1 = (go, w2)" by fastforce
  note step = initialAttempts.simps [of env pv "Suc n" ss w]
  show ?case
  proof (cases "ns_CtxErr env w = None \<and> isl r \<and> go")
    case True
    then obtain err where "r = Inl err" by (auto simp: isl_def)
    with True Suc.prems(1) st t have "initialAttempts env pv n (ss1, w2) = (res, ss', w')" by (simp add: step)
    with Suc.IH start_idle [OF st Suc.prems(2)] \<open>r = Inl err\<close> show ?thesis by simp
  next
    case False
    with Suc.prems st t start_idle [OF st Suc.prems(2)] show ?thesis
      by (cases r) (auto simp: step split: if_splits)
  qed
qed

lemma initialProviders_ok:
  assumes "initialProviders env ps lastErr sw = (res, sw')" "idle (fst sw)"
  shows "case res of Inl err \<Rightarrow> idle (fst sw') | Inr session \<Rightarrow> sess_ok session (fst sw') \<and> pn_provider session \<in> set ps"
  using assms
proof (induction ps arbitrary: lastErr sw)
  case (Cons pv ps)
  obtain r sw1 where a: "initialAttempts env pv (connectRetryCount - 1) sw = (r, sw1)" by (metis surj_pair)
  have ok: "case r of Inl err \<Rightarrow> idle (fst sw1) | Inr session \<Rightarrow> sess_ok session (fst sw1) \<and> pn_provider session = pv"
    using initialAttempts_ok [of env pv "connectRetryCount - 1" "fst sw" "snd sw" r "fst sw1" "snd sw1"] a Cons.prems(2)
    by simp
  show ?case
  proof (cases r)
    case (Inl e)
    obtain err stop where e: "e = (err, stop)" by fastforce
    from Cons.prems(1) a Inl e ok Cons.IH [of "Some err" sw1] show ?thesis
      by (cases stop) (auto split: sum.splits)
  next
    case (Inr session)
    with Cons.prems(1) a ok show ?thesis by auto
  qed
qed auto

lemma initial_error: "initialProviders env ps lastErr sw = (Inl e, sw') \<Longrightarrow> ps \<noteq> [] \<or> lastErr \<noteq> None \<Longrightarrow> e \<noteq> None"
  by (induction ps arbitrary: lastErr sw) (auto split: prod.splits sum.splits bool.splits)

text \<open>
  C12. One pending session. From the start of \<open>runPendingSub\<close>, for every sequence of rotations, forced
  switches, broken sessions and shutdowns and whatever the providers answer: while the loop runs exactly
  one session is live, the current one; when it returns no other session is live; and when the first
  connection fails no session is left behind and the fatal error is reported.
\<close>

theorem one_pending_session:
  assumes "runPendingSub env evs s (\<lparr>ss_live = {||}, ss_next = 0\<rparr>, w) = Some (res, ss', w')"
  shows "case res of
      Inl s' \<Rightarrow> ss_live ss' = {||} \<and>
        (\<exists>err. s' = reportFatal err s \<and> (sb_providers s = [] \<longrightarrow> err = ErrNoEthereumProviders))
    | Inr (session, goesOn) \<Rightarrow> if goesOn then ss_live ss' = {|pn_id session|} else ss_live ss' |\<subseteq>| {|pn_id session|}"
proof (cases "sb_providers s = []")
  case True
  with assms show ?thesis by (auto simp: runPendingSub_def)
next
  case False
  let ?sw = "(\<lparr>ss_live = {||}, ss_next = 0\<rparr>, w)"
  obtain r sw1 where i: "initialProviders env (sb_providers s) None ?sw = (r, sw1)" by (metis surj_pair)
  have ok: "case r of Inl err \<Rightarrow> idle (fst sw1)
      | Inr session \<Rightarrow> sess_ok session (fst sw1) \<and> pn_provider session \<in> set (sb_providers s)"
    using initialProviders_ok [OF i] by (simp add: idle_def)
  show ?thesis
  proof (cases r)
    case (Inl e)
    with initial_error [of env "sb_providers s" None ?sw e sw1] i False obtain err where "e = Some err" by auto
    with assms False i Inl ok show ?thesis
      by (auto simp: runPendingSub_def connectInitialPendingSession_def idle_def)
  next
    case (Inr session)
    with assms False i obtain session' goesOn where
      l: "pendingLoop env (sb_providers s) evs session sw1 = Some ((session', goesOn), ss', w')" "res = Inr (session', goesOn)"
      by (auto simp: runPendingSub_def connectInitialPendingSession_def)
    have "loop_ok session' goesOn ss'" using pendingLoop_ok [OF l(1)] ok Inr by simp
    with l(2) show ?thesis by (auto simp: loop_ok_def sess_ok_def)
  qed
qed

section \<open>Reconnecting\<close>

text \<open>Among at least as many attempts as there are usable providers one reaches a provider that answers.\<close>

lemma handover_reaches:
  assumes "distinct (map pv_Name ps)" "\<And>w. ns_CtxErr env w = None"
    and "i < length (usable ps)" "d < n"
    and ready: "\<And>w. fst (ns_Start env (usable ps ! ((i + d) mod length (usable ps))) w) = Ready"
    and "sess_ok old ss"
  shows "\<exists>new ss' w'. handoverLoop env ps n old (usable ps ! i) (ss, w) = ((new, True), ss', w') \<and>
    pn_provider new \<in> set (usable ps)"
  using assms(3-6)
proof (induction n arbitrary: i d ss w)
  case (Suc n)
  let ?us = "usable ps"
  obtain res ss1 w1 where st: "startPendingSession env (?us ! i) (ss, w) = (res, ss1, w1)" using prod_cases3 by blast
  show ?case
  proof (cases res)
    case (Inr new)
    have "pn_provider new = ?us ! i" using start_ready_ok(2) [OF st [unfolded Inr] Suc.prems(4)] .
    with Inr st assms(2) Suc.prems(1) show ?thesis by simp
  next
    case (Inl err)
    obtain out w2 where out: "ns_Start env (?us ! i) w = (out, w2)" by fastforce
    have "out \<noteq> Ready"
      using startPendingSession_eq [OF sess_ok_fresh [OF Suc.prems(4)] out] st Inl by auto
    moreover have "(i + 0) mod length ?us = i" using Suc.prems(1) by simp
    ultimately obtain e where d: "d = Suc e" using Suc.prems(3) [of w] out by (cases d) auto
    have m: "length ?us \<noteq> 1"
    proof
      assume "length ?us = 1"
      with Suc.prems(3) [of w] out Suc.prems(1) \<open>out \<noteq> Ready\<close> show False by simp
    qed
    let ?j = "Suc i mod length ?us"
    have j: "?j < length ?us" using Suc.prems(1) by (intro mod_less_divisor) linarith
    have alt: "alternateProvider ps (pv_Name (?us ! i)) = Some (?us ! ?j)"
      using alternate_cyclic [OF assms(1) Suc.prems(1)] m by simp
    have "(?j + e) mod length ?us = (i + d) mod length ?us" by (simp add: d mod_simps)
    then have "fst (ns_Start env (?us ! ((?j + e) mod length ?us)) w) = Ready" for w using Suc.prems(3) by simp
    with Suc.IH [OF j, of e ss1 w1] d Suc.prems(2) start_failed_ok [OF st [unfolded Inl] Suc.prems(4)]
    show ?thesis using st Inl assms(2) alt by simp
  qed
qed simp

text \<open>
  C13. A broken session is replaced. When the pending session over a usable provider breaks and the
  context lives: if another provider is usable and some provider answers, the loop returns with a new
  live session and goes on; if no other provider is usable, it gives up and no session is started.
\<close>

theorem pending_reconnects:
  assumes "distinct (map pv_Name ps)" "\<And>w. ns_CtxErr env w = None"
    and "i < length (usable ps)" "pn_provider session = usable ps ! i" "ss_live ss = {|pn_id session|}" "pn_id session < ss_next ss"
  shows "(2 \<le> length (usable ps) \<and> (\<exists>p \<in> set (usable ps). \<forall>w. fst (ns_Start env p w) = Ready) \<longrightarrow>
      (\<exists>new ss' w'. reconnectPending env ps session (ss, w) = Some ((new, True), ss', w') \<and>
        ss_live ss' = {|pn_id new|} \<and> pn_provider new \<in> set (usable ps))) \<and>
    (length (usable ps) = 1 \<longrightarrow> reconnectPending env ps session (ss, w) = Some ((session, False), ss, w))"
proof (intro conjI impI)
  let ?us = "usable ps"
  have ok: "sess_ok session ss" using assms(5, 6) by (simp add: sess_ok_def)
  { assume "2 \<le> length ?us \<and> (\<exists>p \<in> set ?us. \<forall>w. fst (ns_Start env p w) = Ready)"
    then obtain k where k: "2 \<le> length ?us" "k < length ?us" "\<And>w. fst (ns_Start env (?us ! k) w) = Ready"
      by (metis in_set_conv_nth)
    let ?j = "Suc i mod length ?us"
    define d where "d = (k + length ?us - ?j) mod length ?us"
    have j: "?j < length ?us" using k(2) by (intro mod_less_divisor) linarith
    have "(?j + d) mod length ?us = (?j + (k + length ?us - ?j)) mod length ?us" by (simp add: d_def mod_simps)
    also have "\<dots> = k" using j k(2) by simp
    finally have r: "fst (ns_Start env (?us ! ((?j + d) mod length ?us)) w) = Ready" for w using k(3) by simp
    have "length ?us \<le> length ps" by (simp add: usable_def)
    moreover have "d < length ?us" unfolding d_def using k(2) by (intro mod_less_divisor) linarith
    ultimately have "d < length ps" by simp
    from handover_reaches [OF assms(1, 2) j this r ok, of w] obtain new ss' w' where
      h: "handoverLoop env ps (length ps) session (?us ! ?j) (ss, w) = ((new, True), ss', w')" "pn_provider new \<in> set ?us"
      by blast
    have "alternateProvider ps (pv_Name (pn_provider session)) = Some (?us ! ?j)"
      using alternate_cyclic [OF assms(1, 3)] k(1) by (simp add: assms(4))
    with h have "reconnectPending env ps session (ss, w) = Some ((new, True), ss', w')"
      by (subst reconnectPending.simps) (simp add: handoverPending_def)
    with h handoverLoop_ok [OF h(1) ok]
    show "\<exists>new ss' w'. reconnectPending env ps session (ss, w) = Some ((new, True), ss', w') \<and>
        ss_live ss' = {|pn_id new|} \<and> pn_provider new \<in> set ?us" by (auto simp: sess_ok_def)
  next
    assume "length ?us = 1"
    then show "reconnectPending env ps session (ss, w) = Some ((session, False), ss, w)"
      using alternate_cyclic [OF assms(1, 3)] by (subst reconnectPending.simps) (simp add: assms(4))
  }
qed

text \<open>A network where only the second provider answers.\<close>

definition half_network :: "unit session_env" where
  "half_network =
     \<lparr>ns_CtxErr = (\<lambda>_. None), ns_Start = (\<lambda>p w. (if pv_Name p = ''chainstack'' then Ready else ReadyTimeout, w)),
      ns_OldDone = (\<lambda>_ w. w), ns_Wait = (\<lambda>_ w. (True, w))\<rparr>"

lemma sample_usable: "usable (sb_providers sample_subscriber) = sb_providers sample_subscriber"
  by (simp add: usable_def sample_subscriber_def)

lemma sample_names: "distinct (map pv_Name (sb_providers sample_subscriber))"
  by (simp add: sample_subscriber_def)

theorem pending_reconnects_witness:
  "\<exists>new ss'. reconnectPending half_network (sb_providers sample_subscriber)
      \<lparr>pn_id = 3, pn_provider = \<lparr>pv_Name = ''alchemy'', pv_Url = ''wss://a''\<rparr>\<rparr> (\<lparr>ss_live = {|3|}, ss_next = 4\<rparr>, ()) =
      Some ((new, True), ss', ()) \<and> ss_live ss' = {|pn_id new|}"
proof -
  have "\<exists>p \<in> set (usable (sb_providers sample_subscriber)). \<forall>w. fst (ns_Start half_network p w) = Ready"
    unfolding sample_usable by (simp add: sample_subscriber_def half_network_def)
  then show ?thesis
    using pending_reconnects [OF sample_names, of half_network 0 "\<lparr>pn_id = 3, pn_provider = \<lparr>pv_Name = ''alchemy'', pv_Url = ''wss://a''\<rparr>\<rparr>"
        "\<lparr>ss_live = {|3|}, ss_next = 4\<rparr>" "()"]
    unfolding sample_usable by (auto simp: sample_subscriber_def half_network_def)
qed

theorem one_pending_session_witness:
  "\<exists>session ss'. runPendingSub half_network [Rotation, Forced ''chainstack'']
      sample_subscriber (\<lparr>ss_live = {||}, ss_next = 0\<rparr>, ()) = Some (Inr (session, True), ss', ()) \<and>
    ss_live ss' = {|pn_id session|}"
proof -
  obtain r where r: "runPendingSub half_network [Rotation, Forced ''chainstack''] sample_subscriber
      (\<lparr>ss_live = {||}, ss_next = 0\<rparr>, ()) = Some r" "\<exists>session. fst r = Inr (session, True)"
    by (simp add: runPendingSub_def connectInitialPendingSession_def connectRetryCount_def half_network_def
        initialAttempts.simps startPendingSession_def cancel_def sample_subscriber_def switchSession_def handoverPending_def
        alternateProvider_def provider_def upt_rec numeral_2_eq_2 Let_def)
  then obtain session ss' where "r = (Inr (session, True), ss', ())" by (metis old.unit.exhaust prod.collapse)
  with r(1) one_pending_session [of half_network "[Rotation, Forced ''chainstack'']" sample_subscriber "()" "Inr (session, True)" ss' "()"]
  show ?thesis by auto
qed

end
