(* ===== verification/Auth_Token.thy ===== *)
theory Auth_Token
  imports Go_Float64
begin

text \<open>
  Authentication of the gRPC calls (\<open>internal/network/auth\<close>): the client of the authentication service
  with its transport credentials, the token manager that caches an access token until shortly before it
  expires, and the interceptors that put the token into the metadata of every call.

  Files, certificates, the gRPC service, the JWT parser and \<open>singleflight.Group\<close> are other packages:
  they are fields of \<open>tls_env\<close> and \<open>auth_env\<close>. An error of these packages is its text. \<open>'w\<close> is the
  state of the world outside.
\<close>

section \<open>Transport credentials\<close>

text \<open>
  \<open>'a\<close> is the type of a certificate pool and \<open>'k\<close> that of a key pair. TLS 1.3 has the version number
  \<open>0x0304\<close>.
\<close>

datatype ('a, 'k) creds = Insecure | NewTLS (RootCAs: 'a) (Certificates: "'k list") (MinVersion: int)

record ('a, 'k, 'conn) tls_env =
  te_ReadFile :: "string \<Rightarrow> string + string"
  te_AppendCertsFromPEM :: "string \<Rightarrow> 'a option"
  te_LoadX509KeyPair :: "string \<Rightarrow> string \<Rightarrow> string + 'k"
  te_NewClient :: "string \<Rightarrow> ('a, 'k) creds \<Rightarrow> string + 'conn"

datatype dial_error =
    AddressEmpty
  | ReadCACertificate string
  | AppendCACertificate
  | LoadClientCertificate string
  | CreateClient string

definition VersionTLS13 :: int where "VersionTLS13 = 772"

definition transportCreds ::
  "('a, 'k, 'conn) tls_env \<Rightarrow> bool \<Rightarrow> string \<Rightarrow> string \<Rightarrow> string \<Rightarrow> dial_error + ('a, 'k) creds" where
  "transportCreds env enableTls caCertFile clientCertFile clientKeyFile =
     (if enableTls then
        case te_ReadFile env caCertFile of
          Inl err \<Rightarrow> Inl (ReadCACertificate err)
        | Inr caCert \<Rightarrow>
            (case te_AppendCertsFromPEM env caCert of
               None \<Rightarrow> Inl AppendCACertificate
             | Some certPool \<Rightarrow>
                 (case te_LoadX509KeyPair env clientCertFile clientKeyFile of
                    Inl err \<Rightarrow> Inl (LoadClientCertificate err)
                  | Inr clientCert \<Rightarrow> Inr (NewTLS certPool [clientCert] VersionTLS13)))
      else Inr Insecure)"

text \<open>The client of the service is the connection.\<close>

definition NewAuthGrpcClient ::
  "('a, 'k, 'conn) tls_env \<Rightarrow> string \<Rightarrow> bool \<Rightarrow> string \<Rightarrow> string \<Rightarrow> string \<Rightarrow> dial_error + 'conn" where
  "NewAuthGrpcClient env addr enableTls caCertFile clientCertFile clientKeyFile =
     (if addr = '''' then Inl AddressEmpty
      else
        case transportCreds env enableTls caCertFile clientCertFile clientKeyFile of
          Inl err \<Rightarrow> Inl err
        | Inr creds \<Rightarrow>
            (case te_NewClient env addr creds of
               Inl err \<Rightarrow> Inl (CreateClient err)
             | Inr conn \<Rightarrow> Inr conn))"

section \<open>The token manager\<close>

text \<open>The zero value of \<open>time.Time\<close> is the first of January of the year 1.\<close>

definition zeroTime :: Time where "zeroTime = - 62135596800 * 1000000000"

definition tokenRefreshMargin :: Time where "tokenRefreshMargin = 30 * 1000000000"

record TokenManager =
  tm_accessToken :: string
  tm_expiresAt :: Time
  tm_clientId :: string
  tm_clientSecret :: string

text \<open>A claim of a token: \<open>jwt.MapClaims\<close> holds a JSON number as a \<open>float64\<close>.\<close>

datatype claim = JsonNumber float64 | JsonOther string

datatype auth_error =
    AuthClientNil
  | ClientIdEmpty
  | ClientSecretEmpty
  | AuthenticateCall string
  | ServerTokenEmpty
  | AuthenticateFailed auth_error
  | ErrAccessTokenEmpty
  | InvalidJwt string
  | InvalidJwtClaims
  | ErrAccessTokenExp
  | InvalidExpType claim
  | InvalidExp
  | ParseExpirationFailed auth_error

text \<open>
  \<open>ae_Parse\<close> is \<open>ParseUnverified\<close> on \<open>MapClaims\<close> (\<open>Inr None\<close>: the claims have another type);
  \<open>ae_Do\<close> is \<open>singleflight.Group.Do\<close> for the one key that the code uses.
\<close>

record 'w auth_env =
  ae_Authenticate :: "string \<Rightarrow> string \<Rightarrow> 'w \<Rightarrow> (string + string) \<times> 'w"
  ae_Parse :: "string \<Rightarrow> string + (string, claim) fmap option"
  ae_Now :: "'w \<Rightarrow> Time \<times> 'w"
  ae_oor :: "float64 \<Rightarrow> int"
  ae_Do :: "(TokenManager \<times> 'w \<Rightarrow> (auth_error + string) \<times> TokenManager \<times> 'w) \<Rightarrow>
    TokenManager \<times> 'w \<Rightarrow> (auth_error + string) \<times> TokenManager \<times> 'w"

definition NewTokenManager :: "'conn option \<Rightarrow> string \<Rightarrow> string \<Rightarrow> auth_error + TokenManager" where
  "NewTokenManager client clientId clientSecret =
     (if client = None then Inl AuthClientNil
      else if clientId = '''' then Inl ClientIdEmpty
      else if clientSecret = '''' then Inl ClientSecretEmpty
      else Inr \<lparr>tm_accessToken = '''', tm_expiresAt = zeroTime, tm_clientId = clientId, tm_clientSecret = clientSecret\<rparr>)"

text \<open>The conversion \<open>int64(x)\<close> truncates; outside the range Go leaves the result open (\<open>oor\<close>).\<close>

definition f64_to_i64 :: "(float64 \<Rightarrow> int) \<Rightarrow> float64 \<Rightarrow> int" where
  "f64_to_i64 oor x = (case x of
       Fin q \<Rightarrow>
         let n = (if 0 \<le> q then \<lfloor>q\<rfloor> else \<lceil>q\<rceil>)
         in if - (2 ^ 63) \<le> n \<and> n < 2 ^ 63 then n else oor x
     | _ \<Rightarrow> oor x)"

definition time_Unix :: "int \<Rightarrow> Time" where "time_Unix sec = sec * 1000000000"

definition parseJWTExpiration :: "'w auth_env \<Rightarrow> string \<Rightarrow> auth_error + Time" where
  "parseJWTExpiration env accessToken =
     (case ae_Parse env accessToken of
        Inl err \<Rightarrow> Inl (InvalidJwt err)
      | Inr None \<Rightarrow> Inl InvalidJwtClaims
      | Inr (Some claims) \<Rightarrow>
          (case fmlookup claims ''exp'' of
             None \<Rightarrow> Inl ErrAccessTokenExp
           | Some (JsonNumber expFloat) \<Rightarrow>
               if f64_le expFloat (Fin 0) then Inl InvalidExp
               else Inr (time_Unix (f64_to_i64 (ae_oor env) expFloat))
           | Some c \<Rightarrow> Inl (InvalidExpType c)))"

text \<open>\<open>AuthGrpcClient.Authenticate\<close>; \<open>NewTokenManager\<close> has excluded a nil client.\<close>

definition Authenticate :: "'w auth_env \<Rightarrow> string \<Rightarrow> string \<Rightarrow> 'w \<Rightarrow> (auth_error + string) \<times> 'w" where
  "Authenticate env clientId clientSecret w =
     (if clientId = '''' then (Inl ClientIdEmpty, w)
      else if clientSecret = '''' then (Inl ClientSecretEmpty, w)
      else
        case ae_Authenticate env clientId clientSecret w of
          (Inl err, w) \<Rightarrow> (Inl (AuthenticateCall err), w)
        | (Inr token, w) \<Rightarrow> if token = '''' then (Inl ServerTokenEmpty, w) else (Inr token, w))"

definition authenticate :: "'w auth_env \<Rightarrow> TokenManager \<Rightarrow> 'w \<Rightarrow> (auth_error + string \<times> Time) \<times> 'w" where
  "authenticate env m w =
     (case Authenticate env (tm_clientId m) (tm_clientSecret m) w of
        (Inl err, w) \<Rightarrow> (Inl (AuthenticateFailed err), w)
      | (Inr accessToken, w) \<Rightarrow>
          if accessToken = '''' then (Inl ErrAccessTokenEmpty, w)
          else
            (case parseJWTExpiration env accessToken of
               Inl err \<Rightarrow> (Inl (ParseExpirationFailed err), w)
             | Inr expiresAt \<Rightarrow> (Inr (accessToken, expiresAt), w)))"

definition isAccessTokenValid :: "'w auth_env \<Rightarrow> TokenManager \<Rightarrow> 'w \<Rightarrow> bool \<times> 'w" where
  "isAccessTokenValid env m w =
     (if tm_accessToken m = '''' then (False, w)
      else if tm_expiresAt m = zeroTime then (False, w)
      else case ae_Now env w of (now, w) \<Rightarrow> (now + tokenRefreshMargin < tm_expiresAt m, w))"

text \<open>The function that \<open>GetAccessToken\<close> hands to \<open>Do\<close>.\<close>

definition refreshToken :: "'w auth_env \<Rightarrow> TokenManager \<times> 'w \<Rightarrow> (auth_error + string) \<times> TokenManager \<times> 'w" where
  "refreshToken env = (\<lambda>(m, w).
     case isAccessTokenValid env m w of
       (True, w) \<Rightarrow> (Inr (tm_accessToken m), m, w)
     | (False, w) \<Rightarrow>
         (case authenticate env m w of
            (Inl err, w) \<Rightarrow> (Inl err, m, w)
          | (Inr (accessToken, expiresAt), w) \<Rightarrow>
              (Inr accessToken, m\<lparr>tm_accessToken := accessToken, tm_expiresAt := expiresAt\<rparr>, w)))"

definition GetAccessToken :: "'w auth_env \<Rightarrow> TokenManager \<times> 'w \<Rightarrow> (auth_error + string) \<times> TokenManager \<times> 'w" where
  "GetAccessToken env = (\<lambda>(m, w).
     case isAccessTokenValid env m w of
       (True, w) \<Rightarrow> (Inr (tm_accessToken m), m, w)
     | (False, w) \<Rightarrow> ae_Do env (refreshToken env) (m, w))"

section \<open>The interceptors\<close>

text \<open>
  The outgoing metadata of a context, \<open>None\<close> when it has none. The key is in lower case, as
  \<open>metadata.MD\<close> keeps its keys.
\<close>

type_synonym metadata = "(string, string list) fmap"

definition WithBearerToken :: "metadata option \<Rightarrow> string \<Rightarrow> metadata option" where
  "WithBearerToken ctx token =
     (let md = (case ctx of None \<Rightarrow> fmempty | Some md \<Rightarrow> md)
      in Some (fmupd ''authorization'' [''Bearer '' @ token] md))"

datatype call_error = NoAccessToken auth_error | CallError string

definition UnaryClientInterceptor ::
  "'w auth_env \<Rightarrow> (metadata option \<Rightarrow> 'w \<Rightarrow> (string + 'r) \<times> 'w) \<Rightarrow> metadata option \<Rightarrow> TokenManager \<times> 'w \<Rightarrow>
   (call_error + 'r) \<times> TokenManager \<times> 'w" where
  "UnaryClientInterceptor env invoker ctx s =
     (case GetAccessToken env s of
        (Inl err, m, w) \<Rightarrow> (Inl (NoAccessToken err), m, w)
      | (Inr token, m, w) \<Rightarrow>
          (case invoker (WithBearerToken ctx token) w of
             (Inl err, w) \<Rightarrow> (Inl (CallError err), m, w)
           | (Inr r, w) \<Rightarrow> (Inr r, m, w)))"

definition StreamClientInterceptor ::
  "'w auth_env \<Rightarrow> (metadata option \<Rightarrow> 'w \<Rightarrow> (string + 'r) \<times> 'w) \<Rightarrow> metadata option \<Rightarrow> TokenManager \<times> 'w \<Rightarrow>
   (call_error + 'r) \<times> TokenManager \<times> 'w" where
  "StreamClientInterceptor env streamer ctx s =
     (case GetAccessToken env s of
        (Inl err, m, w) \<Rightarrow> (Inl (NoAccessToken err), m, w)
      | (Inr token, m, w) \<Rightarrow>
          (case streamer (WithBearerToken ctx token) w of
             (Inl err, w) \<Rightarrow> (Inl (CallError err), m, w)
           | (Inr r, w) \<Rightarrow> (Inr r, m, w)))"

section \<open>Stored tokens\<close>

text \<open>
  The stored expiry is the one that the stored token carries, and the credentials are there.
\<close>

definition token_ok :: "'w auth_env \<Rightarrow> TokenManager \<Rightarrow> bool" where
  "token_ok env m \<longleftrightarrow>
     tm_clientId m \<noteq> '''' \<and> tm_clientSecret m \<noteq> '''' \<and>
     (tm_accessToken m \<noteq> '''' \<longrightarrow> parseJWTExpiration env (tm_accessToken m) = Inr (tm_expiresAt m))"

text \<open>
  The documented behaviour of \<open>Do\<close>: the caller gets the result of one execution of the function, its
  own one or one in flight; the function is the only one that is run for the key, so that what every
  execution keeps of the manager holds when this execution starts.
\<close>

definition flight_law :: "'w auth_env \<Rightarrow> bool" where
  "flight_law env \<longleftrightarrow>
     (\<forall>f m w I. I m \<and> (\<forall>m w. I m \<longrightarrow> I (fst (snd (f (m, w))))) \<longrightarrow>
        (\<exists>m0 w0. I m0 \<and> ae_Do env f (m, w) = f (m0, w0)))"

text \<open>What a token is when it is handed out: still valid for the margin, or just issued.\<close>

definition granted :: "'w auth_env \<Rightarrow> TokenManager \<Rightarrow> string \<Rightarrow> bool" where
  "granted env m token \<longleftrightarrow>
     token \<noteq> '''' \<and>
     (\<exists>expiresAt. parseJWTExpiration env token = Inr expiresAt \<and>
        ((\<exists>w0 now w1. ae_Now env w0 = (now, w1) \<and> now + tokenRefreshMargin < expiresAt) \<or>
         (\<exists>w0 w1. ae_Authenticate env (tm_clientId m) (tm_clientSecret m) w0 = (Inr token, w1))))"

lemma NewTokenManager_ok: "NewTokenManager client clientId secret = Inr m \<Longrightarrow> token_ok env m"
  by (auto simp: NewTokenManager_def token_ok_def split: if_splits)

lemma valid_granted:
  assumes "isAccessTokenValid env m w = (True, w')" "token_ok env m"
  shows "granted env m (tm_accessToken m)"
  using assms unfolding granted_def isAccessTokenValid_def token_ok_def
  by (auto split: if_splits prod.splits)

lemma authenticate_granted:
  assumes "authenticate env m w = (Inr (token, expiresAt), w')"
  shows "granted env m token \<and> token \<noteq> '''' \<and> parseJWTExpiration env token = Inr expiresAt"
  using assms unfolding authenticate_def Authenticate_def granted_def
  by (auto split: if_splits prod.splits sum.splits)

lemma refreshToken_ok:
  assumes "refreshToken env (m, w) = (res, m', w')" "token_ok env m"
  shows "token_ok env m' \<and> tm_clientId m' = tm_clientId m \<and> tm_clientSecret m' = tm_clientSecret m \<and>
    (\<forall>token. res = Inr token \<longrightarrow> granted env m token \<and> tm_accessToken m' = token)"
proof -
  obtain valid w1 where v: "isAccessTokenValid env m w = (valid, w1)" by fastforce
  show ?thesis
  proof (cases valid)
    case True
    with v assms show ?thesis using valid_granted [of env m w w1] by (auto simp: refreshToken_def)
  next
    case False
    obtain out w2 where a: "authenticate env m w1 = (out, w2)" by fastforce
    from assms v a False show ?thesis
      using authenticate_granted [of env m w1]
      by (cases out) (auto simp: refreshToken_def token_ok_def)
  qed
qed

lemma GetAccessToken_ok:
  assumes "flight_law env" "token_ok env m" "GetAccessToken env (m, w) = (res, m', w')"
  shows "token_ok env m' \<and> (\<forall>token. res = Inr token \<longrightarrow> granted env m token \<and> tm_accessToken m' = token)"
proof -
  obtain valid w1 where v: "isAccessTokenValid env m w = (valid, w1)" by fastforce
  show ?thesis
  proof (cases valid)
    case True
    with v assms show ?thesis using valid_granted [of env m w w1] by (auto simp: GetAccessToken_def)
  next
    case False
    let ?I = "\<lambda>m'. token_ok env m' \<and> tm_clientId m' = tm_clientId m \<and> tm_clientSecret m' = tm_clientSecret m"
    have keep: "?I (fst (snd (refreshToken env (m1, w1))))" if "?I m1" for m1 w1
      using refreshToken_ok [of env m1 w1 "fst (refreshToken env (m1, w1))"
          "fst (snd (refreshToken env (m1, w1)))" "snd (snd (refreshToken env (m1, w1)))"] that
      by simp
    have "\<exists>m0 w0. ?I m0 \<and> ae_Do env (refreshToken env) (m, w1) = refreshToken env (m0, w0)"
      using assms(2) keep
      by (intro assms(1) [unfolded flight_law_def, THEN spec, of "refreshToken env", THEN spec, of m,
            THEN spec, of w1, THEN spec, of ?I, THEN mp]) simp
    then obtain m0 w0 where I: "?I m0" and d: "ae_Do env (refreshToken env) (m, w1) = refreshToken env (m0, w0)"
      by blast
    from assms(3) v d False have "refreshToken env (m0, w0) = (res, m', w')" by (simp add: GetAccessToken_def)
    from refreshToken_ok [OF this] I show ?thesis by (auto simp: granted_def)
  qed
qed

section \<open>Authenticated calls\<close>

text \<open>A manager in use: made by \<open>NewTokenManager\<close>, then any number of calls.\<close>

inductive manager_reachable :: "'w auth_env \<Rightarrow> TokenManager \<Rightarrow> bool" for env where
  new: "NewTokenManager (Some ()) clientId clientSecret = Inr m \<Longrightarrow> manager_reachable env m"
| call: "manager_reachable env m \<Longrightarrow> GetAccessToken env (m, w) = (res, m', w') \<Longrightarrow> manager_reachable env m'"

lemma manager_token_ok: "manager_reachable env m \<Longrightarrow> flight_law env \<Longrightarrow> token_ok env m"
  by (induction rule: manager_reachable.induct) (blast dest: NewTokenManager_ok GetAccessToken_ok)+

lemma StreamClientInterceptor_eq: "StreamClientInterceptor env f ctx s = UnaryClientInterceptor env f ctx s"
  by (simp add: StreamClientInterceptor_def UnaryClientInterceptor_def)

lemma bearer_lookup:
  "WithBearerToken ctx token = Some md \<Longrightarrow> fmlookup md ''authorization'' = Some [''Bearer '' @ token] \<and>
    (\<forall>k. k \<noteq> ''authorization'' \<longrightarrow> fmlookup md k = Option.bind ctx (\<lambda>md. fmlookup md k))"
  by (auto simp: WithBearerToken_def split: option.splits)


text \<open>A server that issues the token \<open>jwt\<close>, valid until second 5000; the world counts the calls.\<close>

definition sample_auth :: "nat auth_env" where
  "sample_auth =
     \<lparr>ae_Authenticate = (\<lambda>_ _ w. (Inr ''jwt'', w + 1)),
      ae_Parse = (\<lambda>t. if t = ''jwt'' then Inr (Some (fmupd ''exp'' (JsonNumber (Fin 5000)) fmempty)) else Inl ''malformed''),
      ae_Now = (\<lambda>w. (1000 * 1000000000, w)), ae_oor = (\<lambda>_. 0), ae_Do = (\<lambda>f s. f s)\<rparr>"

definition sample_token_manager :: TokenManager where
  "sample_token_manager =
     \<lparr>tm_accessToken = '''', tm_expiresAt = zeroTime, tm_clientId = ''svc'', tm_clientSecret = ''key''\<rparr>"

lemma sample_manager_reachable: "manager_reachable sample_auth sample_token_manager"
  by (rule manager_reachable.new [of "''svc''" "''key''"])
    (simp add: NewTokenManager_def sample_token_manager_def)

lemma sample_flight_law: "flight_law sample_auth"
  by (auto simp: flight_law_def sample_auth_def)


text \<open>
  Transport security. A connection to the authentication server exists only for a non-empty
  address; with TLS switched on it exists only with TLS 1.3, the authorities of the CA file and the
  client's own certificate, so that a missing or broken file is an error and never a connection in
  clear text.
\<close>

theorem NewAuthGrpcClient_secure:
  "NewAuthGrpcClient env addr enableTls ca cert key = Inr conn \<longleftrightarrow>
     addr \<noteq> '''' \<and>
     (\<exists>creds. te_NewClient env addr creds = Inr conn \<and>
        (if enableTls
         then \<exists>pem pool pair. te_ReadFile env ca = Inr pem \<and> te_AppendCertsFromPEM env pem = Some pool \<and>
           te_LoadX509KeyPair env cert key = Inr pair \<and> creds = NewTLS pool [pair] VersionTLS13
         else creds = Insecure))"
  by (auto simp: NewAuthGrpcClient_def transportCreds_def split: sum.splits option.splits)

end
