(* ===== verification/Server_Main.thy ===== *)
theory Server_Main
  imports Ingestion_Sessions Auth_Token
begin

text \<open>
  Start of the server: the configuration (\<open>internal/config/config.go\<close>), the client of the prediction
  service (\<open>NewGasPredictClient\<close>) and \<open>main\<close> (\<open>cmd/server/main.go\<close>) up to the point where all goroutines
  run. An error of a constructor makes \<open>main\<close> panic, a bad configuration exits; both are \<open>Inl\<close> with the
  reason. Viper is an argument: reading the file, binding a variable and decoding into \<open>rawConfig\<close>.
\<close>

section \<open>Configuration\<close>

record Config =
  cf_Service :: string
  cf_Env :: string
  cf_ServerPort :: string
  cf_AuthClientSecret :: string
  cf_GrpcServerAddr :: string
  cf_EthSepoliaChainId :: string
  cf_RPCs :: "(string, string) fmap"
  cf_WSs :: "Provider list"
  cf_GrpcTLSEnabled :: bool
  cf_GrpcTLSCACert :: string
  cf_GrpcTLSClientCert :: string
  cf_GrpcTLSClientKey :: string

record rawConfig =
  raw_Service :: string
  raw_Env :: string
  raw_ServerPort :: string
  raw_AuthClientSecret :: string
  raw_GrpcServerAddr :: string
  raw_EthSepoliaChainId :: string
  raw_AlcHTTP :: string
  raw_AlcWS :: string
  raw_ChaHTTP :: string
  raw_ChaWS :: string
  raw_InfHTTP :: string
  raw_InfWS :: string
  raw_GrpcTLSEnabled :: bool
  raw_GrpcTLSCACert :: string
  raw_GrpcTLSClientCert :: string
  raw_GrpcTLSClientKey :: string

text \<open>A failed read of the file is only logged, so \<open>vi_ReadInConfig\<close> is its effect on the world.\<close>

record 'w viper_env =
  vi_ReadInConfig :: "string \<Rightarrow> 'w \<Rightarrow> 'w"
  vi_BindEnv :: "string \<Rightarrow> 'w \<Rightarrow> string option \<times> 'w"
  vi_Unmarshal :: "'w \<Rightarrow> string + rawConfig"

definition envKeys :: "string list" where
  "envKeys =
     [''SERVICE'', ''ENV'', ''SERVER_PORT'', ''AUTH_CLIENT_SECRET'', ''GRPC_SERVER_ADDR'', ''ETH_SEPOLIA_CHAIN_ID'',
      ''ETH_ALC_RPC_HTTP_URL'', ''ETH_ALC_RPC_WS_URL'', ''ETH_CHA_RPC_HTTP_URL'', ''ETH_CHA_RPC_WS_URL'',
      ''ETH_INF_RPC_HTTP_URL'', ''ETH_INF_RPC_WS_URL'', ''GRPC_TLS_ENABLED'', ''GRPC_TLS_CA_CERT'',
      ''GRPC_TLS_CLIENT_CERT'', ''GRPC_TLS_CLIENT_KEY'']"

fun bindEnvs :: "'w viper_env \<Rightarrow> string list \<Rightarrow> 'w \<Rightarrow> string option \<times> 'w" where
  "bindEnvs env [] w = (None, w)"
| "bindEnvs env (key # keys) w =
     (case vi_BindEnv env key w of
        (Some err, w) \<Rightarrow> (Some err, w)
      | (None, w) \<Rightarrow> bindEnvs env keys w)"

definition ProviderAlchemy :: string where "ProviderAlchemy = ''alchemy''"
definition ProviderChainstack :: string where "ProviderChainstack = ''chainstack''"

definition configOf :: "rawConfig \<Rightarrow> Config" where
  "configOf raw =
     \<lparr>cf_Service = raw_Service raw, cf_Env = raw_Env raw, cf_ServerPort = raw_ServerPort raw,
      cf_AuthClientSecret = raw_AuthClientSecret raw, cf_GrpcServerAddr = raw_GrpcServerAddr raw,
      cf_EthSepoliaChainId = raw_EthSepoliaChainId raw,
      cf_RPCs = fmap_of_list [(ProviderAlchemy, raw_AlcHTTP raw), (ProviderChainstack, raw_ChaHTTP raw)],
      cf_WSs = [\<lparr>pv_Name = ProviderAlchemy, pv_Url = raw_AlcWS raw\<rparr>,
                \<lparr>pv_Name = ProviderChainstack, pv_Url = raw_ChaWS raw\<rparr>],
      cf_GrpcTLSEnabled = raw_GrpcTLSEnabled raw, cf_GrpcTLSCACert = raw_GrpcTLSCACert raw,
      cf_GrpcTLSClientCert = raw_GrpcTLSClientCert raw, cf_GrpcTLSClientKey = raw_GrpcTLSClientKey raw\<rparr>"

text \<open>\<open>Inl\<close> is \<open>os.Exit(1)\<close>.\<close>

definition LoadConfig :: "'w viper_env \<Rightarrow> 'w \<Rightarrow> (string + Config) \<times> 'w" where
  "LoadConfig env w =
     (case bindEnvs env envKeys (vi_ReadInConfig env ''.env'' w) of
        (Some err, w) \<Rightarrow> (Inl err, w)
      | (None, w) \<Rightarrow>
          (case vi_Unmarshal env w of
             Inl err \<Rightarrow> (Inl err, w)
           | Inr raw \<Rightarrow> (Inr (configOf raw), w)))"

section \<open>The client of the prediction service\<close>

text \<open>
  The interceptors handed to \<open>grpc.NewClient\<close> are those of \<open>Auth_Token\<close>; the two workers started here are
  \<open>startStreamWorker\<close> and \<open>startUnaryWoker\<close>.
\<close>

definition NewGasPredictClient ::
  "('a, 'k, 'conn) tls_env \<Rightarrow> string \<Rightarrow> bool \<Rightarrow> string \<Rightarrow> string \<Rightarrow> string \<Rightarrow>
   dial_error + 'conn \<times> GasPredictionClient" where
  "NewGasPredictClient env addr enableTls caCertFile clientCertFile clientKeyFile =
     (if addr = '''' then Inl AddressEmpty
      else
        case transportCreds env enableTls caCertFile clientCertFile clientKeyFile of
          Inl err \<Rightarrow> Inl err
        | Inr creds \<Rightarrow>
            (case te_NewClient env addr creds of
               Inl err \<Rightarrow> Inl (CreateClient err)
             | Inr cc \<Rightarrow> Inr (cc, newGasPredictClient)))"

section \<open>The start of the server\<close>

text \<open>
  \<open>PoolPanic\<close>: after a bad chain id \<open>main\<close> panics with \<open>err\<close>, which is nil there. \<open>CoordinatorPanic\<close>: the
  processor could not be initialized from the latest block.
\<close>

datatype start_error =
    ConfigExit string
  | RpcPanic rpc_error
  | DialPanic dial_error
  | TokenPanic auth_error
  | PoolPanic
  | StorePanic
  | CoordinatorPanic
  | SubscriberPanic string

record ('c, 'w, 'l, 'a, 'k, 'conn) main_env =
  mn_viper :: "'w viper_env"
  mn_proc :: "('c, 'w) proc_env"
  mn_ordRpc :: "string fset \<Rightarrow> string list"
  mn_tls :: "('a, 'k, 'conn) tls_env"
  mn_signers :: "int \<Rightarrow> Transaction \<Rightarrow> Address option"
  mn_exp :: "float64 \<Rightarrow> float64"
  mn_ordGap :: "u64 fset \<Rightarrow> u64 list"
  mn_sleep :: "int \<Rightarrow> 'w \<Rightarrow> ProcError option \<times> 'w"
  mn_lru :: "'l lru_env"

record ('c, 'w, 'l) server =
  sv_token :: TokenManager
  sv_pending :: "('c, 'w) Process pending_run"
  sv_block :: blockPipeline
  sv_sub :: "'l Subscriber"

definition zero_ErrorCount :: ErrorCount where
  "zero_ErrorCount =
     \<lparr>er_TxRPCFailed = 0, er_TxIndividualRPCFailed = 0, er_BlockReceiptRPCFailed = 0,
      er_BlockProcessingFailed = 0, er_BlockDropped = 0, er_FeeHistoryFailed = 0\<rparr>"

text \<open>The part of \<open>main\<close> that connects to the nodes and to the gRPC server.\<close>

definition connectServices ::
  "('c, 'w, 'l, 'a, 'k, 'conn) main_env \<Rightarrow> Config \<Rightarrow> 'w \<Rightarrow>
   start_error + 'c RPCManager \<times> TokenManager \<times> GasPredictionClient \<times> 'w" where
  "connectServices env cfg w =
     (case NewRpcManager (pe_rpc (mn_proc env)) (mn_ordRpc env) (cf_RPCs cfg) w of
        (Inl err, w) \<Rightarrow> Inl (RpcPanic err)
      | (Inr rpcManager, w) \<Rightarrow>
          (case NewAuthGrpcClient (mn_tls env) (cf_GrpcServerAddr cfg) (cf_GrpcTLSEnabled cfg)
               (cf_GrpcTLSCACert cfg) (cf_GrpcTLSClientCert cfg) (cf_GrpcTLSClientKey cfg) of
             Inl err \<Rightarrow> Inl (DialPanic err)
           | Inr authGrpcClient \<Rightarrow>
               (case NewTokenManager (Some authGrpcClient) (cf_Service cfg) (cf_AuthClientSecret cfg) of
                  Inl err \<Rightarrow> Inl (TokenPanic err)
                | Inr tokenManager \<Rightarrow>
                    (case NewGasPredictClient (mn_tls env) (cf_GrpcServerAddr cfg) (cf_GrpcTLSEnabled cfg)
                         (cf_GrpcTLSCACert cfg) (cf_GrpcTLSClientCert cfg) (cf_GrpcTLSClientKey cfg) of
                       Inl err \<Rightarrow> Inl (DialPanic err)
                     | Inr (cc, grpcClient) \<Rightarrow> Inr (rpcManager, tokenManager, grpcClient, w)))))"

text \<open>The part that builds the components around the processor and starts the coordinator.\<close>

definition startProcessor ::
  "('c, 'w, 'l, 'a, 'k, 'conn) main_env \<Rightarrow> string \<Rightarrow> 'c RPCManager \<Rightarrow> GasPredictionClient \<Rightarrow> 'w \<Rightarrow>
   start_error + ('c, 'w) Process pending_run \<times> blockPipeline" where
  "startProcessor env chainID rpcManager grpcClient w =
     (case NewPendingMemPool (mn_signers env) chainID TxStoreBlockTTL of
        None \<Rightarrow> Inl PoolPanic
      | Some pendingPool \<Rightarrow>
          (case NewBlockStore MaxBlockCount of
             None \<Rightarrow> Inl StorePanic
           | Some blocks \<Rightarrow>
               (case NewAnalyzer (mn_exp env) MaxBlockCount of
                  None \<Rightarrow> Inl StorePanic
                | Some analyzer \<Rightarrow>
                    let proc = NewProcess pendingPool blocks rpcManager analyzer grpcClient zero_ErrorCount zero_Count w;
                        coor = NewCoordinator MaxBlockCount
                    in (case Coordinator_Start (eth_pipe_env (mn_proc env) (mn_ordGap env) (mn_sleep env)) coor proc of
                          None \<Rightarrow> Inl CoordinatorPanic
                        | Some run \<Rightarrow> Inr run))))"

definition main :: "('c, 'w, 'l, 'a, 'k, 'conn) main_env \<Rightarrow> 'w \<Rightarrow> start_error + ('c, 'w, 'l) server" where
  "main env w =
     (case LoadConfig (mn_viper env) w of
        (Inl err, w) \<Rightarrow> Inl (ConfigExit err)
      | (Inr cfg, w) \<Rightarrow>
          (case connectServices env cfg w of
             Inl err \<Rightarrow> Inl err
           | Inr (rpcManager, tokenManager, grpcClient, w) \<Rightarrow>
               (case startProcessor env (cf_EthSepoliaChainId cfg) rpcManager grpcClient w of
                  Inl err \<Rightarrow> Inl err
                | Inr (run, b) \<Rightarrow>
                    (case NewSubscriber (mn_lru env) (cf_WSs cfg) \<lparr>co_pending = pu_pipe run, co_block = b\<rparr> of
                       Inl err \<Rightarrow> Inl (SubscriberPanic err)
                     | Inr sub \<Rightarrow>
                         Inr \<lparr>sv_token = tokenManager, sv_pending = run, sv_block = b, sv_sub = sub\<rparr>))))"

section \<open>A started server\<close>

lemma connectServices_ok:
  assumes "connectServices env cfg w = Inr (r, t, g, w')"
  shows "NewRpcManager (pe_rpc (mn_proc env)) (mn_ordRpc env) (cf_RPCs cfg) w = (Inr r, w')"
    "g = newGasPredictClient"
    "t = \<lparr>tm_accessToken = '''', tm_expiresAt = zeroTime, tm_clientId = cf_Service cfg, tm_clientSecret = cf_AuthClientSecret cfg\<rparr>"
    "cf_Service cfg \<noteq> ''''" "cf_AuthClientSecret cfg \<noteq> ''''"
  using assms
  by (auto simp: connectServices_def NewTokenManager_def NewGasPredictClient_def
      split: prod.splits sum.splits if_splits)

lemma Pipeline_start_next:
  assumes "Pipeline_start (eth_pipe_env env ord sleep) (b, p) = Some (b', p')"
  shows "\<exists>h n. Initialize env p = Some (Inr h, p') \<and> hd_Number h = Some n \<and> bl_nextBlockNum b' = big_Uint64 n + 1"
proof -
  from assms obtain res p1 where i: "bp_Initialize (pi_proc (eth_pipe_env env ord sleep)) p = Some (res, p1)"
    by (auto simp: Pipeline_start_def bind_eq_Some_conv)
  show ?thesis
  proof (cases res)
    case (Inr hdr)
    with assms i obtain h n where h: "hdr = Some h" "hd_Number h = Some n" "p' = p1" "bl_nextBlockNum b' = big_Uint64 n + 1"
      by (auto simp: Pipeline_start_def bind_eq_Some_conv)
    with i Inr have "Initialize env p = Some (Inr h, p')" by (auto simp: eth_defs map_sum_Inr_Some)
    with h show ?thesis by blast
  qed (use assms i in \<open>simp add: Pipeline_start_def\<close>)
qed

lemma new_store_ok:
  "NewBlockStore MaxBlockCount = Some s \<Longrightarrow> store_ok (NewProcess pool s r a g errs counts w) \<and> GetBlockData s = []"
  by (auto simp: NewBlockStore_def MaxBlockCount_def store_ok_def store_inv_def NewProcess_def GetBlockData_def)

text \<open>What \<open>startProcessor\<close> builds: the processor before \<open>Start\<close>, and the run of \<open>Start\<close> on it.\<close>

lemma startProcessor_shape:
  assumes "startProcessor env chainID r g w = Inr (run, b)"
  obtains pool store a where
    "NewPendingMemPool (mn_signers env) chainID TxStoreBlockTTL = Some pool"
    "NewBlockStore MaxBlockCount = Some store" "NewAnalyzer (mn_exp env) MaxBlockCount = Some a"
    "Pipeline_start (eth_pipe_env (mn_proc env) (mn_ordGap env) (mn_sleep env))
       (newBlockPipeline MaxBlockCount, NewProcess pool store r a g zero_ErrorCount zero_Count w) = Some (b, pu_proc run)"
    "run = Pending_start (newPendingPipeline pendingWorkerCount) (pu_proc run)"
proof -
  from assms obtain pool store a where new:
    "NewPendingMemPool (mn_signers env) chainID TxStoreBlockTTL = Some pool"
    "NewBlockStore MaxBlockCount = Some store" "NewAnalyzer (mn_exp env) MaxBlockCount = Some a"
    by (auto simp: startProcessor_def split: option.splits)
  with assms have "Coordinator_Start (eth_pipe_env (mn_proc env) (mn_ordGap env) (mn_sleep env)) (NewCoordinator MaxBlockCount)
      (NewProcess pool store r a g zero_ErrorCount zero_Count w) = Some (run, b)"
    by (simp add: startProcessor_def Let_def split: option.splits)
  then have "Pipeline_start (eth_pipe_env (mn_proc env) (mn_ordGap env) (mn_sleep env))
       (newBlockPipeline MaxBlockCount, NewProcess pool store r a g zero_ErrorCount zero_Count w) = Some (b, pu_proc run)"
    "run = Pending_start (newPendingPipeline pendingWorkerCount) (pu_proc run)"
    by (auto simp: Coordinator_Start_def NewCoordinator_def bind_eq_Some_conv Pending_start_def)
  with new that show ?thesis by blast
qed

lemma startProcessor_ok:
  assumes start: "startProcessor env chainID r newGasPredictClient w = Inr (run, b)"
    and law: "node_law (pe_api (mn_proc env))"
    and mgr: "NewRpcManager renv ord rpcs w0 = (Inr r, w)"
  shows "server_reachable (b, pu_proc run)"
    "\<exists>chain. big_SetString chainID = Some chain \<and> proc_reachable key (mn_signers env chain) (pu_proc run)"
    "set (stored_numbers (pu_proc run)) \<subseteq> {bl_nextBlockNum b - 1}"
    "run = Pending_start (newPendingPipeline pendingWorkerCount) (pu_proc run)"
proof -
  from start obtain pool store a where pool: "NewPendingMemPool (mn_signers env) chainID TxStoreBlockTTL = Some pool"
    and store: "NewBlockStore MaxBlockCount = Some store" and a: "NewAnalyzer (mn_exp env) MaxBlockCount = Some a"
    and run: "Pipeline_start (eth_pipe_env (mn_proc env) (mn_ordGap env) (mn_sleep env))
       (newBlockPipeline MaxBlockCount, NewProcess pool store r a newGasPredictClient zero_ErrorCount zero_Count w) =
       Some (b, pu_proc run)"
    and pend: "run = Pending_start (newPendingPipeline pendingWorkerCount) (pu_proc run)"
    by (rule startProcessor_shape)
  let ?p = "NewProcess pool store r a newGasPredictClient zero_ErrorCount zero_Count w"
  have ok: "store_ok ?p" "GetBlockData (ps_store ?p) = []"
    using new_store_ok [OF store, of pool r a newGasPredictClient zero_ErrorCount zero_Count w] by (simp_all add: NewProcess_def)
  show "server_reachable (b, pu_proc run)" by (rule server_reachable.start [OF law ok run])
  from Pipeline_start_next [OF run] obtain h n where i: "Initialize (mn_proc env) ?p = Some (Inr h, pu_proc run)"
    "hd_Number h = Some n" "bl_nextBlockNum b = big_Uint64 n + 1" by blast
  obtain m where "stored_numbers (pu_proc run) = take m (big_Uint64 n # stored_numbers ?p)"
    using Initialize_store [OF i(1,2) ok(1)] by blast
  then show "set (stored_numbers (pu_proc run)) \<subseteq> {bl_nextBlockNum b - 1}"
    using ok(2) i(3) set_take_subset [of m "[big_Uint64 n]"] by (simp add: stored_numbers_def)
  from pool obtain chain where c: "big_SetString chainID = Some chain" "pp_Signer pool = mn_signers env chain"
    by (auto simp: NewPendingMemPool_def split: option.splits)
  have "proc_reachable key (mn_signers env chain) ?p"
    by (rule proc_reachable.new [OF pool c(2) store _ mgr a]) (simp add: MaxBlockCount_def)
  from proc_reachable.step [OF this proc_step.initialize [OF i(1)]] c(1)
  show "\<exists>chain. big_SetString chainID = Some chain \<and> proc_reachable key (mn_signers env chain) (pu_proc run)" by blast
  show "run = Pending_start (newPendingPipeline pendingWorkerCount) (pu_proc run)" by (rule pend)
qed

lemma LoadConfig_providers:
  "LoadConfig env w = (Inr cfg, w') \<Longrightarrow> map pv_Name (cf_WSs cfg) = [''alchemy'', ''chainstack'']"
  by (auto simp: LoadConfig_def configOf_def ProviderAlchemy_def ProviderChainstack_def
      split: prod.splits option.splits sum.splits)

lemma Pipeline_start_pipe:
  assumes "Pipeline_start env (b, p) = Some (b', p')"
  shows "\<exists>n. b' = b\<lparr>bl_nextBlockNum := n\<rparr>"
proof -
  from assms obtain res p1 where "bp_Initialize (pi_proc env) p = Some (res, p1)"
    by (auto simp: Pipeline_start_def bind_eq_Some_conv)
  with assms show ?thesis by (cases res) (auto simp: Pipeline_start_def bind_eq_Some_conv)
qed

text \<open>The parts of a started server.\<close>

lemma main_shape:
  assumes "main env w = Inr sv" "node_law (pe_api (mn_proc env))"
  obtains cfg :: Config and dedup where "map pv_Name (cf_WSs cfg) = [''alchemy'', ''chainstack'']"
    "cf_Service cfg \<noteq> ''''" "cf_AuthClientSecret cfg \<noteq> ''''"
    "sv_token sv = \<lparr>tm_accessToken = '''', tm_expiresAt = zeroTime, tm_clientId = cf_Service cfg, tm_clientSecret = cf_AuthClientSecret cfg\<rparr>"
    "server_reachable (sv_block sv, pu_proc (sv_pending sv))"
    "\<And>key. \<exists>chain. proc_reachable key (mn_signers env chain) (pu_proc (sv_pending sv))"
    "set (stored_numbers (pu_proc (sv_pending sv))) \<subseteq> {bl_nextBlockNum (sv_block sv) - 1}"
    "sv_pending sv = Pending_start (newPendingPipeline pendingWorkerCount) (pu_proc (sv_pending sv))"
    "\<exists>n. sv_block sv = (newBlockPipeline MaxBlockCount)\<lparr>bl_nextBlockNum := n\<rparr>"
    "sv_sub sv = \<lparr>sb_coor = \<lparr>co_pending = pu_pipe (sv_pending sv), co_block = sv_block sv\<rparr>, sb_dedup = Some dedup,
       sb_providers = cf_WSs cfg, sb_pendingSwitch = make_chan 4, sb_errChan = make_chan 1\<rparr>"
proof -
  from assms(1) obtain cfg w1 r t g w2 run b sub where
    cfg: "LoadConfig (mn_viper env) w = (Inr cfg, w1)" and conn: "connectServices env cfg w1 = Inr (r, t, g, w2)"
    and start: "startProcessor env (cf_EthSepoliaChainId cfg) r g w2 = Inr (run, b)"
    and sub: "NewSubscriber (mn_lru env) (cf_WSs cfg) \<lparr>co_pending = pu_pipe run, co_block = b\<rparr> = Inr sub"
    and sv: "sv = \<lparr>sv_token = t, sv_pending = run, sv_block = b, sv_sub = sub\<rparr>"
    by (auto simp: main_def split: prod.splits sum.splits)
  note c = connectServices_ok [OF conn]
  note s = startProcessor_ok [OF start [unfolded c(2)] assms(2) c(1)]
  from sub obtain dedup where d: "sub = \<lparr>sb_coor = \<lparr>co_pending = pu_pipe run, co_block = b\<rparr>, sb_dedup = Some dedup,
       sb_providers = cf_WSs cfg, sb_pendingSwitch = make_chan 4, sb_errChan = make_chan 1\<rparr>"
    by (auto simp: NewSubscriber_def split: sum.splits)
  have "\<exists>n. b = (newBlockPipeline MaxBlockCount)\<lparr>bl_nextBlockNum := n\<rparr>"
    using startProcessor_shape [OF start] Pipeline_start_pipe by metis
  with c(3,4,5) s(1,3,4) d LoadConfig_providers [OF cfg] show ?thesis
    using s(2) by (intro that [of cfg dedup]) (auto simp: sv)
qed


section \<open>A sample start\<close>

definition sample_raw :: rawConfig where
  "sample_raw =
     \<lparr>raw_Service = ''monitor'', raw_Env = ''test'', raw_ServerPort = ''8080'', raw_AuthClientSecret = ''secret'',
      raw_GrpcServerAddr = ''grpc:443'', raw_EthSepoliaChainId = ''1'', raw_AlcHTTP = ''https://a'',
      raw_AlcWS = ''wss://a'', raw_ChaHTTP = ''https://c'', raw_ChaWS = ''wss://c'', raw_InfHTTP = '''',
      raw_InfWS = '''', raw_GrpcTLSEnabled = False, raw_GrpcTLSCACert = '''', raw_GrpcTLSClientCert = '''',
      raw_GrpcTLSClientKey = ''''\<rparr>"

definition sample_main_env :: "(nat, int, string list, unit, unit, unit) main_env" where
  "sample_main_env =
     \<lparr>mn_viper = \<lparr>vi_ReadInConfig = (\<lambda>_ w. w), vi_BindEnv = (\<lambda>_ w. (None, w)), vi_Unmarshal = (\<lambda>_. Inr sample_raw)\<rparr>,
      mn_proc = sample_proc_env, mn_ordRpc = (\<lambda>_. [''alchemy'', ''chainstack'']),
      mn_tls = \<lparr>te_ReadFile = (\<lambda>_. Inl ''no file''), te_AppendCertsFromPEM = (\<lambda>_. None),
        te_LoadX509KeyPair = (\<lambda>_ _. Inl ''no file''), te_NewClient = (\<lambda>_ _. Inr ())\<rparr>,
      mn_signers = (\<lambda>_ _. Some 7), mn_exp = (\<lambda>x. x), mn_ordGap = sorted_list_of_fset,
      mn_sleep = (\<lambda>d w. (None, w)), mn_lru = list_lru\<rparr>"

lemma sample_LoadConfig: "LoadConfig (mn_viper sample_main_env) 0 = (Inr (configOf sample_raw), 0)"
  by (simp add: LoadConfig_def envKeys_def sample_main_env_def)

definition started_manager :: "nat RPCManager" where
  "started_manager =
     (case NewRpcManager sample_env (\<lambda>_. [''alchemy'', ''chainstack'']) (cf_RPCs (configOf sample_raw)) 0 of
        (Inr r, _) \<Rightarrow> r)"

lemma started_manager_eq:
  "NewRpcManager sample_env (\<lambda>_. [''alchemy'', ''chainstack'']) (cf_RPCs (configOf sample_raw)) 0 = (Inr started_manager, 1)"
  "cl_EthClient (rm_clients started_manager ! 0) = Some 0" "cl_limitType (rm_clients started_manager ! 0) = LimitCU"
  "lm_burst (cl_limiter (rm_clients started_manager ! 0)) = 400"
  "rm_active started_manager = 0" "length (rm_clients started_manager) = 2" 
  "rm_lastRotateAt started_manager = 0" "rm_rotateInterval started_manager = RotateInterval"
  by (simp_all add: started_manager_def NewRpcManager_def configOf_def sample_raw_def ProviderAlchemy_def
      ProviderChainstack_def rpcPolicies_def NewEthClient_def sample_env_def)

lemma sample_connect:
  "\<exists>t. connectServices sample_main_env (configOf sample_raw) 0 = Inr (started_manager, t, newGasPredictClient, 1)"
  using started_manager_eq(1)
  by (simp add: connectServices_def sample_main_env_def sample_proc_env_def NewAuthGrpcClient_def transportCreds_def
      NewTokenManager_def NewGasPredictClient_def configOf_def sample_raw_def)

definition started_analyzer :: Analyzer where
  "started_analyzer = the (NewAnalyzer (\<lambda>x. x) MaxBlockCount)"

definition new_process :: "(nat, int) Process" where
  "new_process =
     NewProcess \<lparr>pp_Signer = (\<lambda>_. Some 7), pp_Accounts = fmempty, pp_ExpireBuckets = fmempty,
         pp_HashIndex = fmempty, pp_TTLBlock = TxStoreBlockTTL, pp_heap = (\<lambda>_. zero_PendingTx), pp_next = 0\<rparr>
       \<lparr>st_blocks = [], st_max = MaxBlockCount\<rparr> started_manager started_analyzer newGasPredictClient
       zero_ErrorCount zero_Count 1"

lemma call_started_manager:
  assumes "co_CU cost \<le> 400" "0 \<le> w" "w < RotateInterval" "fn 0 (w + 1) = (Inr x, w')"
  shows "EthClientFunc sample_env cost fn started_manager w = (Inr x, started_manager, w')"
  using assms
  by (cases started_manager) (use started_manager_eq in \<open>auto simp: EthClientFunc_def sample_env_def attempt_def Client_Wait_def Let_def\<close>)

lemma new_process_latest:
  "getLastestBlockHeader sample_proc_env new_process = (Inr (sample_header (Some 102)), new_process\<lparr>ps_world := 2\<rparr>)"
  by (simp add: getLastestBlockHeader_def rpcCall_def new_process_def NewProcess_def call_started_manager
     sample_proc_env_def sample_api_def mkCost_def cost_defs RotateInterval_def sample_header_def)

lemma new_process_initialize:
  "\<exists>p'. Initialize sample_proc_env new_process = Some (Inr (sample_header (Some 102)), p')"
proof -
  let ?h = "sample_header (Some 102)"
  have fetch: "fetchBlockReceipts sample_proc_env (hd_Hash ?h) (new_process\<lparr>ps_world := 2\<rparr>) =
      (Inr node_receipts, new_process\<lparr>ps_world := 3\<rparr>)"
    by (simp add: fetchBlockReceipts_def rpcCall_def new_process_def NewProcess_def call_started_manager
        sample_proc_env_def sample_api_def mkCost_def cost_defs RotateInterval_def node_receipts_def)
  note run = Initialize_fetched [OF new_process_latest sample_number(1) fetch sample_number(2)]
  have "blockPool decay [block_of ?h 102 node_receipts []] = []" for decay
    by (cases decay)
      (simp_all add: blockPool_def block_of_def node_receipts_def map_filter_simps receiptTxInfo_def EffectiveTipFromReceipt_def)
  moreover have "CalculateNextBaseFee (hd_BaseFee ?h) (hd_GasUsed ?h) (hd_GasLimit ?h) \<noteq> None" by code_simp
  moreover have "hd_BaseFee ?h \<noteq> None" by (simp add: sample_header_def)
  ultimately have "Initialize sample_proc_env new_process \<noteq> None"
    unfolding run
    by (auto simp: bind_eq_None_conv UpdateBlockInfo_None_iff [OF sample_number(1)] BlockPercentiles_def
        new_process_def NewProcess_def AddBlock_def GetBlockData_def MaxBlockCount_def)
  then show ?thesis unfolding run by (auto simp: bind_eq_None_conv bind_eq_Some_conv)
qed

lemma sample_main_starts: "\<exists>sv. main sample_main_env 0 = Inr sv \<and> bl_nextBlockNum (sv_block sv) = 103"
proof -
  obtain p' where p': "Initialize sample_proc_env new_process = Some (Inr (sample_header (Some 102)), p')"
    using new_process_initialize by blast
  obtain t where t: "connectServices sample_main_env (configOf sample_raw) 0 = Inr (started_manager, t, newGasPredictClient, 1)"
    using sample_connect by blast
  have start: "Pipeline_start (eth_pipe_env sample_proc_env sorted_list_of_fset (\<lambda>d w. (None, w)))
      (newBlockPipeline MaxBlockCount, new_process) = Some ((newBlockPipeline MaxBlockCount)\<lparr>bl_nextBlockNum := 103\<rparr>, p')"
    using p' by (simp add: Pipeline_start_def eth_defs sample_number big_Uint64_def)
  have "NewAnalyzer (\<lambda>x. x) MaxBlockCount = Some started_analyzer"
    by (simp add: started_analyzer_def NewAnalyzer_def MaxBlockCount_def)
  then have "startProcessor sample_main_env ''1'' started_manager newGasPredictClient 1 =
      Inr (Pending_start (newPendingPipeline pendingWorkerCount) p', (newBlockPipeline MaxBlockCount)\<lparr>bl_nextBlockNum := 103\<rparr>)"
    using start
    by (simp add: startProcessor_def sample_main_env_def NewPendingMemPool_def digit_value_def NewBlockStore_def
        Coordinator_Start_def NewCoordinator_def new_process_def MaxBlockCount_def)
  moreover have "cf_EthSepoliaChainId (configOf sample_raw) = ''1''" by (simp add: configOf_def sample_raw_def)
  ultimately show ?thesis
    by (simp add: main_def sample_LoadConfig t NewSubscriber_def NewCache_def) (simp add: sample_main_env_def list_lru_def)
qed


end
