(* ===== verification/Server_Interference.thy ===== *)
theory Server_Interference
  imports Server_Main
begin

text \<open>
  The block pipeline while the other goroutines work. An iteration of its loop calls the processor many
  times, and between two calls the pending workers, the analyzer and the gRPC workers may change the
  shared components. \<open>with_others\<close> puts a function for what they do in front of every call; the contract
  of the pipeline survives, so do the bounds of its channels.
\<close>

section \<open>Interference between calls\<close>

text \<open>
  \<open>others\<close> is a function of the whole state, the world included, so it may do something different at
  every call.
\<close>

definition with_others :: "('p \<Rightarrow> 'p) \<Rightarrow> ('e, 'p) pipe_env \<Rightarrow> ('e, 'p) pipe_env" where
  "with_others others env =
     env\<lparr>pi_proc :=
           \<lparr>bp_ProcessBlock = (\<lambda>hdr p. bp_ProcessBlock (pi_proc env) hdr (others p)),
            bp_Initialize = (\<lambda>p. bp_Initialize (pi_proc env) (others p)),
            bp_HeaderByNumber = (\<lambda>n p. bp_HeaderByNumber (pi_proc env) n (others p)),
            bp_CleanupFailedBlock = (\<lambda>hdr p. bp_CleanupFailedBlock (pi_proc env) hdr (others p)),
            bp_Resync = (\<lambda>p. bp_Resync (pi_proc env) (others p)),
            bp_CompareFeeHistory = (\<lambda>p. bp_CompareFeeHistory (pi_proc env) (others p))\<rparr>,
         pi_wait := (\<lambda>d p. pi_wait env d (others p))\<rparr>"

context block_processor
begin

lemma contract_with_others:
  assumes others: "\<And>p. ok p \<Longrightarrow> ok (others p) \<and> seen (others p) = seen p"
  shows "block_processor (with_others others env) seen ok"
proof
  fix p assume "ok p"
  with others have o: "ok (others p)" "seen (others p) = seen p" by blast+
  show "ok p' \<and> seen p' = seen p"
    if "bp_ProcessBlock (pi_proc (with_others others env)) hdr p = Some (Some e, p')" for hdr e p'
    using process_fail [OF o(1), of hdr e p'] that o(2) by (simp add: with_others_def)
  show "ok p' \<and> (seen p' = seen p \<or> (\<exists>m. seen p' = take m (big_Uint64 n # seen p)))"
    if "bp_ProcessBlock (pi_proc (with_others others env)) (Some h) p = Some (None, p')" "hd_Number h = Some n" for h n p'
    using process_done [OF o(1), of h p' n] that o(2) by (simp add: with_others_def)
  show "ok p' \<and> seen p' = seen p" if "bp_HeaderByNumber (pi_proc (with_others others env)) k p = (r, p')" for k r p'
    using header_frame [OF o(1), of k r p'] that o(2) by (simp add: with_others_def)
  show "ok p' \<and> seen p' = seen p"
    if "bp_CleanupFailedBlock (pi_proc (with_others others env)) hdr p = Some (e', p')" for hdr e' p'
    using cleanup_frame [OF o(1), of hdr e' p'] that o(2) by (simp add: with_others_def)
  show "ok p' \<and> seen p' = seen p" if "bp_CompareFeeHistory (pi_proc (with_others others env)) p = Some p'" for p'
    using compare_frame [OF o(1), of p'] that o(2) by (simp add: with_others_def)
  show "ok p' \<and> seen p' = seen p" if "pi_wait (with_others others env) d p = (w, p')" for d w p'
    using wait_frame [OF o(1), of d w p'] that o(2) by (simp add: with_others_def)
  show "ok p' \<and> seen p' = seen p" if "bp_Resync (pi_proc (with_others others env)) p = Some (Inl e, p')" for e p'
    using resync_fail [OF o(1), of e p'] that o(2) by (simp add: with_others_def)
  show "ok p' \<and> (\<exists>h n. hdr = Some h \<and> hd_Number h = Some n \<and> seen p' = [big_Uint64 n])"
    if "bp_Resync (pi_proc (with_others others env)) p = Some (Inr hdr, p')" for hdr p'
    using resync_done [OF o(1), of hdr p'] that by (simp add: with_others_def)
  show "ok p' \<and> (\<exists>m. seen p' = take m (big_Uint64 n # seen p))"
    if "bp_Initialize (pi_proc (with_others others env)) p = Some (Inr (Some h), p')" "hd_Number h = Some n" for h n p'
    using initialize_done [OF o(1), of h p' n] that o(2) by (simp add: with_others_def)
qed

end

lemma header_law_with_others:
  "header_law (pi_proc env) \<Longrightarrow> header_law (pi_proc (with_others others env))"
  unfolding header_law_def with_others_def by simp

section \<open>The processor keeps its whole invariant under the pipeline\<close>

lemma proc_inv_store_ok: "proc_inv key signer p \<Longrightarrow> store_ok p"
  by (simp add: proc_inv_def store_ok_def)

lemma eth_process_inv:
  assumes "env_ok key signer env" "proc_inv key signer p"
  shows "bp_ProcessBlock (pi_proc (eth_pipe_env env ord sleep)) hdr p = Some (e, p') \<Longrightarrow> proc_inv key signer p'"
    "bp_CleanupFailedBlock (pi_proc (eth_pipe_env env ord sleep)) hdr p = Some (e', p') \<Longrightarrow> proc_inv key signer p'"
    "bp_HeaderByNumber (pi_proc (eth_pipe_env env ord sleep)) k p = (r, p') \<Longrightarrow> proc_inv key signer p'"
    "bp_CompareFeeHistory (pi_proc (eth_pipe_env env ord sleep)) p = Some p' \<Longrightarrow> proc_inv key signer p'"
    "bp_Resync (pi_proc (eth_pipe_env env ord sleep)) p = Some (r', p') \<Longrightarrow> proc_inv key signer p'"
    "bp_Initialize (pi_proc (eth_pipe_env env ord sleep)) p = Some (r', p') \<Longrightarrow> proc_inv key signer p'"
    "pi_wait (eth_pipe_env env ord sleep) d p = (w, p') \<Longrightarrow> proc_inv key signer p'"
proof -
  show "bp_ProcessBlock (pi_proc (eth_pipe_env env ord sleep)) hdr p = Some (e, p') \<Longrightarrow> proc_inv key signer p'"
    using ProcessBlock_inv [OF assms] by (simp add: eth_defs)
  show "bp_CleanupFailedBlock (pi_proc (eth_pipe_env env ord sleep)) hdr p = Some (e', p') \<Longrightarrow> proc_inv key signer p'"
    using CleanupFailedBlock_inv [OF assms] by (simp add: eth_defs)
  show "bp_HeaderByNumber (pi_proc (eth_pipe_env env ord sleep)) k p = (r, p') \<Longrightarrow> proc_inv key signer p'"
    by (auto simp: eth_defs split: prod.splits dest!: HeaderByNumber_frame intro: frame_inv [OF _ assms(2)])
  show "bp_CompareFeeHistory (pi_proc (eth_pipe_env env ord sleep)) p = Some p' \<Longrightarrow> proc_inv key signer p'"
    by (auto simp: eth_defs dest!: CompareFeeHistory_frame intro: frame_inv [OF _ assms(2)])
  show "bp_Resync (pi_proc (eth_pipe_env env ord sleep)) p = Some (r', p') \<Longrightarrow> proc_inv key signer p'"
    using Resync_inv [OF _ assms(2)] by (auto simp: eth_defs)
  show "bp_Initialize (pi_proc (eth_pipe_env env ord sleep)) p = Some (r', p') \<Longrightarrow> proc_inv key signer p'"
    using Initialize_inv [OF _ assms(2)] by (auto simp: eth_defs)
  show "pi_wait (eth_pipe_env env ord sleep) d p = (w, p') \<Longrightarrow> proc_inv key signer p'"
    using assms(2) by (auto simp: eth_defs proc_inv_def split: prod.splits)
qed

text \<open>The contract with the invariant of the processor instead of that of the store alone.\<close>

lemma eth_contract:
  fixes env :: "('c, 'w) proc_env"
  assumes "env_ok key signer env"
  shows "block_processor (eth_pipe_env env ord sleep) stored_numbers (proc_inv key signer)"
proof
  fix p :: "('c, 'w) Process" assume inv: "proc_inv key signer p"
  then have ok: "store_ok p" by (rule proc_inv_store_ok)
  note keep = eth_process_inv [OF assms inv, where ord = ord and sleep = sleep]
  show "proc_inv key signer p' \<and> stored_numbers p' = stored_numbers p"
    if "bp_ProcessBlock (pi_proc (eth_pipe_env env ord sleep)) hdr p = Some (Some e, p')" for hdr e p'
    using keep(1) [OF that] eth.process_fail [OF ok that] by blast
  show "proc_inv key signer p' \<and> (stored_numbers p' = stored_numbers p \<or>
      (\<exists>m. stored_numbers p' = take m (big_Uint64 n # stored_numbers p)))"
    if "bp_ProcessBlock (pi_proc (eth_pipe_env env ord sleep)) (Some h) p = Some (None, p')" "hd_Number h = Some n" for h n p'
    using keep(1) [OF that(1)] eth.process_done [OF ok that] by blast
  show "proc_inv key signer p' \<and> stored_numbers p' = stored_numbers p"
    if "bp_HeaderByNumber (pi_proc (eth_pipe_env env ord sleep)) k p = (r, p')" for k r p'
    using keep(3) [OF that] eth.header_frame [OF ok that] by blast
  show "proc_inv key signer p' \<and> stored_numbers p' = stored_numbers p"
    if "bp_CleanupFailedBlock (pi_proc (eth_pipe_env env ord sleep)) hdr p = Some (e', p')" for hdr e' p'
    using keep(2) [OF that] eth.cleanup_frame [OF ok that] by blast
  show "proc_inv key signer p' \<and> stored_numbers p' = stored_numbers p"
    if "bp_CompareFeeHistory (pi_proc (eth_pipe_env env ord sleep)) p = Some p'" for p'
    using keep(4) [OF that] eth.compare_frame [OF ok that] by blast
  show "proc_inv key signer p' \<and> stored_numbers p' = stored_numbers p"
    if "pi_wait (eth_pipe_env env ord sleep) d p = (w, p')" for d w p'
    using keep(7) [OF that] eth.wait_frame [OF ok that] by blast
  show "proc_inv key signer p' \<and> stored_numbers p' = stored_numbers p"
    if "bp_Resync (pi_proc (eth_pipe_env env ord sleep)) p = Some (Inl e, p')" for e p'
    using keep(5) [OF that] eth.resync_fail [OF ok that] by blast
  show "proc_inv key signer p' \<and> (\<exists>h n. hdr = Some h \<and> hd_Number h = Some n \<and> stored_numbers p' = [big_Uint64 n])"
    if "bp_Resync (pi_proc (eth_pipe_env env ord sleep)) p = Some (Inr hdr, p')" for hdr p'
    using keep(5) [OF that] eth.resync_done [OF ok that] by blast
  show "proc_inv key signer p' \<and> (\<exists>m. stored_numbers p' = take m (big_Uint64 n # stored_numbers p))"
    if "bp_Initialize (pi_proc (eth_pipe_env env ord sleep)) p = Some (Inr (Some h), p')" "hd_Number h = Some n" for h n p'
    using keep(6) [OF that(1)] eth.initialize_done [OF ok that] by blast
qed

section \<open>The channels of the pipeline\<close>

definition block_chans_ok :: "blockPipeline \<Rightarrow> bool" where
  "block_chans_ok b \<longleftrightarrow>
     chan_ok (bl_headerChan b) \<and> chan_cap (bl_headerChan b) = headBufferSize \<and>
     chan_ok (bl_failedBlockChan b) \<and> chan_cap (bl_failedBlockChan b) = failedBlockBufferSize \<and>
     chan_ok (bl_wakeupChan b) \<and> chan_cap (bl_wakeupChan b) = wakeupBufferSize"

lemma try_send_ok [simp]: "chan_ok c \<Longrightarrow> chan_ok (snd (chan_try_send x c))"
  by (rule go_chan.send_ok)

lemma try_recv_ok:
  assumes "chan_try_recv c = Some (x, c')"
  shows "chan_ok c \<Longrightarrow> chan_ok c'" "chan_cap c' = chan_cap c"
  using assms by (auto simp: chan_try_recv_def chan_ok_def split: list.splits)

lemma chans_new: "block_chans_ok (newBlockPipeline n)"
  by (simp add: block_chans_ok_def newBlockPipeline_def)

lemma chans_update [simp]:
  "block_chans_ok (b\<lparr>bl_pendingBlock := m\<rparr>) = block_chans_ok b"
  "block_chans_ok (b\<lparr>bl_nextBlockNum := n\<rparr>) = block_chans_ok b"
  "block_chans_ok (advance k b) = block_chans_ok b"
  by (simp_all add: block_chans_ok_def advance_def)

lemma chans_wakeup: "block_chans_ok b \<Longrightarrow> block_chans_ok (wakeup b)"
  by (simp add: block_chans_ok_def wakeup_def try_send_cap)

lemma chans_push: "block_chans_ok b \<Longrightarrow> block_chans_ok (Pipeline_push hdr b)"
  by (simp add: block_chans_ok_def Pipeline_push_def try_send_cap)

lemma chans_failedBlock: "failedBlock h b = Some b' \<Longrightarrow> block_chans_ok b \<Longrightarrow> block_chans_ok b'"
  by (auto simp: failedBlock_def block_chans_ok_def chan_try_send_def chan_ok_def chan_full_def bind_eq_Some_conv split: if_splits)

lemma chans_backfill: "block_chans_ok (fst s) \<Longrightarrow> block_chans_ok (fst (backfill env nums s))"
  by (induction env nums s rule: backfill.induct) (auto simp: chans_wakeup split: prod.splits sum.splits option.splits)

lemma chans_resync:
  assumes "Pipeline_resync env (b, p) = Some s'" "block_chans_ok b"
  shows "block_chans_ok (fst s')"
proof -
  from assms(1) obtain res p1 where r: "bp_Resync (pi_proc env) p = Some (res, p1)"
    by (auto simp: Pipeline_resync_def bind_eq_Some_conv)
  show ?thesis
  proof (cases res)
    case (Inr hdr)
    with assms r show ?thesis by (cases hdr) (auto simp: Pipeline_resync_def split: option.splits)
  qed (use assms r in \<open>auto simp: Pipeline_resync_def\<close>)
qed

lemma chans_gap:
  assumes "checkBlockGap env s = Some s'" "block_chans_ok (fst s)"
  shows "block_chans_ok (fst s')"
proof -
  obtain b p where s: "s = (b, p)" by (cases s)
  have "s' = (b, p) \<or> Pipeline_resync env (b, p) = Some s' \<or> (\<exists>nums. s' = backfill env nums (b, p))"
    using assms unfolding checkBlockGap_def s Let_def by (auto split: if_splits)
  then consider "s' = (b, p)" | "Pipeline_resync env (b, p) = Some s'" | nums where "s' = backfill env nums (b, p)"
    by blast
  then show ?thesis using assms(2) by cases (auto simp: s chans_resync intro: chans_backfill)
qed

lemma chans_procBlock:
  assumes "procBlock env k h s = Some s'" "block_chans_ok (fst s)"
  shows "block_chans_ok (fst s')"
proof -
  obtain b p b' p' where s: "s = (b, p)" "s' = (b', p')" by (cases s, cases s')
  from assms(1) [unfolded s] show ?thesis
    by (rule procBlock_shape) (use assms(2) in \<open>auto simp: s dest: chans_failedBlock\<close>)
qed

lemma chans_procAvailable:
  "procAvailable env s = Some (Some s') \<Longrightarrow> block_chans_ok (fst s) \<Longrightarrow> block_chans_ok (fst s')"
  by (induction rule: procAvailable_rounds) (simp_all add: chans_gap chans_procBlock)

lemma chans_loops:
  assumes "block_chans_ok (fst s)"
  shows "onWakeup env s = Some (Some s') \<Longrightarrow> block_chans_ok (fst s')"
    "onHeader env s = Some (Some s') \<Longrightarrow> block_chans_ok (fst s')"
    "onFailedBlock env s = Some s' \<Longrightarrow> block_chans_ok (fst s')"
proof -
  obtain b p where s: "s = (b, p)" by (cases s)
  with assms have b: "block_chans_ok b" by simp
  show "block_chans_ok (fst s')" if run: "onWakeup env s = Some (Some s')"
  proof (cases "chan_try_recv (bl_wakeupChan b)")
    case (Some r)
    obtain ch where r: "r = ((), ch)" by (cases r) auto
    have "block_chans_ok (b\<lparr>bl_wakeupChan := ch\<rparr>)"
      using b try_recv_ok [OF Some [unfolded r]] by (simp add: block_chans_ok_def)
    with run Some show ?thesis by (auto simp: onWakeup_def s r dest!: chans_procAvailable)
  qed (use run b in \<open>auto simp: onWakeup_def s\<close>)
  show "block_chans_ok (fst s')" if run: "onHeader env s = Some (Some s')"
  proof (cases "chan_try_recv (bl_headerChan b)")
    case (Some r)
    obtain h ch where r: "r = (h, ch)" by (cases r)
    have c: "block_chans_ok (b\<lparr>bl_headerChan := ch\<rparr>)"
      using b try_recv_ok [OF Some [unfolded r]] by (simp add: block_chans_ok_def)
    from run Some obtain p' where "handleHeader env h (b\<lparr>bl_headerChan := ch\<rparr>, p') = Some (Some s')"
      by (auto simp: onHeader_def s r split: option.splits)
    with c show ?thesis
      by (auto simp: handleHeader_def Let_def split: option.splits if_splits dest!: chans_procAvailable)
  qed (use run b in \<open>auto simp: onHeader_def s\<close>)
  show "block_chans_ok (fst s')" if run: "onFailedBlock env s = Some s'"
  proof (cases "chan_try_recv (bl_failedBlockChan b)")
    case (Some r)
    obtain h ch where r: "r = (h, ch)" by (cases r)
    have "block_chans_ok (b\<lparr>bl_failedBlockChan := ch\<rparr>)"
      using b try_recv_ok [OF Some [unfolded r]] by (simp add: block_chans_ok_def)
    with run Some show ?thesis by (auto simp: onFailedBlock_def s r bind_eq_Some_conv)
  qed (use run b in \<open>auto simp: onFailedBlock_def s\<close>)
qed

end
