(* ===== verification/Server_System.thy ===== *)
theory Server_System
  imports Server_Interference
begin

text \<open>
  The running server as one step relation: all goroutines that \<open>main\<close> starts, on the components they
  share, and \<open>main\<close> itself from the end of its set-up to its return. The block loop and the loop of the
  failed blocks run with interference: before every call of the processor the other goroutines may
  have worked (\<open>quiet\<close> describes what they can do). Everything else is one \<open>select\<close> branch per step.
\<close>

section \<open>State\<close>

text \<open>Where \<open>main\<close> is after its set-up: in the \<open>select\<close>, in \<open>sub.Wait\<close>, in the two halves of \<open>coor.Stop\<close>.\<close>

datatype main_state = Serving | WaitSub | StopPending | StopBlock | Returned

text \<open>
  \<open>sy_ctxDone\<close>: the context of \<open>main\<close> is cancelled. The flags say which goroutines run; the workers of
  the pending pipeline have theirs in \<open>pu_batches\<close>.
\<close>

record ('c, 'w, 'l) system =
  sy_server :: "('c, 'w, 'l) server"
  sy_ctxDone :: bool
  sy_headerSub :: bool
  sy_pendingSub :: bool
  sy_blockLoop :: bool
  sy_failLoop :: bool
  sy_main :: main_state

text \<open>\<open>coor.Start\<close> and \<open>SubscriberStart\<close> have started every goroutine.\<close>

definition started :: "('c, 'w, 'l) server \<Rightarrow> ('c, 'w, 'l) system" where
  "started sv =
     \<lparr>sy_server = sv, sy_ctxDone = False, sy_headerSub = True, sy_pendingSub = True, sy_blockLoop = True,
      sy_failLoop = True, sy_main = Serving\<rparr>"

abbreviation sy_proc :: "('c, 'w, 'l) system \<Rightarrow> ('c, 'w) Process" where
  "sy_proc s \<equiv> pu_proc (sv_pending (sy_server s))"

text \<open>The subscriber works on the pipelines themselves: its coordinator is taken from them and put back.\<close>

definition get_sub :: "('c, 'w, 'l) server \<Rightarrow> 'l Subscriber" where
  "get_sub sv = (sv_sub sv)\<lparr>sb_coor := \<lparr>co_pending = pu_pipe (sv_pending sv), co_block = sv_block sv\<rparr>\<rparr>"

definition put_sub :: "'l Subscriber \<Rightarrow> ('c, 'w, 'l) server \<Rightarrow> ('c, 'w, 'l) server" where
  "put_sub sub sv =
     sv\<lparr>sv_sub := sub, sv_pending := (sv_pending sv)\<lparr>pu_pipe := co_pending (sb_coor sub)\<rparr>,
        sv_block := co_block (sb_coor sub)\<rparr>"

definition put_proc :: "('c, 'w) Process \<Rightarrow> ('c, 'w, 'l) server \<Rightarrow> ('c, 'w, 'l) server" where
  "put_proc p sv = sv\<lparr>sv_pending := (sv_pending sv)\<lparr>pu_proc := p\<rparr>\<rparr>"

definition put_pipe :: "('c, 'w) Process pipe \<Rightarrow> ('c, 'w, 'l) server \<Rightarrow> ('c, 'w, 'l) server" where
  "put_pipe bp sv = (put_proc (snd bp) sv)\<lparr>sv_block := fst bp\<rparr>"

abbreviation sy_pipe :: "('c, 'w, 'l) system \<Rightarrow> ('c, 'w) Process pipe" where
  "sy_pipe s \<equiv> (sv_block (sy_server s), sy_proc s)"

section \<open>The goroutines that main does not wait for\<close>

inductive bg_step :: "('c, 'w) Process \<Rightarrow> ('c, 'w) Process \<Rightarrow> bool" where
  tick: "bg_step p (analyzeTick env ordAddr k3 k4 p)"
| stream: "startStreamWorker cenv st (ps_grpc p) (ps_world p) = (st', c, w) \<Longrightarrow>
    bg_step p (p\<lparr>ps_grpc := c, ps_world := w\<rparr>)"
| unary: "startUnaryWoker uenv isCtx (ps_grpc p) (ps_world p) = (on, c, w) \<Longrightarrow>
    bg_step p (p\<lparr>ps_grpc := c, ps_world := w\<rparr>)"
| report: "reporterTick (ps_counts p) = (line, m) \<Longrightarrow> bg_step p (p\<lparr>ps_counts := m\<rparr>)"

text \<open>What can happen to the processor between two calls of a block loop.\<close>

inductive other_step ::
  "(Hash \<Rightarrow> Address \<times> u64) \<Rightarrow> (Transaction \<Rightarrow> Address option) \<Rightarrow> ('c, 'w) Process \<Rightarrow> ('c, 'w) Process \<Rightarrow> bool"
  for key signer where
  background: "bg_step p p' \<Longrightarrow> other_step key signer p p'"
| received: "other_step key signer p (p\<lparr>ps_counts := IncPendginRecieved (ps_counts p)\<rparr>)"
| txs: "env_ok key signer env \<Longrightarrow> other_step key signer p (GetTxInfo env hs p)"
| lookup: "HeaderByNumber env n p = (r, p') \<Longrightarrow> other_step key signer p p'"
| cleanup: "env_ok key signer env \<Longrightarrow> CleanupFailedBlock env hdr p = Some (e, p') \<Longrightarrow> other_step key signer p p'"

definition quiet ::
  "(Hash \<Rightarrow> Address \<times> u64) \<Rightarrow> (Transaction \<Rightarrow> Address option) \<Rightarrow> (('c, 'w) Process \<Rightarrow> ('c, 'w) Process) \<Rightarrow> bool" where
  "quiet key signer others \<longleftrightarrow> (\<forall>p. (other_step key signer)\<^sup>*\<^sup>* p (others p))"

section \<open>Waiting for the goroutines\<close>

text \<open>When \<open>sub.Wait\<close> and the \<open>stop\<close> of the two pipelines return: their wait groups have no goroutine left.\<close>

definition Subscriber_Wait :: "('c, 'w, 'l) system \<Rightarrow> bool" where
  [simp]: "Subscriber_Wait s \<longleftrightarrow> \<not> sy_headerSub s \<and> \<not> sy_pendingSub s"

definition Pending_stop :: "('c, 'w, 'l) system \<Rightarrow> bool" where
  [simp]: "Pending_stop s \<longleftrightarrow> (\<forall>b \<in> set (pu_batches (sv_pending (sy_server s))). b = None)"

definition Pipeline_stop :: "('c, 'w, 'l) system \<Rightarrow> bool" where
  [simp]: "Pipeline_stop s \<longleftrightarrow> \<not> sy_blockLoop s \<and> \<not> sy_failLoop s"

section \<open>Steps\<close>

text \<open>
  The loop of the failed blocks has its iteration as one step (\<open>fail\<close>) and also each of its three parts
  (\<open>failTake\<close>, \<open>failLookup\<close>, \<open>failCleanup\<close>), between which the block loop may go on.
\<close>

definition header_in :: "header_event \<Rightarrow> bool" where
  "header_in ev \<longleftrightarrow> (\<forall>hdr now. ev = HHeader hdr now \<longrightarrow> numbered hdr)"

definition node_ok ::
  "(Hash \<Rightarrow> Address \<times> u64) \<Rightarrow> (Transaction \<Rightarrow> Address option) \<Rightarrow> ('c, 'w) proc_env \<Rightarrow> bool" where
  "node_ok key signer env \<longleftrightarrow> env_ok key signer env \<and> node_law (pe_api env)"

inductive sys_step ::
  "(Hash \<Rightarrow> Address \<times> u64) \<Rightarrow> (Transaction \<Rightarrow> Address option) \<Rightarrow> ('c, 'w, 'l) system \<Rightarrow> ('c, 'w, 'l) system \<Rightarrow> bool"
  for key signer where
  header: "sy_headerSub s \<Longrightarrow> header_in ev \<Longrightarrow>
    consumeHeaderStream pv headerTimeout PushHeader [ev] t (sb_coor (get_sub (sy_server s))) = (r, coor) \<Longrightarrow>
    sys_step key signer s (s\<lparr>sy_server := put_sub ((get_sub (sy_server s))\<lparr>sb_coor := coor\<rparr>) (sy_server s)\<rparr>)"
| headerSwitch: "sy_headerSub s \<Longrightarrow> alternateProvider (sb_providers (sv_sub (sy_server s))) name = Some pv \<Longrightarrow>
    sys_step key signer s (s\<lparr>sy_server := put_sub (notifyPendingSwitch (pv_Name pv) (get_sub (sy_server s))) (sy_server s)\<rparr>)"
| headerFatal: "sy_headerSub s \<Longrightarrow> alternateProvider (sb_providers (sv_sub (sy_server s))) name = None \<Longrightarrow>
    sys_step key signer s (s\<lparr>sy_server := put_sub (reportFatal ErrNoEthereumProviders (get_sub (sy_server s))) (sy_server s),
      sy_headerSub := False\<rparr>)"
| headerReturn: "sy_headerSub s \<Longrightarrow> sy_ctxDone s \<Longrightarrow> sys_step key signer s (s\<lparr>sy_headerSub := False\<rparr>)"
| hash: "sy_pendingSub s \<Longrightarrow>
    consumePending lru hex [ev] (ps_counts (sy_proc s), get_sub (sy_server s)) = (r, m, sub) \<Longrightarrow>
    sys_step key signer s (s\<lparr>sy_server := put_sub sub (put_proc ((sy_proc s)\<lparr>ps_counts := m\<rparr>) (sy_server s))\<rparr>)"
| forced: "sy_pendingSub s \<Longrightarrow> chan_try_recv (sb_pendingSwitch (sv_sub (sy_server s))) = Some (name, ch) \<Longrightarrow>
    sys_step key signer s (s\<lparr>sy_server := (sy_server s)\<lparr>sv_sub := (sv_sub (sy_server s))\<lparr>sb_pendingSwitch := ch\<rparr>\<rparr>\<rparr>)"
| pendingFatal: "sy_pendingSub s \<Longrightarrow>
    sys_step key signer s (s\<lparr>sy_server := put_sub (reportFatal err (get_sub (sy_server s))) (sy_server s), sy_pendingSub := False\<rparr>)"
| pendingGivesUp: "sy_pendingSub s \<Longrightarrow> alternateProvider (sb_providers (sv_sub (sy_server s))) name = None \<Longrightarrow>
    sys_step key signer s (s\<lparr>sy_pendingSub := False\<rparr>)"
| pendingReturn: "sy_pendingSub s \<Longrightarrow> sy_ctxDone s \<Longrightarrow> sys_step key signer s (s\<lparr>sy_pendingSub := False\<rparr>)"
| work: "env_ok key signer env \<Longrightarrow> ev = Take i \<or> ev = Tick i \<Longrightarrow>
    sys_step key signer s (s\<lparr>sy_server := (sy_server s)\<lparr>sv_pending := pend_step (GetTxInfo env) ev (sv_pending (sy_server s))\<rparr>\<rparr>)"
| workerReturn: "sy_ctxDone s \<Longrightarrow>
    sys_step key signer s (s\<lparr>sy_server := (sy_server s)\<lparr>sv_pending := pend_step (GetTxInfo env) (Stop i) (sv_pending (sy_server s))\<rparr>\<rparr>)"
| wake: "sy_blockLoop s \<Longrightarrow> node_ok key signer env \<Longrightarrow> quiet key signer others \<Longrightarrow>
    onWakeup (with_others others (eth_pipe_env env ord sleep)) (sy_pipe s) = Some (Some bp) \<Longrightarrow>
    sys_step key signer s (s\<lparr>sy_server := put_pipe bp (sy_server s)\<rparr>)"
| head: "sy_blockLoop s \<Longrightarrow> node_ok key signer env \<Longrightarrow> quiet key signer others \<Longrightarrow>
    onHeader (with_others others (eth_pipe_env env ord sleep)) (sy_pipe s) = Some (Some bp) \<Longrightarrow>
    sys_step key signer s (s\<lparr>sy_server := put_pipe bp (sy_server s)\<rparr>)"
| blockReturn: "sy_blockLoop s \<Longrightarrow> sy_ctxDone s \<Longrightarrow> sys_step key signer s (s\<lparr>sy_blockLoop := False\<rparr>)"
| fail: "sy_failLoop s \<Longrightarrow> node_ok key signer env \<Longrightarrow> quiet key signer others \<Longrightarrow>
    onFailedBlock (with_others others (eth_pipe_env env ord sleep)) (sy_pipe s) = Some bp \<Longrightarrow>
    sys_step key signer s (s\<lparr>sy_server := put_pipe bp (sy_server s)\<rparr>)"
| failTake: "sy_failLoop s \<Longrightarrow> chan_try_recv (bl_failedBlockChan (sv_block (sy_server s))) = Some (hdr, ch) \<Longrightarrow>
    sys_step key signer s (s\<lparr>sy_server := (sy_server s)\<lparr>sv_block := (sv_block (sy_server s))\<lparr>bl_failedBlockChan := ch\<rparr>\<rparr>\<rparr>)"
| failLookup: "sy_failLoop s \<Longrightarrow> HeaderByNumber env n (sy_proc s) = (res, p) \<Longrightarrow>
    sys_step key signer s (s\<lparr>sy_server := put_proc p (sy_server s)\<rparr>)"
| failCleanup: "sy_failLoop s \<Longrightarrow> env_ok key signer env \<Longrightarrow> CleanupFailedBlock env hdr (sy_proc s) = Some (e, p) \<Longrightarrow>
    sys_step key signer s (s\<lparr>sy_server := put_proc p (sy_server s)\<rparr>)"
| failReturn: "sy_failLoop s \<Longrightarrow> sy_ctxDone s \<Longrightarrow> sys_step key signer s (s\<lparr>sy_failLoop := False\<rparr>)"
| background: "bg_step (sy_proc s) p \<Longrightarrow> sys_step key signer s (s\<lparr>sy_server := put_proc p (sy_server s)\<rparr>)"
| signal: "sys_step key signer s (s\<lparr>sy_ctxDone := True\<rparr>)"
| fatal: "sy_main s = Serving \<Longrightarrow> chan_try_recv (sb_errChan (sv_sub (sy_server s))) = Some (err, ch) \<Longrightarrow>
    sys_step key signer s (s\<lparr>sy_server := (sy_server s)\<lparr>sv_sub := (sv_sub (sy_server s))\<lparr>sb_errChan := ch\<rparr>\<rparr>,
      sy_ctxDone := True, sy_main := WaitSub\<rparr>)"
| asked: "sy_main s = Serving \<Longrightarrow> sy_ctxDone s \<Longrightarrow> sys_step key signer s (s\<lparr>sy_main := WaitSub\<rparr>)"
| subsJoined: "sy_main s = WaitSub \<Longrightarrow> Subscriber_Wait s \<Longrightarrow>
    sys_step key signer s (s\<lparr>sy_main := StopPending\<rparr>)"
| workersJoined: "sy_main s = StopPending \<Longrightarrow> Pending_stop s \<Longrightarrow>
    sys_step key signer s (s\<lparr>sy_main := StopBlock\<rparr>)"
| loopsJoined: "sy_main s = StopBlock \<Longrightarrow> Pipeline_stop s \<Longrightarrow>
    sys_step key signer s (s\<lparr>sy_main := Returned\<rparr>)"

section \<open>The invariant\<close>

text \<open>Background goroutines and interference keep the invariant of the processor and its blocks.\<close>

lemma bg_step_keeps:
  assumes "bg_step p p'"
  shows "proc_inv key signer p \<Longrightarrow> proc_inv key signer p'" "ps_store p' = ps_store p" "ps_pool p' = ps_pool p"
proof -
  from assms have "(proc_inv key signer p \<longrightarrow> proc_inv key signer p') \<and> ps_store p' = ps_store p \<and> ps_pool p' = ps_pool p"
  proof (induction rule: bg_step.induct)
    case (tick p env ordAddr k3 k4)
    have "ps_pool (analyzeTick env ordAddr k3 k4 p) = ps_pool p"
      by (auto simp: analyzeTick_def readClock_def Let_def split: prod.splits option.splits)
    then show ?case by (simp add: analyzeTick_inv other_goroutines)
  next
    case (stream cenv st p st' c w)
    then show ?case by (simp add: proc_inv_def startStreamWorker_ok)
  next
    case (unary uenv isCtx p on c w)
    then show ?case by (simp add: proc_inv_def startUnaryWoker_ok)
  qed (simp add: proc_inv_def)
  then show "proc_inv key signer p \<Longrightarrow> proc_inv key signer p'" "ps_store p' = ps_store p" "ps_pool p' = ps_pool p"
    by blast+
qed

lemma other_step_keeps:
  "other_step key signer p p' \<Longrightarrow> proc_inv key signer p \<Longrightarrow> proc_inv key signer p' \<and> ps_store p' = ps_store p"
proof (induction rule: other_step.induct)
  case (background p p')
  then show ?case by (simp add: bg_step_keeps)
next
  case (lookup env n p r p')
  then show ?case using HeaderByNumber_frame frame_inv by (metis frame_def)
next
  case (cleanup env hdr p e p')
  then show ?case using CleanupFailedBlock_inv CleanupFailedBlock_store by blast
next
  case (txs env p hs)
  then show ?case by (simp add: GetTxInfo_inv other_goroutines)
qed (simp add: proc_inv_def)

lemma quiet_keeps:
  assumes "quiet key signer others" "proc_inv key signer p"
  shows "proc_inv key signer (others p) \<and> stored_numbers (others p) = stored_numbers p"
proof -
  from assms(1) have "(other_step key signer)\<^sup>*\<^sup>* p (others p)" by (simp add: quiet_def)
  then have "proc_inv key signer (others p) \<and> ps_store (others p) = ps_store p"
    by (induction rule: rtranclp_induct) (use assms(2) other_step_keeps in fastforce)+
  then show ?thesis by (simp add: stored_numbers_def)
qed

text \<open>The contract of the pipeline under interference.\<close>

lemma noisy_contract:
  assumes "node_ok key signer env" "quiet key signer others"
  shows "block_processor (with_others others (eth_pipe_env env ord sleep)) stored_numbers (proc_inv key signer)"
    "header_law (pi_proc (with_others others (eth_pipe_env env ord sleep)))"
proof -
  from assms(1) have env: "env_ok key signer env" "node_law (pe_api env)" by (simp_all add: node_ok_def)
  show "block_processor (with_others others (eth_pipe_env env ord sleep)) stored_numbers (proc_inv key signer)"
    by (rule block_processor.contract_with_others [OF eth_contract [OF env(1)] quiet_keeps [OF assms(2)]])
  show "header_law (pi_proc (with_others others (eth_pipe_env env ord sleep)))"
    by (rule header_law_with_others [OF node_header_law [OF env(2)]])
qed

text \<open>
  What holds of the block pipeline: the invariant of its loop, the headers that wait have numbers, the
  channels are within their bounds.
\<close>

definition block_ok ::
  "(Hash \<Rightarrow> Address \<times> u64) \<Rightarrow> (Transaction \<Rightarrow> Address option) \<Rightarrow> ('c, 'w) Process pipe \<Rightarrow> bool" where
  "block_ok key signer bp \<longleftrightarrow> pipe_ok stored_numbers (proc_inv key signer) bp \<and>
     (\<forall>hdr \<in> set (chan_buf (bl_headerChan (fst bp))). numbered hdr) \<and> block_chans_ok (fst bp)"

lemma block_loop_ok:
  assumes "node_ok key signer env" "quiet key signer others" "block_ok key signer bp"
  shows "onWakeup (with_others others (eth_pipe_env env ord sleep)) bp = Some (Some bp') \<Longrightarrow> block_ok key signer bp'"
    "onHeader (with_others others (eth_pipe_env env ord sleep)) bp = Some (Some bp') \<Longrightarrow> block_ok key signer bp'"
    "onFailedBlock (with_others others (eth_pipe_env env ord sleep)) bp = Some bp' \<Longrightarrow> block_ok key signer bp'"
proof -
  note c = noisy_contract [OF assms(1,2), of ord sleep]
  from assms(3) have ok: "pipe_ok stored_numbers (proc_inv key signer) bp" "block_chans_ok (fst bp)"
    "\<forall>hdr \<in> set (chan_buf (bl_headerChan (fst bp))). numbered hdr" by (simp_all add: block_ok_def)
  have num: "big_Uint64 n \<noteq> - 1" if "Some h \<in> set (chan_buf (bl_headerChan (fst bp)))" "hd_Number h = Some n" for h n
    using ok(3) that by (auto simp: numbered_def)
  show "block_ok key signer bp'" if run: "onWakeup (with_others others (eth_pipe_env env ord sleep)) bp = Some (Some bp')"
    using block_processor.onWakeup_ok [OF c(1) run c(2) ok(1)] chans_loops(1) [OF ok(2) run] headerChan_steps(1) [OF run] ok(3)
    by (simp add: block_ok_def)
  show "block_ok key signer bp'" if run: "onHeader (with_others others (eth_pipe_env env ord sleep)) bp = Some (Some bp')"
    using block_processor.onHeader_ok [OF c(1) run c(2) ok(1) num] chans_loops(2) [OF ok(2) run] headerChan_steps(3) [OF run] ok(3)
    by (auto simp: block_ok_def)
  show "block_ok key signer bp'" if run: "onFailedBlock (with_others others (eth_pipe_env env ord sleep)) bp = Some bp'"
    using block_processor.onFailedBlock_ok [OF c(1) run ok(1)] chans_loops(3) [OF ok(2) run] headerChan_steps(2) [OF run] ok(3)
    by (simp add: block_ok_def)
qed

lemma block_ok_push: "numbered hdr \<Longrightarrow> block_ok key signer (b, p) \<Longrightarrow> block_ok key signer (Pipeline_push hdr b, p)"
  by (auto simp: block_ok_def chans_push)
    (auto simp: pipe_ok_def pending_ok_def Pipeline_push_def chan_try_send_def split: if_splits)

lemma block_ok_proc:
  "block_ok key signer (b, p) \<Longrightarrow> proc_inv key signer p' \<Longrightarrow> ps_store p' = ps_store p \<Longrightarrow> block_ok key signer (b, p')"
  by (auto simp: block_ok_def pipe_ok_def stored_numbers_def)

lemma block_ok_take:
  assumes "chan_try_recv (bl_failedBlockChan b) = Some (hdr, ch)" "block_ok key signer (b, p)"
  shows "block_ok key signer (b\<lparr>bl_failedBlockChan := ch\<rparr>, p)"
proof -
  have "block_chans_ok (b\<lparr>bl_failedBlockChan := ch\<rparr>)"
    using assms try_recv_ok [OF assms(1)] by (simp add: block_ok_def block_chans_ok_def)
  with assms(2) show ?thesis by (simp add: block_ok_def pipe_ok_def pending_ok_def)
qed

text \<open>The pending pipeline: the workers only call \<open>GetTxInfo\<close>, and its channel keeps its capacity.\<close>

lemma fold_GetTxInfo_keeps:
  assumes "env_ok key signer env" "proc_inv key signer p"
  shows "proc_inv key signer (fold (GetTxInfo env) calls p) \<and> ps_store (fold (GetTxInfo env) calls p) = ps_store p"
  using assms(2) by (induction calls arbitrary: p) (simp_all add: GetTxInfo_inv [OF assms(1)] other_goroutines)

lemma workerStep_pipe [simp]: "pu_pipe (workerStep getTx i ev s) = pu_pipe s"
  by (simp add: workerStep_def split: option.splits prod.splits)

lemma pend_step_cap: "chan_cap (pl_jobs (pu_pipe (pend_step getTx ev s))) = chan_cap (pl_jobs (pu_pipe s))"
  by (cases ev) (auto simp: Pending_push_def try_send_cap split: option.splits dest: try_recv_ok(2))

lemma workerStep_stop:
  assumes "batches_ok s"
  shows "batches_ok (workerStep getTx i CtxDone s)" "pu_proc (workerStep getTx i CtxDone s) = pu_proc s"
    "length (pu_batches (workerStep getTx i CtxDone s)) = length (pu_batches s)"
    "i < length (pu_batches s) \<Longrightarrow> pu_batches (workerStep getTx i CtxDone s) = (pu_batches s)[i := None]"
proof -
  have eq: "workerStep getTx i CtxDone s = s\<lparr>pu_batches := (pu_batches s)[i := None]\<rparr>"
    if "i < length (pu_batches s)"
    using that by (cases "pu_batches s ! i") (simp_all add: workerStep_def list_update_same_conv [THEN iffD2])
  have out: "workerStep getTx i CtxDone s = s" if "\<not> i < length (pu_batches s)"
    using that by (simp add: workerStep_def)
  have "set ((pu_batches s)[i := None]) \<subseteq> insert None (set (pu_batches s))" by (rule set_update_subset_insert)
  then have ok: "batches_ok (s\<lparr>pu_batches := (pu_batches s)[i := None]\<rparr>)"
    using assms by (auto simp: batches_ok_def batch_list_def maxBatchSize_def)
  show "batches_ok (workerStep getTx i CtxDone s)" "pu_proc (workerStep getTx i CtxDone s) = pu_proc s"
    "length (pu_batches (workerStep getTx i CtxDone s)) = length (pu_batches s)"
    using eq out ok assms by (cases "i < length (pu_batches s)"; simp)+
  show "i < length (pu_batches s) \<Longrightarrow> pu_batches (workerStep getTx i CtxDone s) = (pu_batches s)[i := None]"
    using eq by simp
qed

definition pending_side_ok :: "('c, 'w) Process pending_run \<Rightarrow> bool" where
  "pending_side_ok run \<longleftrightarrow> batches_ok run \<and> chan_cap (pl_jobs (pu_pipe run)) = txBufferSize"

lemma pend_step_side:
  assumes "pending_side_ok run" "proc_inv key signer (pu_proc run)" "env_ok key signer env" "live ev"
  shows "pending_side_ok (pend_step (GetTxInfo env) ev run)" "proc_inv key signer (pu_proc (pend_step (GetTxInfo env) ev run))"
    "ps_store (pu_proc (pend_step (GetTxInfo env) ev run)) = ps_store (pu_proc run)"
proof -
  from assms(1) have ok: "batches_ok run" by (simp add: pending_side_ok_def)
  from pend_step_calls [OF this assms(4)] obtain calls where
    c: "pu_proc (pend_step (GetTxInfo env) ev run) = fold (GetTxInfo env) calls (pu_proc run)"
    "batches_ok (pend_step (GetTxInfo env) ev run)" by blast
  show "pending_side_ok (pend_step (GetTxInfo env) ev run)"
    using c(2) assms(1) by (simp add: pending_side_ok_def pend_step_cap)
  show "proc_inv key signer (pu_proc (pend_step (GetTxInfo env) ev run))"
    "ps_store (pu_proc (pend_step (GetTxInfo env) ev run)) = ps_store (pu_proc run)"
    using fold_GetTxInfo_keeps [OF assms(3,2)] by (simp_all add: c(1))
qed

text \<open>One event of a stream.\<close>

lemma header_event_cases:
  assumes "consumeHeaderStream pv timeout push [ev] t coor = (r, coor')"
  shows "coor' = coor \<or> (\<exists>h now. ev = HHeader (Some h) now \<and> coor' = push (Some h) coor)"
  using assms by (cases ev) (auto split: option.splits if_splits)

lemma hash_event_cases:
  assumes "consumePending lru hex [ev] (m, sub) = (r, m', sub')"
  shows "sb_pendingSwitch sub' = sb_pendingSwitch sub \<and> sb_errChan sub' = sb_errChan sub \<and>
    (sb_coor sub' = sb_coor sub \<or> (\<exists>h. sb_coor sub' = PushTxHash h (sb_coor sub)))"
proof (cases ev)
  case (PHash h)
  with assms have "onHash lru hex h (m, sub) = (m', sub')" by simp
  then show ?thesis
    by (auto simp: onHash_def Let_def split: if_splits prod.splits bool.splits option.splits)
qed (use assms in \<open>auto split: option.splits\<close>)

section \<open>Every step keeps the invariant\<close>

text \<open>How far \<open>main\<close> is tells what has returned.\<close>

definition joined :: "('c, 'w, 'l) system \<Rightarrow> bool" where
  "joined s \<longleftrightarrow>
     (sy_main s \<noteq> Serving \<longrightarrow> sy_ctxDone s) \<and>
     (sy_main s \<in> {StopPending, StopBlock, Returned} \<longrightarrow> Subscriber_Wait s) \<and>
     (sy_main s \<in> {StopBlock, Returned} \<longrightarrow> Pending_stop s) \<and>
     (sy_main s = Returned \<longrightarrow> Pipeline_stop s)"

definition sub_ok :: "'l Subscriber \<Rightarrow> bool" where
  "sub_ok sub \<longleftrightarrow> chan_ok (sb_pendingSwitch sub) \<and> chan_cap (sb_pendingSwitch sub) = 4 \<and>
     chan_ok (sb_errChan sub) \<and> chan_cap (sb_errChan sub) = 1"

definition sys_ok ::
  "(Hash \<Rightarrow> Address \<times> u64) \<Rightarrow> (Transaction \<Rightarrow> Address option) \<Rightarrow> ('c, 'w, 'l) system \<Rightarrow> bool" where
  "sys_ok key signer s \<longleftrightarrow> block_ok key signer (sy_pipe s) \<and> pending_side_ok (sv_pending (sy_server s)) \<and>
     sub_ok (sv_sub (sy_server s)) \<and> joined s"

lemma put_simps [simp]:
  "sv_block (put_sub sub sv) = co_block (sb_coor sub)" "sv_sub (put_sub sub sv) = sub"
  "sv_pending (put_sub sub sv) = (sv_pending sv)\<lparr>pu_pipe := co_pending (sb_coor sub)\<rparr>"
  "sv_block (put_proc p sv) = sv_block sv" "sv_sub (put_proc p sv) = sv_sub sv"
  "sv_pending (put_proc p sv) = (sv_pending sv)\<lparr>pu_proc := p\<rparr>"
  "sv_block (put_pipe bp sv) = fst bp" "sv_sub (put_pipe bp sv) = sv_sub sv"
  "sv_pending (put_pipe bp sv) = (sv_pending sv)\<lparr>pu_proc := snd bp\<rparr>"
  "sb_coor (get_sub sv) = \<lparr>co_pending = pu_pipe (sv_pending sv), co_block = sv_block sv\<rparr>"
  "sb_pendingSwitch (get_sub sv) = sb_pendingSwitch (sv_sub sv)" "sb_errChan (get_sub sv) = sb_errChan (sv_sub sv)"
  by (simp_all add: put_sub_def put_proc_def put_pipe_def get_sub_def)

lemma pending_side_simps [simp]:
  "pending_side_ok (run\<lparr>pu_proc := p\<rparr>) = pending_side_ok run"
  "pending_side_ok run \<Longrightarrow> pending_side_ok (run\<lparr>pu_pipe := Pending_push h (pu_pipe run)\<rparr>)"
  "pending_side_ok run \<Longrightarrow> pending_side_ok (run\<lparr>pu_proc := p, pu_pipe := Pending_push h (pu_pipe run)\<rparr>)"
  by (auto simp: pending_side_ok_def batches_ok_def Pending_push_def try_send_cap)

lemma sub_ok_ops:
  "sub_ok sub \<Longrightarrow> sub_ok (notifyPendingSwitch name sub)" "sub_ok sub \<Longrightarrow> sub_ok (reportFatal err sub)"
  "sub_ok sub \<Longrightarrow> chan_try_recv (sb_pendingSwitch sub) = Some (name, ch) \<Longrightarrow> sub_ok (sub\<lparr>sb_pendingSwitch := ch\<rparr>)"
  "sub_ok sub \<Longrightarrow> chan_try_recv (sb_errChan sub) = Some (err, ch') \<Longrightarrow> sub_ok (sub\<lparr>sb_errChan := ch'\<rparr>)"
  by (auto simp: sub_ok_def notifyPendingSwitch_def reportFatal_def try_send_cap try_recv_ok)

lemma sub_ok_get [simp]: "sub_ok (get_sub sv) = sub_ok (sv_sub sv)" "sub_ok (sub\<lparr>sb_coor := c\<rparr>) = sub_ok sub"
  by (simp_all add: sub_ok_def)

lemma coor_ops [simp]:
  "sb_coor (notifyPendingSwitch name sub) = sb_coor sub" "sb_coor (reportFatal err sub) = sb_coor sub"
  by (simp_all add: notifyPendingSwitch_def reportFatal_def)

lemma coordinator_pushes [simp]:
  "co_block (PushTxHash h coor) = co_block coor" "co_pending (PushTxHash h coor) = Pending_push h (co_pending coor)"
  "co_block (PushHeader hdr coor) = Pipeline_push hdr (co_block coor)" "co_pending (PushHeader hdr coor) = co_pending coor"
  by (simp_all add: PushTxHash_def PushHeader_def)

lemma workers_stay_stopped:
  assumes "\<forall>b \<in> set (pu_batches run). b = None"
  shows "\<forall>b \<in> set (pu_batches (pend_step getTx ev run)). b = None"
proof -
  have "workerStep getTx i e run' = run'" if "pu_batches run' = pu_batches run" for i e run'
  proof (cases "i < length (pu_batches run)")
    case True
    then have "pu_batches run ! i = None" using assms nth_mem by blast
    with that show ?thesis by (simp add: workerStep_def)
  qed (use that in \<open>simp add: workerStep_def\<close>)
  then show ?thesis using assms by (cases ev) (auto split: option.splits)
qed

lemma sys_okI:
  assumes "block_ok key signer (sv_block sv, pu_proc (sv_pending sv))" "pending_side_ok (sv_pending sv)" "sub_ok (sv_sub sv)"
    "joined s" "sy_server s = sv"
  shows "sys_ok key signer s"
  using assms by (simp add: sys_ok_def)

lemma sys_okD:
  assumes "sys_ok key signer s"
  shows "block_ok key signer (sy_pipe s)" "pending_side_ok (sv_pending (sy_server s))" "sub_ok (sv_sub (sy_server s))"
    "joined s" "proc_inv key signer (sy_proc s)"
  using assms by (auto simp: sys_ok_def block_ok_def pipe_ok_def)

lemma joined_step: "sys_step key signer s s' \<Longrightarrow> joined s \<Longrightarrow> joined s'"
proof (induction rule: sys_step.induct)
  case (work env ev i s)
  then show ?case
    using workers_stay_stopped [of "sv_pending (sy_server s)" "GetTxInfo env" ev]
    by (simp add: joined_def del: pend_step.simps)
next
  case (workerReturn s env i)
  then show ?case
    using workers_stay_stopped [of "sv_pending (sy_server s)" "GetTxInfo env" "Stop i"]
    by (simp add: joined_def del: pend_step.simps)
qed (auto simp: joined_def)

lemma sys_step_ok: "sys_step key signer s s' \<Longrightarrow> sys_ok key signer s \<Longrightarrow> sys_ok key signer s'"
proof -
  assume run: "sys_step key signer s s'" and inv: "sys_ok key signer s"
  note ok = sys_okD [OF inv]
  have j: "joined s'" by (rule joined_step [OF run ok(4)])
  from run show "sys_ok key signer s'"
  proof cases
    case (header ev pv t r coor)
    from header_event_cases [OF header(4)] header(3) ok show ?thesis
      by (intro sys_okI [OF _ _ _ j refl]) (auto simp: header(1) header_in_def block_ok_push)
  next
    case (hash lru hex ev r m sub)
    have p: "proc_inv key signer ((sy_proc s)\<lparr>ps_counts := m\<rparr>)" using ok(5) by (simp add: proc_inv_def)
    have b: "block_ok key signer (sv_block (sy_server s), (sy_proc s)\<lparr>ps_counts := m\<rparr>)"
      by (rule block_ok_proc [OF ok(1) p]) simp
    from hash_event_cases [OF hash(3)] b ok show ?thesis
      by (intro sys_okI [OF _ _ _ j refl]) (auto simp: hash(1) sub_ok_def)
  next
    case (work env ev i)
    have l: "live ev" using work(3) by auto
    note st = pend_step_side [OF ok(2,5) work(2) l]
    show ?thesis
      using ok st block_ok_proc [OF ok(1) st(2,3)] by (intro sys_okI [OF _ _ _ j refl]) (simp_all add: work(1))
  next
    case (workerReturn env i)
    have "batches_ok (sv_pending (sy_server s))" using ok(2) by (simp add: pending_side_ok_def)
    from workerStep_stop [OF this, where getTx = "GetTxInfo env" and i = i] ok show ?thesis
      by (intro sys_okI [OF _ _ _ j refl]) (simp_all add: workerReturn(1) pending_side_ok_def)
  next
    case (wake env others ord sleep bp)
    with ok block_loop_ok(1) [OF wake(3,4) ok(1) wake(5)] show ?thesis
      by (intro sys_okI [OF _ _ _ j refl]) simp_all
  next
    case (head env others ord sleep bp)
    with ok block_loop_ok(2) [OF head(3,4) ok(1) head(5)] show ?thesis
      by (intro sys_okI [OF _ _ _ j refl]) simp_all
  next
    case (fail env others ord sleep bp)
    with ok block_loop_ok(3) [OF fail(3,4) ok(1) fail(5)] show ?thesis
      by (intro sys_okI [OF _ _ _ j refl]) simp_all
  next
    case (failTake hdr ch)
    with ok block_ok_take [OF failTake(3) ok(1)] show ?thesis
      by (intro sys_okI [OF _ _ _ j refl]) simp_all
  next
    case (failLookup env n res p)
    note k = other_step_keeps [OF other_step.lookup [OF failLookup(3)] ok(5)]
    show ?thesis
      using ok k block_ok_proc [OF ok(1) k [THEN conjunct1] k [THEN conjunct2]] by (intro sys_okI [OF _ _ _ j refl]) (simp_all add: failLookup(1))
  next
    case (failCleanup env hdr e p)
    note k = other_step_keeps [OF other_step.cleanup [OF failCleanup(3,4)] ok(5)]
    show ?thesis
      using ok k block_ok_proc [OF ok(1) k [THEN conjunct1] k [THEN conjunct2]] by (intro sys_okI [OF _ _ _ j refl]) (simp_all add: failCleanup(1))
  next
    case (background p)
    note bg = bg_step_keeps [OF background(2)]
    show ?thesis
      using ok block_ok_proc [OF ok(1) bg(1) [OF ok(5)] bg(2)] by (intro sys_okI [OF _ _ _ j refl]) (simp_all add: background(1))
  qed (use ok in \<open>intro sys_okI [OF _ _ _ j refl]; simp add: sub_ok_ops\<close>)+
qed

lemma started_ok:
  assumes "main env w = Inr sv" "node_law (pe_api (mn_proc env))" "pp_Signer (ps_pool (pu_proc (sv_pending sv))) = signer"
  shows "sys_ok key signer (started sv)"
proof (rule main_shape [OF assms(1,2)])
  fix dedup providers
  assume m: "server_reachable (sv_block sv, pu_proc (sv_pending sv))"
    "\<And>key. \<exists>chain. proc_reachable key (mn_signers env chain) (pu_proc (sv_pending sv))"
    "sv_pending sv = Pending_start (newPendingPipeline pendingWorkerCount) (pu_proc (sv_pending sv))"
    "\<exists>n. sv_block sv = (newBlockPipeline MaxBlockCount)\<lparr>bl_nextBlockNum := n\<rparr>"
    "sv_sub sv = \<lparr>sb_coor = \<lparr>co_pending = pu_pipe (sv_pending sv), co_block = sv_block sv\<rparr>, sb_dedup = Some dedup,
       sb_providers = cf_WSs providers, sb_pendingSwitch = make_chan 4, sb_errChan = make_chan 1\<rparr>"
  have reach: "server_ok (sv_block sv, pu_proc (sv_pending sv))" by (rule server_reachable_ok [OF m(1)])
  obtain chain where "proc_reachable key (mn_signers env chain) (pu_proc (sv_pending sv))" using m(2) by blast
  note inv = proc_reachable_inv [OF this]
  moreover have "signer = mn_signers env chain" using inv assms(3) by (simp add: proc_inv_def)
  ultimately have p: "proc_inv key signer (pu_proc (sv_pending sv))" by simp
  have "block_chans_ok (sv_block sv)" using m(4) chans_new [of MaxBlockCount] by auto
  with reach p have "block_ok key signer (sv_block sv, pu_proc (sv_pending sv))"
    by (auto simp: block_ok_def server_ok_def pipe_ok_def)
  moreover have "pending_side_ok (sv_pending sv)"
    by (subst m(3))
      (auto simp: pending_side_ok_def batches_ok_def Pending_start_def newPendingPipeline_def batch_list_def maxBatchSize_def)
  moreover have "sub_ok (sv_sub sv)" by (simp add: m(5) sub_ok_def)
  ultimately show ?thesis by (simp add: sys_ok_def started_def joined_def)
qed

lemma sys_run_ok:
  assumes "main env w = Inr sv" "node_law (pe_api (mn_proc env))" "pp_Signer (ps_pool (pu_proc (sv_pending sv))) = signer"
    and "(sys_step key signer)\<^sup>*\<^sup>* (started sv) s"
  shows "sys_ok key signer s"
  using assms(4) by (induction rule: rtranclp_induct) (auto intro: started_ok [OF assms(1-3)] sys_step_ok)

end
