(* ===== verification/Server_Shutdown.thy ===== *)
theory Server_Shutdown
  imports Server_System
begin

text \<open>
  What the step relation of the whole server gives: safety of every reachable state, and the shutdown
  (\<open>cmd/server/main.go\<close> from the \<open>select\<close> on, \<open>Subscriber.Wait\<close>, \<open>Coordinator.Stop\<close>).
\<close>

section \<open>Safety\<close>


section \<open>Stopping\<close>

lemma stopped_workers_idle:
  assumes "\<forall>b \<in> set (pu_batches run). b = None" "ev = Take i \<or> ev = Tick i \<or> ev = Stop i"
  shows "pend_step getTx ev run = run"
proof (cases "i < length (pu_batches run)")
  case True
  then have "pu_batches run ! i = None" using assms(1) nth_mem by blast
  with assms(2) show ?thesis by (auto simp: workerStep_def)
qed (use assms(2) in \<open>auto simp: workerStep_def\<close>)

text \<open>The worker \<open>i\<close> returns for every \<open>i < n\<close>.\<close>

definition stopWorkers :: "('c, 'w) proc_env \<Rightarrow> nat \<Rightarrow> ('c, 'w) Process pending_run \<Rightarrow> ('c, 'w) Process pending_run" where
  "stopWorkers env n run = fold (\<lambda>i. pend_step (GetTxInfo env) (Stop i)) [0 ..< n] run"

lemma stopWorkers_all:
  assumes "batches_ok run"
  shows "batches_ok (stopWorkers env n run) \<and> length (pu_batches (stopWorkers env n run)) = length (pu_batches run) \<and>
    (\<forall>i < n. i < length (pu_batches run) \<longrightarrow> pu_batches (stopWorkers env n run) ! i = None)"
proof (induction n)
  case 0
  then show ?case using assms by (simp add: stopWorkers_def)
next
  case (Suc n)
  let ?r = "stopWorkers env n run"
  have eq: "stopWorkers env (Suc n) run = workerStep (GetTxInfo env) n CtxDone ?r" by (simp add: stopWorkers_def)
  have ok: "batches_ok ?r" using Suc by blast
  note st = workerStep_stop [OF ok, where getTx = "GetTxInfo env" and i = n]
  have "pu_batches (stopWorkers env (Suc n) run) ! i = None" if "i < Suc n" "i < length (pu_batches run)" for i
  proof (cases "n < length (pu_batches run)")
    case True
    with st(4) Suc have "pu_batches (stopWorkers env (Suc n) run) = (pu_batches ?r)[n := None]" by (simp add: eq)
    with that Suc True show ?thesis by (cases "i = n") auto
  next
    case False
    then have "workerStep (GetTxInfo env) n CtxDone ?r = ?r" using Suc by (simp add: workerStep_def)
    with that Suc False show ?thesis by (auto simp: eq)
  qed
  then show ?case using st(1,3) Suc by (simp add: eq)
qed

lemma flag_cleared [simp]:
  "\<not> sy_headerSub s \<Longrightarrow> s\<lparr>sy_headerSub := False\<rparr> = s" "\<not> sy_pendingSub s \<Longrightarrow> s\<lparr>sy_pendingSub := False\<rparr> = s"
  "\<not> sy_blockLoop s \<Longrightarrow> s\<lparr>sy_blockLoop := False\<rparr> = s" "\<not> sy_failLoop s \<Longrightarrow> s\<lparr>sy_failLoop := False\<rparr> = s"
  by (cases s, simp)+

lemma goroutines_return:
  fixes s :: "('c, 'w, 'l) system"
  assumes "sy_ctxDone s"
  shows "(sys_step key signer)\<^sup>*\<^sup>* s (s\<lparr>sy_headerSub := False, sy_pendingSub := False, sy_blockLoop := False, sy_failLoop := False\<rparr>)"
proof -
  let ?R = "(sys_step key signer)\<^sup>*\<^sup>*"
  have h: "?R s (s\<lparr>sy_headerSub := False\<rparr>)" if "sy_ctxDone s" for s :: "('c, 'w, 'l) system"
    using that sys_step.headerReturn [of s key signer] by (cases "sy_headerSub s") auto
  have p: "?R s (s\<lparr>sy_pendingSub := False\<rparr>)" if "sy_ctxDone s" for s :: "('c, 'w, 'l) system"
    using that sys_step.pendingReturn [of s key signer] by (cases "sy_pendingSub s") auto
  have b: "?R s (s\<lparr>sy_blockLoop := False\<rparr>)" if "sy_ctxDone s" for s :: "('c, 'w, 'l) system"
    using that sys_step.blockReturn [of s key signer] by (cases "sy_blockLoop s") auto
  have f: "?R s (s\<lparr>sy_failLoop := False\<rparr>)" if "sy_ctxDone s" for s :: "('c, 'w, 'l) system"
    using that sys_step.failReturn [of s key signer] by (cases "sy_failLoop s") auto
  have "?R s (s\<lparr>sy_headerSub := False, sy_pendingSub := False\<rparr>)"
    using rtranclp_trans [OF h [OF assms] p [of "s\<lparr>sy_headerSub := False\<rparr>"]] assms by simp
  also have "?R \<dots> (s\<lparr>sy_headerSub := False, sy_pendingSub := False, sy_blockLoop := False\<rparr>)"
    using b [of "s\<lparr>sy_headerSub := False, sy_pendingSub := False\<rparr>"] assms by simp
  also have "?R \<dots> (s\<lparr>sy_headerSub := False, sy_pendingSub := False, sy_blockLoop := False, sy_failLoop := False\<rparr>)"
    using f [of "s\<lparr>sy_headerSub := False, sy_pendingSub := False, sy_blockLoop := False\<rparr>"] assms by simp
  finally show ?thesis .
qed

lemma workers_return:
  assumes "sy_ctxDone s"
  shows "(sys_step key signer)\<^sup>*\<^sup>* s
    (s\<lparr>sy_server := (sy_server s)\<lparr>sv_pending := stopWorkers env n (sv_pending (sy_server s))\<rparr>\<rparr>)"
proof (induction n)
  case 0
  then show ?case by (simp add: stopWorkers_def)
next
  case (Suc n)
  let ?s = "s\<lparr>sy_server := (sy_server s)\<lparr>sv_pending := stopWorkers env n (sv_pending (sy_server s))\<rparr>\<rparr>"
  have "sys_step key signer ?s
      (?s\<lparr>sy_server := (sy_server ?s)\<lparr>sv_pending := pend_step (GetTxInfo env) (Stop n) (sv_pending (sy_server ?s))\<rparr>\<rparr>)"
    by (rule sys_step.workerReturn) (simp add: assms)
  with Suc show ?case by (simp add: stopWorkers_def)
qed

text \<open>When everything that \<open>main\<close> waits for has returned, \<open>main\<close> returns.\<close>

lemma main_returns:
  assumes "sy_ctxDone s" "\<not> sy_headerSub s" "\<not> sy_pendingSub s" "\<not> sy_blockLoop s" "\<not> sy_failLoop s"
    and "\<forall>b \<in> set (pu_batches (sv_pending (sy_server s))). b = None"
  shows "\<exists>s'. (sys_step key signer)\<^sup>*\<^sup>* s s' \<and> sy_main s' = Returned"
proof -
  let ?R = "(sys_step key signer)\<^sup>*\<^sup>*"
  have 3: "?R (s\<lparr>sy_main := StopBlock\<rparr>) (s\<lparr>sy_main := Returned\<rparr>)"
    using sys_step.loopsJoined [of "s\<lparr>sy_main := StopBlock\<rparr>" key signer] assms by auto
  have 2: "?R (s\<lparr>sy_main := StopPending\<rparr>) (s\<lparr>sy_main := StopBlock\<rparr>)"
    using sys_step.workersJoined [of "s\<lparr>sy_main := StopPending\<rparr>" key signer] assms by auto
  have 1: "?R (s\<lparr>sy_main := WaitSub\<rparr>) (s\<lparr>sy_main := StopPending\<rparr>)"
    using sys_step.subsJoined [of "s\<lparr>sy_main := WaitSub\<rparr>" key signer] assms by auto
  have 0: "?R (s\<lparr>sy_main := Serving\<rparr>) (s\<lparr>sy_main := WaitSub\<rparr>)"
    using sys_step.asked [of "s\<lparr>sy_main := Serving\<rparr>" key signer] assms by auto
  have s: "s = s\<lparr>sy_main := sy_main s\<rparr>" by simp
  have "?R s (s\<lparr>sy_main := Returned\<rparr>)"
    using rtranclp_trans [OF 2 3] rtranclp_trans [OF 1 rtranclp_trans [OF 2 3]]
      rtranclp_trans [OF 0 rtranclp_trans [OF 1 rtranclp_trans [OF 2 3]]] 3
    by (subst s, cases "sy_main s") simp_all
  then show ?thesis by (intro exI [of _ "s\<lparr>sy_main := Returned\<rparr>"]) simp
qed

lemma shutdown_path:
  assumes "sys_ok key signer s" "sy_ctxDone s"
  shows "\<exists>s'. (sys_step key signer)\<^sup>*\<^sup>* s s' \<and> sy_main s' = Returned"
proof -
  let ?s1 = "s\<lparr>sy_headerSub := False, sy_pendingSub := False, sy_blockLoop := False, sy_failLoop := False\<rparr>"
  let ?run = "sv_pending (sy_server s)"
  let ?all = "stopWorkers undefined (length (pu_batches ?run)) ?run"
  let ?s2 = "?s1\<lparr>sy_server := (sy_server s)\<lparr>sv_pending := ?all\<rparr>\<rparr>"
  have "(sys_step key signer)\<^sup>*\<^sup>* s ?s1" by (rule goroutines_return [OF assms(2)])
  moreover have "(sys_step key signer)\<^sup>*\<^sup>* ?s1 ?s2"
    using workers_return [of ?s1 key signer undefined "length (pu_batches ?run)"] assms(2) by simp
  moreover have "batches_ok ?run" using sys_okD(2) [OF assms(1)] by (simp add: pending_side_ok_def)
  then have "\<forall>b \<in> set (pu_batches ?all). b = None"
    using stopWorkers_all by (metis in_set_conv_nth)
  then obtain s' where "(sys_step key signer)\<^sup>*\<^sup>* ?s2 s'" "sy_main s' = Returned"
    using main_returns [of ?s2 key signer] assms(2) by auto
  ultimately show ?thesis by (meson rtranclp_trans)
qed

text \<open>After \<open>main\<close> has returned only the goroutines that it does not wait for can make a step.\<close>

definition same_data :: "('c, 'w, 'l) system \<Rightarrow> ('c, 'w, 'l) system \<Rightarrow> bool" where
  "same_data s s' \<longleftrightarrow> ps_pool (sy_proc s') = ps_pool (sy_proc s) \<and> ps_store (sy_proc s') = ps_store (sy_proc s) \<and>
     sv_block (sy_server s') = sv_block (sy_server s) \<and>
     pu_pipe (sv_pending (sy_server s')) = pu_pipe (sv_pending (sy_server s)) \<and>
     pu_batches (sv_pending (sy_server s')) = pu_batches (sv_pending (sy_server s))"

lemma returned_step:
  assumes "sys_step key signer s s'" "joined s" "sy_main s = Returned"
  shows "sy_main s' = Returned \<and> same_data s s'"
proof -
  have off: "\<not> sy_headerSub s" "\<not> sy_pendingSub s" "\<not> sy_blockLoop s" "\<not> sy_failLoop s"
    "\<forall>b \<in> set (pu_batches (sv_pending (sy_server s))). b = None"
    using assms(2,3) by (simp_all add: joined_def)
  from assms(1) show ?thesis
  proof cases
    case (work env ev i)
    have "pend_step (GetTxInfo env) ev (sv_pending (sy_server s)) = sv_pending (sy_server s)"
      by (rule stopped_workers_idle [OF off(5), of _ i]) (use work(3) in auto)
    with work(1) assms(3) show ?thesis by (simp add: same_data_def del: pend_step.simps)
  next
    case (workerReturn env i)
    have "pend_step (GetTxInfo env) (Stop i) (sv_pending (sy_server s)) = sv_pending (sy_server s)"
      by (rule stopped_workers_idle [OF off(5)]) simp
    with workerReturn(1) assms(3) show ?thesis by (simp add: same_data_def del: pend_step.simps)
  next
    case (background p)
    with assms(3) bg_step_keeps(2,3) [OF background(2)] show ?thesis by (simp add: same_data_def)
  qed (use off assms(3) in \<open>simp_all add: same_data_def\<close>)
qed

lemma returned_run:
  assumes "(sys_step key signer)\<^sup>*\<^sup>* s s'" "sys_ok key signer s" "sy_main s = Returned"
  shows "sy_main s' = Returned \<and> same_data s s'"
  using assms(1)
proof (induction rule: rtranclp_induct)
  case base
  show ?case using assms(3) by (simp add: same_data_def)
next
  case (step s1 s2)
  have "sys_ok key signer s1" using step(1) by (induction rule: rtranclp_induct) (auto intro: assms(2) sys_step_ok)
  with returned_step [OF step(2) sys_okD(4)] step(3) show ?case by (auto simp: same_data_def)
qed


section \<open>A sample run\<close>

text \<open>
  The sample server of \<open>Server_Main\<close>: the header two blocks ahead arrives, then the header subscription
  finds no provider and reports it.
\<close>

lemma sample_run:
  "\<exists>sv s. main sample_main_env 0 = Inr sv \<and> pp_Signer (ps_pool (pu_proc (sv_pending sv))) = (\<lambda>_. Some 7) \<and>
     (sys_step key (\<lambda>_. Some 7))\<^sup>*\<^sup>* (started sv) s \<and> \<not> sy_ctxDone s \<and>
     chan_buf (bl_headerChan (sv_block (sy_server s))) = [Some (sample_header (Some 104))] \<and>
     chan_buf (sb_errChan (sv_sub (sy_server s))) = [ErrInitialPending ErrPendingSubscriptionTimeout]"
proof -
  obtain sv where sv: "main sample_main_env 0 = Inr sv" using sample_main_starts by blast
  have law: "node_law (pe_api (mn_proc sample_main_env))" using sample_node_law by (simp add: sample_main_env_def)
  let ?h = "Some (sample_header (Some 104))" and ?err = "ErrInitialPending ErrPendingSubscriptionTimeout"
  let ?s1 = "(started sv)\<lparr>sy_server := put_sub ((get_sub sv)\<lparr>sb_coor := PushHeader ?h (sb_coor (get_sub sv))\<rparr>) sv\<rparr>"
  let ?s2 = "?s1\<lparr>sy_server := put_sub (reportFatal ?err (get_sub (sy_server ?s1))) (sy_server ?s1), sy_pendingSub := False\<rparr>"
  have "header_in (HHeader ?h 0)" by (simp add: header_in_def numbered_def sample_header_def big_Uint64_def)
  from sys_step.header [OF _ this, where s = "started sv" and pv = undefined and t = 0 and r = None
      and coor = "PushHeader ?h (sb_coor (get_sub sv))" and key = key and signer = "\<lambda>_. Some 7"]
  have "sys_step key (\<lambda>_. Some 7) (started sv) ?s1" by (simp add: started_def)
  moreover have "sys_step key (\<lambda>_. Some 7) ?s1 ?s2" by (rule sys_step.pendingFatal) (simp add: started_def)
  ultimately have run: "(sys_step key (\<lambda>_. Some 7))\<^sup>*\<^sup>* (started sv) ?s2" by (meson r_into_rtranclp rtranclp_trans)
  show ?thesis
  proof (rule main_shape [OF sv law])
    fix cfg dedup
    assume "\<And>key. \<exists>chain. proc_reachable key (mn_signers sample_main_env chain) (pu_proc (sv_pending sv))"
    then obtain chain where "proc_reachable key (mn_signers sample_main_env chain) (pu_proc (sv_pending sv))" by blast
    from proc_reachable_inv [OF this] have sg: "pp_Signer (ps_pool (pu_proc (sv_pending sv))) = (\<lambda>_. Some 7)"
      by (simp add: proc_inv_def sample_main_env_def)
    assume "\<exists>n. sv_block sv = (newBlockPipeline MaxBlockCount)\<lparr>bl_nextBlockNum := n\<rparr>"
      "sv_sub sv = \<lparr>sb_coor = \<lparr>co_pending = pu_pipe (sv_pending sv), co_block = sv_block sv\<rparr>, sb_dedup = Some dedup,
         sb_providers = cf_WSs cfg, sb_pendingSwitch = make_chan 4, sb_errChan = make_chan 1\<rparr>"
    then have "chan_buf (bl_headerChan (sv_block (sy_server ?s2))) = [?h]"
      "chan_buf (sb_errChan (sv_sub (sy_server ?s2))) = [?err]"
      by (auto simp: started_def newBlockPipeline_def Pipeline_push_def reportFatal_def chan_try_send_def chan_full_def
          make_chan_def headBufferSize_def get_sub_def)
    then show ?thesis using sv sg run by (intro exI [of _ sv] exI [of _ ?s2]) (simp add: started_def)
  qed
qed



end
