(* ===== verification/Mempool_Roundtrip.thy ===== *)
theory Mempool_Roundtrip
  imports Mempool_Claims
begin

text \<open>
  The life of one transaction in the pool: pushed, listed in the snapshot, included in a block.
\<close>

text \<open>
  C18. In and out again. A valid transaction whose sender and nonce are free, pushed into the pool, is in
  the next snapshot with its data; when a block then includes it and no other pooled transaction,
  \<open>RemoveByReceipts\<close> returns and the pool holds what it held before. The transaction is counted unless
  it was seen after the block.
\<close>

theorem push_include_roundtrip:
  assumes inv: "pool_inv key pool" and keyed: "keyed_batch key (pp_Signer pool) [Some t]"
    and tx: "toPendingTx pool b time t = Some tx" and free: "pool_view pool (tx_key tx) = None"
    and ord: "is_range_order ord" "is_range_order ordStat"
    and rs: "hd_Number header = Some num" "None \<notin> set rs" "tx_Hash t \<in> receipt_hashes rs"
    and rest: "\<forall>k u. pool_view pool k = Some u \<longrightarrow> pt_Hash u \<notin> receipt_hashes rs"
  shows "(\<exists>u \<in> set (Snapshot ord (PushBatch [Some t] b time pool)).
      pt_Hash u = tx_Hash t \<and> pt_From u = pt_From tx \<and> pt_Nonce u = tx_Nonce t \<and>
      pt_TipCap u = pt_TipCap tx \<and> pt_FeeCap u = pt_FeeCap tx) \<and>
    (\<exists>stats cnt pool'. RemoveByReceipts ordStat header rs (PushBatch [Some t] b time pool) = Some (stats, cnt, pool') \<and>
      pool_view pool' = pool_view pool \<and> cnt = (if b \<le> big_Uint64 num \<and> time \<le> hd_Time header then 1 else 0))"
proof -
  let ?p = "PushBatch [Some t] b time pool"
  note push = PushBatch_correct [OF inv keyed, of b time]
  have valid: "validTxs pool b time [Some t] = [tx]" by (simp add: validTxs_def map_filter_simps tx)
  have view: "pool_view ?p = (pool_view pool)(tx_key tx \<mapsto> tx_core tx)"
    by (simp add: push(2) valid spec_push_def free)
  note t = toPendingTx_Some [OF tx]
  have "map_of (map (\<lambda>u. (tx_key u, (tx_core u)\<lparr>pt_NonceGap := False\<rparr>)) (Snapshot ord ?p)) (tx_key tx) =
      Some ((tx_core tx)\<lparr>pt_NonceGap := False\<rparr>)"
    by (simp add: Snapshot_lookup [OF push(1) ord(1)] view)
  from map_of_SomeD [OF this] obtain u where u: "u \<in> set (Snapshot ord ?p)"
    "(tx_core u)\<lparr>pt_NonceGap := False\<rparr> = (tx_core tx)\<lparr>pt_NonceGap := False\<rparr>" by auto
  have "pt_Hash u = pt_Hash tx \<and> pt_From u = pt_From tx \<and> pt_Nonce u = pt_Nonce tx \<and>
      pt_TipCap u = pt_TipCap tx \<and> pt_FeeCap u = pt_FeeCap tx"
    using u(2) by (cases u, cases tx) (simp add: tx_core_def)
  with u(1) t have listed: "\<exists>u \<in> set (Snapshot ord ?p). pt_Hash u = tx_Hash t \<and> pt_From u = pt_From tx \<and>
      pt_Nonce u = tx_Nonce t \<and> pt_TipCap u = pt_TipCap tx \<and> pt_FeeCap u = pt_FeeCap tx"
    by (intro bexI [of _ u]) auto
  obtain stats cnt pool' where r: "RemoveByReceipts ordStat header rs ?p = Some (stats, cnt, pool')"
    using RemoveByReceipts_nil [of ordStat header rs ?p] rs
    by (cases "RemoveByReceipts ordStat header rs ?p") auto
  note out = RemoveByReceipts_stats [OF push(1) ord(2) rs(1) r]
  have restored: "pool_view pool' = pool_view pool"
  proof
    fix k
    show "pool_view pool' k = pool_view pool k"
      using out rest [rule_format, of k] free rs(3) t(2) by (cases "pool_view pool k") (auto simp: spec_filter_def view)
  qed
  have "included (big_Uint64 num) (hd_Time header) (receipt_hashes rs) (pool_view ?p) =
      (if b \<le> big_Uint64 num \<and> time \<le> hd_Time header then {tx_key tx} else {})"
    using rest rs(3) t by (auto simp: included_def view)
  with out have "cnt = (if b \<le> big_Uint64 num \<and> time \<le> hd_Time header then 1 else 0)" by simp
  with listed r restored show ?thesis by blast
qed

text \<open>A transaction with nonce 9 in the sample pool.\<close>

theorem push_include_roundtrip_witness:
  "(\<exists>u \<in> set (Snapshot sorted_list_of_fset (PushBatch [sample_tx 9 7 70] 101 1212 sample_pool1)). pt_Hash u = 9) \<and>
   (\<exists>stats pool'. RemoveByReceipts sorted_list_of_fset (sample_header (Some 102)) [sample_receipt 9]
      (PushBatch [sample_tx 9 7 70] 101 1212 sample_pool1) = Some (stats, 1, pool') \<and> pool_view pool' = pool_view sample_pool1)"
proof -
  define t where "t = \<lparr>tx_Hash = 9, tx_GasTipCap = Some 7, tx_GasFeeCap = Some 70, tx_GasPrice = Some 70, tx_Gas = 21000, tx_Nonce = 9\<rparr>"
  have t: "sample_tx 9 7 70 = Some t" by (simp add: sample_tx_def t_def)
  have new: "pool_inv sample_key sample_pool" using NewPendingMemPool_correct [OF sample_new] by simp
  have signer: "pp_Signer sample_pool1 = (\<lambda>_. Some 7)" "pp_TTLBlock sample_pool1 = 20"
    unfolding sample_pool1_def PushBatch_correct(3,4) [OF new sample_keyed] by (simp_all add: sample_pool_def)
  have keyed: "keyed_batch sample_key (pp_Signer sample_pool1) [Some t]"
    by (simp add: keyed_batch_def signer sample_key_def t_def)
  define tx where "tx = \<lparr>pt_Hash = 9, pt_From = 7, pt_Nonce = 9, pt_TipCap = 7, pt_FeeCap = 70, pt_GasLimit = 21000,
    pt_SeenBlock = 101, pt_SeenBlockTime = 1212, pt_ExpireBlock = 121, pt_ExpireIndex = - 1, pt_NonceGap = False\<rparr>"
  have tx: "toPendingTx sample_pool1 101 1212 t = Some tx"
    by (simp add: toPendingTx_def signer t_def tx_def orGasPrice_def big_IsUint64_def big_Uint64_def)
  have free: "pool_view sample_pool1 (tx_key tx) = None"
    unfolding sample_pool1_def tx_def by code_simp
  have hashes: "receipt_hashes [sample_receipt 9] = {9}" by (auto simp: receipt_hashes_def sample_receipt_def)
  have rest: "pt_Hash u \<notin> receipt_hashes [sample_receipt 9]" if in_pool: "pool_view sample_pool1 k = Some u" for k u
  proof -
    have "tx_key tx = (7, 9)" by (simp add: tx_def tx_key_def)
    moreover obtain p where p: "u = tx_core (pp_heap sample_pool1 p)" "hidx sample_pool1 (pt_Hash u) = Some p" "tx_key u = k"
      using pool_view_Some [OF sample_inv in_pool] by blast
    then have "k = sample_key (pt_Hash u)" using pool_inv_hash(4) [OF sample_inv p(2)] by (auto simp: tx_key_def)
    ultimately have "pt_Hash u \<noteq> 9" using free in_pool by (auto simp: sample_key_def)
    with hashes show ?thesis by simp
  qed
  have r: "hd_Number (sample_header (Some 102)) = Some 102" "None \<notin> set [sample_receipt 9]"
    "tx_Hash t \<in> receipt_hashes [sample_receipt 9]"
    by (simp_all add: sample_header_def hashes t_def) (simp add: sample_receipt_def)
  have early: "101 \<le> big_Uint64 102 \<and> 1212 \<le> hd_Time (sample_header (Some 102))"
    by (simp add: big_Uint64_def sample_header_def)
  note round = push_include_roundtrip [OF sample_inv keyed tx free is_range_order_sorted is_range_order_sorted r]
  from rest have "\<forall>k u. pool_view sample_pool1 k = Some u \<longrightarrow> pt_Hash u \<notin> receipt_hashes [sample_receipt 9]" by blast
  from round [OF this] show ?thesis unfolding t by (auto simp: early t_def)
qed

end
