(* ===== verification/Ingestion_Initial.thy ===== *)
theory Ingestion_Initial
  imports Ingestion
begin

text \<open>
  \<open>connectInitialHeader\<close> (\<open>internal/network/ingestion/header.go\<close>): every provider is tried up to
  \<open>connectRetryCount\<close> times. It waits for the result of \<open>connectHeadAndStream\<close>, which returns when the
  stream ends; nothing in the repository calls it.
\<close>

section \<open>The attempts\<close>

text \<open>
  \<open>connect\<close> gives \<open>None\<close> when the call has not returned, \<open>Some None\<close> for the nil error. The results of
  the function: a provider, an error (nil when there is no provider to try), or not returned.
\<close>

datatype initial_header = HeaderConnected Provider | HeaderFailed "ingest_error option" | HeaderRunning Provider

definition ingestCtxErr :: "'w ingest_env \<Rightarrow> 'w \<Rightarrow> ingest_error" where
  "ingestCtxErr env w = ErrCtx (case ie_CtxErr env w of None \<Rightarrow> [] | Some e \<Rightarrow> e)"

text \<open>The inner loop with one provider, \<open>n\<close> attempts after the current one; \<open>Inl\<close> is a return.\<close>

fun headerAttempts ::
  "(Provider \<Rightarrow> 's \<times> 'w \<Rightarrow> ingest_error option option \<times> 's \<times> 'w) \<Rightarrow> 'w ingest_env \<Rightarrow> Provider \<Rightarrow> nat \<Rightarrow>
   's \<times> 'w \<Rightarrow> (initial_header + ingest_error) \<times> 's \<times> 'w" where
  "headerAttempts connect env pv n (s, w) =
     (if ie_CtxErr env w \<noteq> None then (Inl (HeaderFailed (Some (ingestCtxErr env w))), s, w)
      else
        case connect pv (s, w) of
          (None, s, w) \<Rightarrow> (Inl (HeaderRunning pv), s, w)
        | (Some None, s, w) \<Rightarrow> (Inl (HeaderConnected pv), s, w)
        | (Some (Some err), s, w) \<Rightarrow>
            (case n of
               0 \<Rightarrow> (Inr err, s, w)
             | Suc k \<Rightarrow>
                 (case ie_Wait env headerConnectRetryDelay w of
                    (False, w) \<Rightarrow> (Inl (HeaderFailed (Some (ingestCtxErr env w))), s, w)
                  | (True, w) \<Rightarrow> headerAttempts connect env pv k (s, w))))"

declare headerAttempts.simps [simp del]

fun headerProviders ::
  "(Provider \<Rightarrow> 's \<times> 'w \<Rightarrow> ingest_error option option \<times> 's \<times> 'w) \<Rightarrow> 'w ingest_env \<Rightarrow> Provider list \<Rightarrow>
   ingest_error option \<Rightarrow> 's \<times> 'w \<Rightarrow> initial_header \<times> 's \<times> 'w" where
  "headerProviders connect env [] lastErr sw = (HeaderFailed lastErr, sw)"
| "headerProviders connect env (pv # ps) lastErr sw =
     (case headerAttempts connect env pv (connectRetryCount - 1) sw of
        (Inl r, sw) \<Rightarrow> (r, sw)
      | (Inr err, sw) \<Rightarrow> headerProviders connect env ps (Some err) sw)"

text \<open>With the model's \<open>connectHeadAndStream\<close>, whose result is an error or a stream that still runs.\<close>

definition connectInitialHeader ::
  "'w ingest_env \<Rightarrow> 'l Subscriber \<times> 'w \<Rightarrow> initial_header \<times> 'l Subscriber \<times> 'w" where
  "connectInitialHeader env = (\<lambda>(s, w).
     headerProviders (\<lambda>pv sw. case connectHeadAndStream env pv sw of (r, sw) \<Rightarrow> (map_option Some r, sw))
       env (sb_providers s) None (s, w))"

section \<open>It never returns a provider\<close>

lemma headerAttempts_not_connected:
  assumes "\<And>pv sw. fst (connect pv sw) \<noteq> Some None"
  shows "fst (headerAttempts connect env pv n sw) \<noteq> Inl (HeaderConnected pv')"
proof (induction n arbitrary: sw)
  case 0
  obtain s w where sw: "sw = (s, w)" by fastforce
  show ?case using assms [of pv sw]
    by (auto simp: sw headerAttempts.simps [of _ _ _ 0] split: option.splits prod.splits)
next
  case (Suc n)
  obtain s w where sw: "sw = (s, w)" by fastforce
  show ?case using assms [of pv sw] Suc
    by (auto simp: sw headerAttempts.simps [of _ _ _ "Suc n"] split: option.splits prod.splits bool.splits)
qed

lemma headerProviders_not_connected:
  assumes "\<And>pv sw. fst (connect pv sw) \<noteq> Some None"
  shows "fst (headerProviders connect env ps lastErr sw) \<noteq> HeaderConnected pv'"
proof (induction ps arbitrary: lastErr sw)
  case (Cons pv ps)
  obtain r sw' where a: "headerAttempts connect env pv (connectRetryCount - 1) sw = (r, sw')"
    by (cases "headerAttempts connect env pv (connectRetryCount - 1) sw") auto
  with headerAttempts_not_connected [of connect env pv "connectRetryCount - 1" sw pv', OF assms] Cons show ?case
    by (cases r) auto
qed simp

text \<open>
  The stream of a provider that was reached ends with an error or not at all: the branch that returns
  the connected provider is dead.
\<close>

theorem connectInitialHeader_no_provider: "fst (connectInitialHeader env sw) \<noteq> HeaderConnected pv"
proof -
  let ?connect = "\<lambda>pv sw. case connectHeadAndStream env pv sw of (r, sw) \<Rightarrow> (map_option Some r, sw)"
  have "fst (?connect pv' sw') \<noteq> Some None" for pv' sw'
    by (cases "connectHeadAndStream env pv' sw'") (auto split: prod.splits)
  then have "fst (headerProviders ?connect env ps None sw') \<noteq> HeaderConnected pv" for ps sw'
    by (rule headerProviders_not_connected)
  then show ?thesis by (cases sw) (simp add: connectInitialHeader_def)
qed

section \<open>The attempts are bounded\<close>

text \<open>
  When the context lives and every connection fails, each provider is tried \<open>connectRetryCount\<close> times
  and then the function gives up.
\<close>

lemma headerAttempts_all:
  assumes alive: "\<And>w. ie_CtxErr env w = None" "\<And>d w. fst (ie_Wait env d w)"
    and fails: "\<And>pv s w. \<exists>e w'. connect pv (s, w) = (Some (Some e), s, w') \<and> calls w' = calls w + (1 :: nat)"
    and wait: "\<And>d w. calls (snd (ie_Wait env d w)) = calls w"
  shows "\<exists>e w'. headerAttempts connect env pv n (s, w) = (Inr e, s, w') \<and> calls w' = calls w + Suc n"
proof (induction n arbitrary: w)
  case 0
  from fails [of pv s w] alive(1) [of w] show ?case by (auto simp: headerAttempts.simps [of _ _ _ 0])
next
  case (Suc n)
  obtain e w1 where c: "connect pv (s, w) = (Some (Some e), s, w1)" "calls w1 = calls w + 1" using fails by blast
  obtain w2 where v: "ie_Wait env headerConnectRetryDelay w1 = (True, w2)"
    using alive(2) [of headerConnectRetryDelay w1] by (cases "ie_Wait env headerConnectRetryDelay w1") auto
  have "calls w2 = calls w1" using wait [of headerConnectRetryDelay w1] v by simp
  with Suc [of w2] c v alive(1) [of w] show ?case by (auto simp: headerAttempts.simps [of _ _ _ "Suc n"])
qed

lemma headerProviders_all:
  assumes "\<And>w. ie_CtxErr env w = None" "\<And>d w. fst (ie_Wait env d w)"
    and "\<And>pv s w. \<exists>e w'. connect pv (s, w) = (Some (Some e), s, w') \<and> calls w' = calls w + (1 :: nat)"
    and "\<And>d w. calls (snd (ie_Wait env d w)) = calls w"
  shows "\<exists>e w'. headerProviders connect env ps lastErr (s, w) = (HeaderFailed e, s, w') \<and>
    calls w' = calls w + connectRetryCount * length ps"
proof (induction ps arbitrary: lastErr w)
  case (Cons pv ps)
  obtain e w1 where "headerAttempts connect env pv (connectRetryCount - 1) (s, w) = (Inr e, s, w1)"
    "calls w1 = calls w + Suc (connectRetryCount - 1)"
    using headerAttempts_all [of env connect calls pv "connectRetryCount - 1" s w, OF assms] by blast
  with Cons [of "Some e" w1] show ?case by (auto simp: connectRetryCount_def)
qed simp

theorem connectInitialHeader_exhausts:
  assumes alive: "\<And>w. ie_CtxErr env w = None" "\<And>d w. fst (ie_Wait env d w)"
    and fails: "\<And>url w. \<exists>e w'. ie_Dial env url w = (Some e, w') \<and> calls w' = calls w + (1 :: nat)"
    and wait: "\<And>d w. calls (snd (ie_Wait env d w)) = calls w"
  shows "\<exists>e w'. connectInitialHeader env (s, w) = (HeaderFailed e, s, w') \<and>
    calls w' = calls w + connectRetryCount * length (sb_providers s)"
proof -
  let ?connect = "\<lambda>pv sw. case connectHeadAndStream env pv sw of (r, sw) \<Rightarrow> (map_option Some r, sw)"
  have "\<exists>e w''. ?connect pv (s', w') = (Some (Some e), s', w'') \<and> calls w'' = calls w' + (1 :: nat)" for pv s' w'
    using fails [of "pv_Url pv" w'] by (auto simp: connectHeadAndStream_def)
  from headerProviders_all [of env ?connect calls, OF alive this wait] show ?thesis
    by (simp add: connectInitialHeader_def)
qed

end
