(* ===== verification/Gas_Histogram.thy ===== *)
theory Gas_Histogram
  imports Gas_Analyzer
begin

text \<open>
  The tip histogram and the histogram based oracle (\<open>internal/gasanalyzer/histogram.go\<close> and
  \<open>gasOracle.go\<close>), an alternative to the analyzer that \<open>main\<close> does not start. The methods lock the
  histogram or the oracle and are one step each; the clock is an argument.
\<close>

section \<open>The histogram\<close>

record bucket =
  bu_minTip :: u64
  bu_maxTip :: u64
  bu_count :: "64 word"
  bu_gasSum :: u64

record GasTip =
  gt_Tip :: u64
  gt_Gas :: u64

type_synonym Histogram = "bucket list"

definition tipRanges :: "u64 list" where
  "tipRanges =
     [1000000, 2000000, 5000000, 10000000, 20000000, 50000000, 100000000, 200000000, 500000000,
      1000000000, 2000000000, 5000000000, 10000000000, 20000000000]"

definition NewHistogram :: Histogram where
  "NewHistogram =
     map (\<lambda>i. \<lparr>bu_minTip = tipRanges ! i, bu_maxTip = tipRanges ! (i + 1), bu_count = 0, bu_gasSum = 0\<rparr>)
       [0 ..< length tipRanges - 1]"

text \<open>\<open>i\<close> is the index of the first bucket of the list; on an empty histogram the result is -1.\<close>

fun bucketIndexFrom :: "int \<Rightarrow> Histogram \<Rightarrow> u64 \<Rightarrow> int option" where
  "bucketIndexFrom i [] tip = None"
| "bucketIndexFrom i (b # bs) tip =
     (if bu_minTip b \<le> tip \<and> tip < bu_maxTip b then Some i else bucketIndexFrom (i + 1) bs tip)"

definition bucketIndex :: "Histogram \<Rightarrow> u64 \<Rightarrow> int" where
  "bucketIndex h tip = (case bucketIndexFrom 0 h tip of Some i \<Rightarrow> i | None \<Rightarrow> int (length h) - 1)"

definition addTip :: "GasTip \<Rightarrow> Histogram \<Rightarrow> Histogram go" where
  "addTip tx h =
     (let i = bucketIndex h (gt_Tip tx)
      in if i < 0 \<or> i \<ge> int (length h) then panic
         else
           let b = h ! nat i
           in ret (h[nat i := b\<lparr>bu_count := bu_count b + 1, bu_gasSum := bu_gasSum b + gt_Gas tx\<rparr>]))"

fun Hist_Add :: "GasTip list \<Rightarrow> Histogram \<Rightarrow> Histogram go" where
  "Hist_Add [] h = ret h"
| "Hist_Add (tx # txs) h = do { h \<leftarrow> addTip tx h; Hist_Add txs h }"

definition Hist_Reset :: "Histogram \<Rightarrow> Histogram" where
  "Hist_Reset h = map (\<lambda>b. b\<lparr>bu_count := 0, bu_gasSum := 0\<rparr>) h"

definition Hist_Snapshot :: "Histogram \<Rightarrow> bucket list" where
  "Hist_Snapshot h = h"

section \<open>Percentiles\<close>

datatype hist_error = TargetsEmpty | NoBuckets | NoData

definition clampRatio :: "float64 \<Rightarrow> float64" where
  "clampRatio ratio =
     (let ratio = (if f64_lt ratio (Fin 0) then Fin 0 else ratio)
      in if f64_lt (Fin 1) ratio then Fin 1 else ratio)"

definition interpolate :: "(float64 \<Rightarrow> u64) \<Rightarrow> bucket \<Rightarrow> float64 \<Rightarrow> float64 \<Rightarrow> u64" where
  "interpolate oor b targetValue curGasSum =
     (if bu_gasSum b = 0 \<or> bu_maxTip b \<le> bu_minTip b then bu_minTip b
      else
        let r = f64_sub targetValue curGasSum;
            ratio = clampRatio (f64_div r (f64_of_u64 (bu_gasSum b)));
            tip = bu_minTip b +
              f64_to_u64 oor (f64_Round (f64_mul (f64_of_u64 (bu_maxTip b - bu_minTip b)) ratio))
        in if tip > bu_maxTip b then bu_maxTip b else tip)"

text \<open>The loop over the buckets for one target; \<open>None\<close> when the target is not reached.\<close>

fun targetLoop :: "(float64 \<Rightarrow> u64) \<Rightarrow> float64 \<Rightarrow> bucket list \<Rightarrow> float64 \<Rightarrow> u64 option" where
  "targetLoop oor targetValue [] curGasSum = None"
| "targetLoop oor targetValue (b # bs) curGasSum =
     (let weight = f64_of_u64 (bu_gasSum b)
      in if f64_le targetValue (f64_add curGasSum weight) then Some (interpolate oor b targetValue curGasSum)
         else targetLoop oor targetValue bs (f64_add curGasSum weight))"

definition totalGas :: "bucket list \<Rightarrow> float64" where
  "totalGas buckets = fold (\<lambda>b t. f64_add t (f64_of_u64 (bu_gasSum b))) buckets (Fin 0)"

definition targetTip :: "(float64 \<Rightarrow> u64) \<Rightarrow> bucket list \<Rightarrow> TargetPercentile \<Rightarrow> u64" where
  "targetTip oor buckets target =
     (case targetLoop oor (f64_mul (totalGas buckets) (tp_Percentile target)) buckets (Fin 0) of
        Some tip \<Rightarrow> tip
      | None \<Rightarrow> bu_maxTip (last buckets))"

definition PercentileGas :: "(float64 \<Rightarrow> u64) \<Rightarrow> TargetPercentile list \<Rightarrow> Histogram \<Rightarrow> hist_error + levels" where
  "PercentileGas oor targets h =
     (if targets = [] then Inl TargetsEmpty
      else
        let buckets = Hist_Snapshot h
        in if buckets = [] then Inl NoBuckets
           else if f64_eq (totalGas buckets) (Fin 0) then Inl NoData
           else Inr (fold (\<lambda>t result. fmupd (tp_Name t) (targetTip oor buckets t) result) targets fmempty))"

section \<open>The oracle\<close>

record GasOracle =
  or_BlockHist :: Histogram
  or_PendingHist :: Histogram
  or_latestResult :: GasPrediction
  or_latestBlockData :: BlockAnalysisData

definition NewGasOracle :: GasOracle where
  "NewGasOracle =
     \<lparr>or_BlockHist = NewHistogram, or_PendingHist = NewHistogram, or_latestResult = zero_GasPrediction,
      or_latestBlockData = zero_BlockAnalysisData\<rparr>"

definition Oracle_UpdateLatestBlockData ::
  "Time \<Rightarrow> u64 \<Rightarrow> u64 \<Rightarrow> u64 \<Rightarrow> u64 \<Rightarrow> u64 \<Rightarrow> GasOracle \<Rightarrow> GasOracle" where
  "Oracle_UpdateLatestBlockData now blockNumber baseFee gasUsed gasLimit nextBaseFee o' =
     o'\<lparr>or_latestBlockData := zero_BlockAnalysisData
         \<lparr>ba_BlockNumber := blockNumber, ba_BaseFee := baseFee, ba_NextBaseFee := nextBaseFee,
          ba_GasUsed := gasUsed, ba_GasLimit := gasLimit, ba_UpdatedAt := now\<rparr>\<rparr>"

definition oracleTip :: "(float64 \<Rightarrow> u64) \<Rightarrow> u64 \<Rightarrow> PendingTx \<Rightarrow> GasTip option" where
  "oracleTip oor nextBaseFee tx =
     (if pt_FeeCap tx \<le> nextBaseFee then None
      else
        let diff = pt_FeeCap tx - nextBaseFee;
            tip = (if diff < pt_TipCap tx then diff else pt_TipCap tx);
            adjustedGas = f64_to_u64 oor (f64_Round (f64_Sqrt (f64_of_u64 (pt_GasLimit tx))))
        in Some \<lparr>gt_Tip = tip, gt_Gas = adjustedGas\<rparr>)"

definition Oracle_collectPendingTx :: "(float64 \<Rightarrow> u64) \<Rightarrow> u64 \<Rightarrow> PendingTx list \<Rightarrow> GasTip list" where
  "Oracle_collectPendingTx oor nextBaseFee pendingData = List.map_filter (oracleTip oor nextBaseFee) pendingData"

text \<open>The two maps of levels are built and not stored.\<close>

definition Oracle_UpdateResult :: "Time \<Rightarrow> u64 \<Rightarrow> u64 \<Rightarrow> levels \<Rightarrow> levels \<Rightarrow> GasOracle \<Rightarrow> GasOracle" where
  "Oracle_UpdateResult now nextBlockNum nextBaseFee result1 result2 o' =
     (let levels1 = to_levels nextBaseFee result1;
          levels2 = to_levels nextBaseFee result2
      in o'\<lparr>or_latestResult := zero_GasPrediction
            \<lparr>gp_NextBlockNumber := nextBlockNum, gp_NextBaseFee := nextBaseFee, gp_UpdatedAt := now\<rparr>\<rparr>)"

definition Oracle_GasPrediction ::
  "(float64 \<Rightarrow> u64) \<Rightarrow> Time \<Rightarrow> PendingTx list \<Rightarrow> GasOracle \<Rightarrow> GasOracle go" where
  "Oracle_GasPrediction oor now snapshot o' =
     (let d = or_latestBlockData o';
          nextBlockNum = ba_BlockNumber d + 1;
          nextBaseFee = ba_NextBaseFee d;
          pendingTips = Oracle_collectPendingTx oor nextBaseFee snapshot
      in do {
        pendingHist \<leftarrow> Hist_Add pendingTips (Hist_Reset (or_PendingHist o'));
        let o1 = o'\<lparr>or_PendingHist := pendingHist\<rparr>;
        let blockPrice = (case PercentileGas oor GasPredictionTargets (or_BlockHist o1) of Inl _ \<Rightarrow> fmempty | Inr m \<Rightarrow> m);
        let pendingPrice = (case PercentileGas oor GasPredictionTargets (or_PendingHist o1) of Inl _ \<Rightarrow> fmempty | Inr m \<Rightarrow> m);
        ret (Oracle_UpdateResult now nextBlockNum nextBaseFee blockPrice pendingPrice o1)
      })"

definition Oracle_CalculateWeightForGasUsed :: "u64 \<Rightarrow> float64" where
  "Oracle_CalculateWeightForGasUsed gasUsed = f64_Sqrt (f64_of_u64 gasUsed)"

end
