(* ===== verification/Gas_Histogram_Props.thy ===== *)
theory Gas_Histogram_Props
  imports Gas_Histogram
begin

text \<open>
  The properties of the histogram: its ranges never change, every tip has a bucket, nothing added
  is lost, and the percentiles stay within the ranges. The last bucket takes the tips that no
  range contains, also those below the first range.
\<close>

section \<open>Ranges\<close>

definition hist_ok :: "Histogram \<Rightarrow> bool" where
  "hist_ok h \<longleftrightarrow> map (\<lambda>b. (bu_minTip b, bu_maxTip b)) h = zip tipRanges (tl tipRanges)"

lemma NewHistogram_ok: "hist_ok NewHistogram"
  by (simp add: hist_ok_def NewHistogram_def tipRanges_def upt_rec)

lemma hist_ok_length: "hist_ok h \<Longrightarrow> length h = 13"
proof -
  assume "hist_ok h"
  then have "length (map (\<lambda>b. (bu_minTip b, bu_maxTip b)) h) = length (zip tipRanges (tl tipRanges))"
    unfolding hist_ok_def by (rule arg_cong)
  then show ?thesis by (simp add: tipRanges_def)
qed

lemma hist_ok_ranges: "hist_ok h \<Longrightarrow> (\<exists>b \<in> set h. bu_minTip b = lo \<and> bu_maxTip b = hi) \<longleftrightarrow> (lo, hi) \<in> set (zip tipRanges (tl tipRanges))"
proof -
  assume "hist_ok h"
  then have "set (map (\<lambda>b. (bu_minTip b, bu_maxTip b)) h) = set (zip tipRanges (tl tipRanges))"
    unfolding hist_ok_def by (rule arg_cong)
  then have eq: "set (zip tipRanges (tl tipRanges)) = (\<lambda>b. (bu_minTip b, bu_maxTip b)) ` set h" by (simp only: list.set_map)
  show ?thesis unfolding eq by blast
qed

lemma hist_ok_mem:
  assumes "hist_ok h" "b \<in> set h"
  shows "bu_minTip b < bu_maxTip b" "1000000 \<le> bu_minTip b" "bu_maxTip b \<le> 20000000000"
proof -
  from assms have "(bu_minTip b, bu_maxTip b) \<in> set (zip tipRanges (tl tipRanges))" using hist_ok_ranges by blast
  then show "bu_minTip b < bu_maxTip b" "1000000 \<le> bu_minTip b" "bu_maxTip b \<le> 20000000000"
    by (auto simp: tipRanges_def)
qed

lemma hist_ok_last: "hist_ok h \<Longrightarrow> last h \<in> set h"
  using hist_ok_length by (metis last_in_set list.size(3) zero_neq_numeral)

lemma bucketIndexFrom_Some:
  "bucketIndexFrom i h tip = Some j \<Longrightarrow>
     i \<le> j \<and> j < i + int (length h) \<and> bu_minTip (h ! nat (j - i)) \<le> tip \<and> tip < bu_maxTip (h ! nat (j - i))"
proof (induction h arbitrary: i)
  case (Cons b bs)
  show ?case
  proof (cases "bu_minTip b \<le> tip \<and> tip < bu_maxTip b")
    case False
    with Cons have "i + 1 \<le> j \<and> j < i + 1 + int (length bs) \<and> bu_minTip (bs ! nat (j - (i + 1))) \<le> tip \<and>
      tip < bu_maxTip (bs ! nat (j - (i + 1)))" by auto
    moreover from this have "nat (j - i) = Suc (nat (j - (i + 1)))" by linarith
    ultimately show ?thesis by simp
  qed (use Cons.prems in auto)
qed simp

lemma bucketIndexFrom_None:
  "bucketIndexFrom i h tip = None \<longleftrightarrow> (\<forall>b \<in> set h. \<not> (bu_minTip b \<le> tip \<and> tip < bu_maxTip b))"
  by (induction h arbitrary: i) auto

lemma tipRanges_cover:
  assumes "1000000 \<le> tip" "tip < 20000000000"
  shows "\<exists>(lo, hi) \<in> set (zip tipRanges (tl tipRanges)). lo \<le> tip \<and> tip < hi"
  using assms unfolding tipRanges_def by (simp add: not_le [symmetric])

lemma bucketIndex_cases:
  assumes "hist_ok h"
  shows "0 \<le> bucketIndex h tip \<and> bucketIndex h tip < 13 \<and>
    (if 1000000 \<le> tip \<and> tip < 20000000000
     then bu_minTip (h ! nat (bucketIndex h tip)) \<le> tip \<and> tip < bu_maxTip (h ! nat (bucketIndex h tip))
     else bucketIndex h tip = 12)"
proof (cases "bucketIndexFrom 0 h tip")
  case None
  have "\<not> (1000000 \<le> tip \<and> tip < 20000000000)"
  proof
    assume "1000000 \<le> tip \<and> tip < 20000000000"
    then obtain lo hi where "(lo, hi) \<in> set (zip tipRanges (tl tipRanges))" "lo \<le> tip" "tip < hi"
      using tipRanges_cover by blast
    with None hist_ok_ranges [OF assms, of lo hi] show False by (auto simp: bucketIndexFrom_None)
  qed
  with None show ?thesis by (auto simp: bucketIndex_def hist_ok_length [OF assms])
next
  case (Some j)
  note j = bucketIndexFrom_Some [OF Some]
  then have "h ! nat j \<in> set h" by (intro nth_mem) (simp add: nat_less_iff)
  note m = hist_ok_mem [OF assms this]
  have "1000000 \<le> tip" "tip < 20000000000" using m j by (auto intro: order.trans order.strict_trans2)
  with Some j show ?thesis by (simp add: bucketIndex_def hist_ok_length [OF assms])
qed

text \<open>
  The bucket of a tip. \<open>bucketIndex\<close> always names one of the 13 buckets. A tip from 0.001 to 20
  Gwei goes to the bucket whose range contains it. Every other tip goes to the last bucket, from
  10 to 20 Gwei: right for the larger tips, but the tips below 0.001 Gwei are counted there too.
\<close>

theorem bucketIndex_spec:
  assumes "hist_ok h"
  shows "0 \<le> bucketIndex h tip \<and> bucketIndex h tip < 13 \<and>
    (1000000 \<le> tip \<and> tip < 20000000000 \<longrightarrow>
      bu_minTip (h ! nat (bucketIndex h tip)) \<le> tip \<and> tip < bu_maxTip (h ! nat (bucketIndex h tip))) \<and>
    (tip < 1000000 \<or> 20000000000 \<le> tip \<longrightarrow> bucketIndex h tip = 12)"
  using bucketIndex_cases [OF assms, of tip] by (auto simp: not_le split: if_splits)

theorem bucketIndex_spec_witness:
  "bucketIndex NewHistogram 999999 = 12 \<and> bucketIndex NewHistogram 1500000000 < 13"
  using bucketIndex_spec [OF NewHistogram_ok, of 999999] bucketIndex_spec [OF NewHistogram_ok, of 1500000000] by simp

section \<open>Adding\<close>

lemma sum_list_field_update:
  fixes f :: "bucket \<Rightarrow> 'a::comm_monoid_add"
  assumes "i < length h" "f b = f (h ! i) + c"
  shows "sum_list (map f (h[i := b])) = sum_list (map f h) + c"
  using assms
proof (induction h arbitrary: i)
  case (Cons x h)
  then show ?case by (cases i) (auto simp: add_ac)
qed simp

lemma addTip_ok:
  assumes "hist_ok h"
  shows "\<exists>h'. addTip tx h = Some h' \<and> hist_ok h' \<and>
    sum_list (map bu_count h') = sum_list (map bu_count h) + 1 \<and>
    sum_list (map bu_gasSum h') = sum_list (map bu_gasSum h) + gt_Gas tx"
proof -
  let ?i = "nat (bucketIndex h (gt_Tip tx))"
  have i: "0 \<le> bucketIndex h (gt_Tip tx)" "bucketIndex h (gt_Tip tx) < int (length h)"
    using bucketIndex_cases [OF assms, of "gt_Tip tx"] hist_ok_length [OF assms] by simp_all
  then have len: "?i < length h" by simp
  let ?b = "(h ! ?i)\<lparr>bu_count := bu_count (h ! ?i) + 1, bu_gasSum := bu_gasSum (h ! ?i) + gt_Gas tx\<rparr>"
  have "addTip tx h = Some (h[?i := ?b])" using i by (simp add: addTip_def Let_def)
  moreover have "hist_ok (h[?i := ?b])"
    using assms len by (simp add: hist_ok_def map_update) (metis (no_types, lifting) list_update_id map_update nth_map)
  ultimately show ?thesis
    using sum_list_field_update [OF len, of bu_count ?b] sum_list_field_update [OF len, of bu_gasSum ?b] by simp
qed

lemma Hist_Add_ok:
  assumes "hist_ok h"
  shows "\<exists>h'. Hist_Add txs h = Some h' \<and> hist_ok h' \<and>
    sum_list (map bu_count h') = sum_list (map bu_count h) + of_nat (length txs) \<and>
    sum_list (map bu_gasSum h') = sum_list (map bu_gasSum h) + sum_list (map gt_Gas txs)"
  using assms
proof (induction txs arbitrary: h)
  case (Cons tx txs)
  from addTip_ok [OF Cons.prems, of tx] obtain h1 where
    1: "addTip tx h = Some h1" "hist_ok h1" "sum_list (map bu_count h1) = sum_list (map bu_count h) + 1"
    "sum_list (map bu_gasSum h1) = sum_list (map bu_gasSum h) + gt_Gas tx" by blast
  from Cons.IH [OF 1(2)] 1 show ?case by (auto simp: add_ac)
qed simp

lemma Reset_ok: "hist_ok h \<Longrightarrow> hist_ok (Hist_Reset h)"
  by (simp add: hist_ok_def Hist_Reset_def comp_def)

lemma Reset_sums: "sum_list (map bu_count (Hist_Reset h)) = 0" "sum_list (map bu_gasSum (Hist_Reset h)) = 0"
  by (induction h) (simp_all add: Hist_Reset_def)

text \<open>
  After \<open>Reset\<close> and \<open>Add\<close> the counts add up to the number of transactions and the gas sums to
  their gas (in 64-bit arithmetic); \<open>Add\<close> does not panic, whatever the tips are.
\<close>

lemma histogram_refill:
  assumes "hist_ok h"
  shows "\<exists>h'. Hist_Add txs (Hist_Reset h) = Some h' \<and> hist_ok h' \<and>
    sum_list (map bu_count h') = of_nat (length txs) \<and> sum_list (map bu_gasSum h') = sum_list (map gt_Gas txs)"
  using Hist_Add_ok [OF Reset_ok [OF assms], of txs] by (simp add: Reset_sums)

section \<open>Percentiles\<close>

lemma rnd_multiple: "0 \<le> x \<Longrightarrow> x \<le> of_nat n * 2 ^ 64 \<Longrightarrow> n < 2 ^ 53 \<Longrightarrow> rnd x \<le> of_nat n * 2 ^ 64"
  using rnd_exact [of "int n" 64] by (intro f64_rounding.r_le_fix) (simp_all add: power_int_def)

lemma multiple_less_max: "n < 2 ^ 53 \<Longrightarrow> (of_nat n * 2 ^ 64 :: rat) < f64_max"
proof -
  assume "n < 2 ^ 53"
  then have "(of_nat n :: rat) < of_nat (2 ^ 53)" by (simp only: of_nat_less_iff)
  then have "(of_nat n * 2 ^ 64 :: rat) < 2 ^ 53 * 2 ^ 64" by simp
  also have "\<dots> = 2 ^ 117" by simp
  also have "(2 :: rat) ^ 117 \<le> f64_max" unfolding f64_max_def by (rule power_increasing) auto
  finally show ?thesis .
qed

lemma f64_of_u64_le: "\<exists>q. f64_of_u64 w = Fin q \<and> 0 \<le> q \<and> q \<le> 2 ^ 64"
proof -
  have "unat w < 2 ^ LENGTH(64)" by (rule unsigned_less)
  then have "unat w \<le> 2 ^ 64" by simp
  then have "(of_nat (unat w) :: rat) \<le> of_nat (2 ^ 64)" by (simp only: of_nat_le_iff)
  then have le: "(of_nat (unat w) :: rat) \<le> of_nat 1 * 2 ^ 64" by simp
  have "rnd (of_nat (unat w)) \<le> of_nat 1 * 2 ^ 64" by (rule rnd_multiple [OF of_nat_0_le_iff le]) simp
  moreover from this have "rnd (of_nat (unat w)) < f64_max"
    by (rule order.strict_trans1) (rule multiple_less_max, simp)
  moreover have "0 \<le> rnd (of_nat (unat w))" by (rule rnd_nonneg) (rule of_nat_0_le_iff)
  ultimately have "f64_of_u64 w = Fin (rnd (of_nat (unat w)))"
    unfolding f64_of_u64_def by (subst f64_pos [OF of_nat_0_le_iff]) simp
  with \<open>0 \<le> rnd (of_nat (unat w))\<close> \<open>rnd (of_nat (unat w)) \<le> of_nat 1 * 2 ^ 64\<close> show ?thesis by simp
qed

text \<open>A sum of at most \<open>n\<close> gas sums is a finite number.\<close>

definition small_sum :: "nat \<Rightarrow> float64 \<Rightarrow> bool" where
  "small_sum n x \<longleftrightarrow> (\<exists>q. x = Fin q \<and> 0 \<le> q \<and> q \<le> of_nat n * 2 ^ 64)"

lemma small_sum_add:
  assumes "small_sum n x" "Suc n < 2 ^ 53"
  shows "small_sum (Suc n) (f64_add x (f64_of_u64 w))"
proof -
  from assms(1) obtain q where q: "x = Fin q" "0 \<le> q" "q \<le> of_nat n * 2 ^ 64" by (auto simp: small_sum_def)
  obtain r where r: "f64_of_u64 w = Fin r" "0 \<le> r" "r \<le> 2 ^ 64" using f64_of_u64_le by blast
  have "q + r \<le> of_nat (Suc n) * 2 ^ 64" using q r by (simp add: algebra_simps)
  then have le: "rnd (q + r) \<le> of_nat (Suc n) * 2 ^ 64" using q r assms(2) by (intro rnd_multiple) auto
  then have "rnd (q + r) < f64_max" using multiple_less_max [OF assms(2)] by (rule order.strict_trans1)
  with q r le show ?thesis unfolding small_sum_def by (simp add: f64_pos rnd_nonneg)
qed

lemma small_sum_fold:
  "small_sum n x \<Longrightarrow> n + length bs < 2 ^ 53 \<Longrightarrow>
     small_sum (n + length bs) (fold (\<lambda>b t. f64_add t (f64_of_u64 (bu_gasSum b))) bs x)"
proof (induction bs arbitrary: n x)
  case (Cons b bs)
  from Cons.IH [OF small_sum_add [OF Cons.prems(1)], of "bu_gasSum b"] Cons.prems(2) show ?case by simp
qed simp

lemma small_total: "length bs < 2 ^ 53 \<Longrightarrow> small_sum (length bs) (totalGas bs)"
  using small_sum_fold [of 0 "Fin 0" bs] by (simp add: totalGas_def small_sum_def)

lemma f64_not_NaN: "f64 q \<noteq> NaN"
  by (simp add: f64_def Let_def)

lemma clampRatio_range:
  assumes "x \<noteq> NaN"
  shows "\<exists>q. clampRatio x = Fin q \<and> 0 \<le> q \<and> q \<le> 1"
  using assms by (cases x) (auto simp: clampRatio_def f64_lt_def)

lemma scaled_tip:
  assumes q: "0 \<le> q" "q \<le> 1" and n: "unat d < 2 ^ 53"
  shows "unat (f64_to_u64 oor (f64_Round (f64_mul (f64_of_u64 d) (Fin q)))) \<le> unat d"
proof -
  define n where "n = unat d"
  have small: "n < 2 ^ 53" using assms(3) by (simp add: n_def)
  have d: "f64_of_u64 d = Fin (of_nat n)" unfolding n_def by (rule f64_of_u64_exact [OF assms(3)])
  let ?x = "of_nat n * q :: rat"
  have x: "0 \<le> ?x" "?x \<le> of_nat n" using q by (simp_all add: mult_left_le)
  have r: "0 \<le> rnd ?x" "rnd ?x \<le> of_nat n"
    using x rnd_nat [OF small] by (auto intro: rnd_nonneg f64_rounding.r_le_fix)
  have "(of_nat n :: rat) < of_nat (2 ^ 53)" using small by (simp only: of_nat_less_iff)
  then have dl: "(of_nat n :: rat) < 2 ^ 53" by simp
  have "(2 :: rat) ^ 53 \<le> f64_max" unfolding f64_max_def by (rule power_increasing) auto
  then have "rnd ?x < f64_max" using r dl by linarith
  then have fin: "f64_mul (f64_of_u64 d) (Fin q) = Fin (rnd ?x)" using x by (simp add: d f64_pos)
  define k where "k = \<lfloor>rnd ?x + 1 / 2\<rfloor>"
  have "rnd ?x + 1 / 2 < of_int (int n + 1)" using r(2) by simp
  then have "k < int n + 1" unfolding k_def by (simp only: floor_less_iff)
  then have k: "k \<le> int n" "0 \<le> k" using r(1) by (simp_all add: k_def)
  then have k64: "k < 2 ^ 64" using small by simp
  then have "(of_int k :: rat) < of_int (2 ^ 64)" by (simp only: of_int_less_iff)
  then have lt: "(of_int k :: rat) < 2 ^ 64" by simp
  have "f64_to_u64 oor (f64_Round (Fin (rnd ?x))) = word_of_int k"
    using k(2) lt r(1) by (simp add: f64_Round_def f64_to_u64_def k_def [symmetric])
  moreover have "unat (word_of_int k :: u64) = nat k"
    using k(2) k64 by (simp add: unsigned_of_int take_bit_int_eq_self)
  moreover have "nat k \<le> n" using k(1) by simp
  ultimately show ?thesis using fin unfolding n_def [symmetric] by (simp only:)
qed

lemma interpolate_range:
  assumes "small_sum n target" "small_sum m cur" and b: "bu_minTip b < bu_maxTip b" "unat (bu_maxTip b) < 2 ^ 53"
  shows "bu_minTip b \<le> interpolate oor b target cur \<and> interpolate oor b target cur \<le> bu_maxTip b"
proof (cases "bu_gasSum b = 0")
  case True
  then show ?thesis using b(1) by (simp add: interpolate_def)
next
  case False
  obtain w where w: "f64_of_u64 (bu_gasSum b) = Fin w" "w \<noteq> 0"
    using f64_of_u64_finite [of "bu_gasSum b"] False by fastforce
  obtain t c where tc: "target = Fin t" "cur = Fin c" using assms(1,2) by (auto simp: small_sum_def)
  have "f64_div (f64_sub target cur) (Fin w) \<noteq> NaN"
    using w(2) by (cases "f64 (t - c)") (auto simp: tc f64_sub_def f64_not_NaN)
  then obtain q where q: "clampRatio (f64_div (f64_sub target cur) (Fin w)) = Fin q" "0 \<le> q" "q \<le> 1"
    using clampRatio_range by blast
  let ?d = "bu_maxTip b - bu_minTip b"
  let ?x = "f64_to_u64 oor (f64_Round (f64_mul (f64_of_u64 ?d) (Fin q)))"
  have d: "unat ?d = unat (bu_maxTip b) - unat (bu_minTip b)" using b(1) by (intro unat_sub) simp
  have le: "unat (bu_minTip b) < unat (bu_maxTip b)" using b(1) by (simp add: word_less_nat_alt)
  have x: "unat ?x \<le> unat ?d" by (rule scaled_tip) (use q d b(2) in auto)
  have "unat (bu_minTip b) + unat ?x \<le> unat (bu_maxTip b)" using x d le by linarith
  moreover from this have "unat (bu_minTip b + ?x) = unat (bu_minTip b) + unat ?x"
    using b(2) by (intro unat_add_no_wrap) simp
  ultimately have "bu_minTip b \<le> bu_minTip b + ?x" "bu_minTip b + ?x \<le> bu_maxTip b"
    by (simp_all add: word_le_nat_alt)
  moreover have "\<not> bu_maxTip b \<le> bu_minTip b" using b(1) by simp
  moreover from calculation have "\<not> bu_maxTip b < bu_minTip b + ?x" by simp
  ultimately show ?thesis using False by (simp add: interpolate_def w(1) q(1) Let_def)
qed

lemma targetLoop_range:
  assumes "small_sum n target" "small_sum m cur" "m + length bs < 2 ^ 53"
    and "\<forall>b \<in> set bs. lo \<le> bu_minTip b \<and> bu_minTip b < bu_maxTip b \<and> bu_maxTip b \<le> hi" "unat hi < 2 ^ 53"
    and "targetLoop oor target bs cur = Some tip"
  shows "lo \<le> tip \<and> tip \<le> hi"
  using assms(2-4,6)
proof (induction bs arbitrary: cur m)
  case (Cons b bs)
  let ?next = "f64_add cur (f64_of_u64 (bu_gasSum b))"
  show ?case
  proof (cases "f64_le target ?next")
    case True
    with Cons.prems(4) have "tip = interpolate oor b target cur" by (simp add: Let_def)
    moreover have "unat (bu_maxTip b) < 2 ^ 53"
      using Cons.prems(3) assms(5) by (auto simp: word_le_nat_alt)
    ultimately show ?thesis
      using interpolate_range [OF assms(1) Cons.prems(1), of b oor] Cons.prems(3) by (auto intro: order.trans)
  next
    case False
    with Cons.prems(4) have "targetLoop oor target bs ?next = Some tip" by (simp add: Let_def)
    with Cons.IH [OF small_sum_add [OF Cons.prems(1)], of "bu_gasSum b"] Cons.prems(2,3) show ?thesis by simp
  qed
qed simp

lemma small_scaled:
  assumes "small_sum n x" "0 \<le> c" "c \<le> 1" "n < 2 ^ 53"
  shows "small_sum n (f64_mul x (Fin c))"
proof -
  from assms(1) obtain q where q: "x = Fin q" "0 \<le> q" "q \<le> of_nat n * 2 ^ 64" by (auto simp: small_sum_def)
  have "q * c \<le> q" using q(2) assms by (simp add: mult_left_le)
  then have le: "rnd (q * c) \<le> of_nat n * 2 ^ 64" using q assms by (intro rnd_multiple) auto
  then have "rnd (q * c) < f64_max" using multiple_less_max [OF assms(4)] by (rule order.strict_trans1)
  with q le assms(2) show ?thesis unfolding small_sum_def by (simp add: f64_pos rnd_nonneg)
qed

lemma fold_fmupd_lookup:
  "fmlookup (fold (\<lambda>t r. fmupd (nm t) (f t) r) ts m) k =
     (case find (\<lambda>t. nm t = k) (rev ts) of None \<Rightarrow> fmlookup m k | Some t \<Rightarrow> Some (f t))"
  by (induction ts arbitrary: m rule: rev_induct) auto

lemma totalGas_zero: "f64_eq (totalGas h) (Fin 0) \<longleftrightarrow> (\<forall>b \<in> set h. bu_gasSum b = 0)"
proof -
  let ?pool = "map (\<lambda>b. \<lparr>wt_Tip = 0, wt_Weight = f64_of_u64 (bu_gasSum b)\<rparr>) h"
  have "totalGas h = totalWeight ?pool" by (simp add: totalGas_def totalWeight_def fold_map comp_def)
  moreover have "weights_ok ?pool" by (simp add: weights_ok_def)
  moreover have "f64_of_u64 w = Fin 0 \<longleftrightarrow> w = 0" for w
  proof (cases "w = 0")
    case True
    then show ?thesis using f64_of_u64_exact [of 0] by simp
  next
    case False
    then show ?thesis using f64_of_u64_finite [of w] by auto
  qed
  ultimately show ?thesis by (simp add: totalWeight_zero_iff)
qed

text \<open>
  C40. Percentiles of the histogram. For targets between 0 and 1, \<open>PercentileGas\<close> fails exactly when
  there is no target or no gas in the histogram; otherwise it gives every target a tip, and every
  tip it gives is within the ranges, from 0.001 to 20 Gwei: no conversion or addition overflows.
\<close>

theorem PercentileGas_range:
  assumes "hist_ok h" "\<forall>t \<in> set targets. \<exists>c. tp_Percentile t = Fin c \<and> 0 \<le> c \<and> c \<le> 1"
  shows "(case PercentileGas oor targets h of
      Inl e \<Rightarrow> targets = [] \<or> (\<forall>b \<in> set h. bu_gasSum b = 0)
    | Inr result \<Rightarrow> targets \<noteq> [] \<and> (\<exists>b \<in> set h. bu_gasSum b \<noteq> 0) \<and>
        (\<forall>t \<in> set targets. fmlookup result (tp_Name t) \<noteq> None) \<and>
        (\<forall>name tip. fmlookup result name = Some tip \<longrightarrow> 1000000 \<le> tip \<and> tip \<le> 20000000000))"
proof -
  have ne: "h \<noteq> []" using hist_ok_length [OF assms(1)] by auto
  have tip: "1000000 \<le> targetTip oor h t \<and> targetTip oor h t \<le> 20000000000" if t: "t \<in> set targets" for t
  proof -
    obtain c where c: "tp_Percentile t = Fin c" "0 \<le> c" "c \<le> 1" using assms(2) t by blast
    have len: "length h < 2 ^ 53" using hist_ok_length [OF assms(1)] by simp
    have target: "small_sum (length h) (f64_mul (totalGas h) (tp_Percentile t))"
      unfolding c(1) by (rule small_scaled [OF small_total [OF len] c(2,3) len])
    have zero: "small_sum 0 (Fin 0)" by (simp add: small_sum_def)
    have range: "\<forall>b \<in> set h. 1000000 \<le> bu_minTip b \<and> bu_minTip b < bu_maxTip b \<and> bu_maxTip b \<le> 20000000000"
      using hist_ok_mem [OF assms(1)] by blast
    show ?thesis
    proof (cases "targetLoop oor (f64_mul (totalGas h) (tp_Percentile t)) h (Fin 0)")
      case None
      note m = hist_ok_mem [OF assms(1) hist_ok_last [OF assms(1)]]
      from None m show ?thesis by (auto simp: targetTip_def intro: order.trans [OF m(2)] less_imp_le)
    next
      case (Some x)
      with targetLoop_range [OF target zero _ range _ Some] len show ?thesis by (simp add: targetTip_def)
    qed
  qed
  have found: "find (\<lambda>t'. tp_Name t' = tp_Name t) (rev targets) \<noteq> None" if "t \<in> set targets" for t
    using that by (auto simp: find_None_iff)
  have in_targets: "t \<in> set targets" if "find P (rev targets) = Some t" for P t
    using that by (metis find_Some_iff nth_mem set_rev)
  show ?thesis
    using ne found tip in_targets
    by (auto simp: PercentileGas_def Hist_Snapshot_def Let_def fold_fmupd_lookup totalGas_zero split: option.splits)
qed

lemma f64_unit_ex: "0 \<le> q \<Longrightarrow> q \<le> 1 \<Longrightarrow> \<exists>c. f64 q = Fin c \<and> 0 \<le> c \<and> c \<le> 1"
proof -
  assume q: "0 \<le> q" "q \<le> 1"
  then have "rnd q \<le> 1" using rnd_int [of 1] by (intro f64_rounding.r_le_fix) auto
  moreover have "(1 :: rat) < f64_max" by (simp add: f64_max_def)
  ultimately show ?thesis using q by (simp add: f64_pos rnd_nonneg)
qed

lemma targets_unit: "\<forall>t \<in> set GasPredictionTargets. \<exists>c. tp_Percentile t = Fin c \<and> 0 \<le> c \<and> c \<le> 1"
  by (auto simp: GasPredictionTargets_def intro!: f64_unit_ex)

definition sample_hist :: Histogram where
  "sample_hist = map (\<lambda>b. b\<lparr>bu_gasSum := 145\<rparr>) NewHistogram"

theorem PercentileGas_range_witness:
  "\<exists>result tip. PercentileGas (\<lambda>_. 0) GasPredictionTargets sample_hist = Inr result \<and>
     fmlookup result ''fast'' = Some tip \<and> 1000000 \<le> tip \<and> tip \<le> 20000000000"
proof -
  have ok: "hist_ok sample_hist" using NewHistogram_ok by (simp add: sample_hist_def hist_ok_def comp_def)
  note range = PercentileGas_range [OF ok targets_unit, of "\<lambda>_. 0"]
  have "\<not> (\<forall>b \<in> set sample_hist. bu_gasSum b = 0)" by (simp add: sample_hist_def NewHistogram_def tipRanges_def)
  moreover have "GasPredictionTargets \<noteq> []" by (simp add: GasPredictionTargets_def)
  ultimately obtain result where r: "PercentileGas (\<lambda>_. 0) GasPredictionTargets sample_hist = Inr result"
    using range by (cases "PercentileGas (\<lambda>_. 0) GasPredictionTargets sample_hist") auto
  with range have "fmlookup result ''fast'' \<noteq> None"
    by (auto simp: GasPredictionTargets_def)
  with range r show ?thesis by auto
qed

section \<open>The oracle\<close>

text \<open>
  What the oracle keeps. From an oracle with intact histograms, \<open>GasPrediction\<close> never panics,
  fills the pending histogram with exactly the pending transactions whose fee cap is above the
  next base fee, leaves the block histogram alone, and stores the number and the base fee of the
  next block; the fee levels that it has computed are in none of the stored fields.
\<close>

theorem oracle_discards_levels:
  assumes "hist_ok (or_PendingHist o')"
  shows "\<exists>o1. Oracle_GasPrediction oor now snapshot o' = Some o1 \<and> hist_ok (or_PendingHist o1) \<and>
    sum_list (map bu_count (or_PendingHist o1)) =
      of_nat (length (filter (\<lambda>tx. ba_NextBaseFee (or_latestBlockData o') < pt_FeeCap tx) snapshot)) \<and>
    or_BlockHist o1 = or_BlockHist o' \<and>
    gp_NextBlockNumber (or_latestResult o1) = ba_BlockNumber (or_latestBlockData o') + 1 \<and>
    gp_NextBaseFee (or_latestResult o1) = ba_NextBaseFee (or_latestBlockData o') \<and>
    gp_PredictResult (or_latestResult o1) = None \<and> gp_AnalyzerBlock (or_latestResult o1) = None \<and>
    gp_AnalyzerPending (or_latestResult o1) = None"
proof -
  let ?base = "ba_NextBaseFee (or_latestBlockData o')"
  let ?tips = "Oracle_collectPendingTx oor ?base snapshot"
  have len: "length ?tips = length (filter (\<lambda>tx. ?base < pt_FeeCap tx) snapshot)"
    by (induction snapshot)
      (auto simp: Oracle_collectPendingTx_def map_filter_simps oracleTip_def Let_def not_le split: option.splits)
  from Hist_Add_ok [OF Reset_ok [OF assms], of ?tips] obtain h' where
    "Hist_Add ?tips (Hist_Reset (or_PendingHist o')) = Some h'" "hist_ok h'"
    "sum_list (map bu_count h') = of_nat (length ?tips)" by (auto simp: Reset_sums)
  then show ?thesis
    by (simp add: Oracle_GasPrediction_def Oracle_UpdateResult_def Let_def zero_GasPrediction_def len)
qed

theorem oracle_discards_levels_witness:
  "\<exists>o1. Oracle_GasPrediction (\<lambda>_. 0) 7 [zero_PendingTx\<lparr>pt_FeeCap := 9, pt_TipCap := 2, pt_GasLimit := 21000\<rparr>] NewGasOracle = Some o1 \<and>
     sum_list (map bu_count (or_PendingHist o1)) = 1 \<and> gp_PredictResult (or_latestResult o1) = None"
proof -
  have ok: "hist_ok (or_PendingHist NewGasOracle)" by (simp add: NewGasOracle_def NewHistogram_ok)
  from oracle_discards_levels [OF ok, of "\<lambda>_. 0" 7 "[zero_PendingTx\<lparr>pt_FeeCap := 9, pt_TipCap := 2, pt_GasLimit := 21000\<rparr>]"]
  show ?thesis by (auto simp: NewGasOracle_def zero_BlockAnalysisData_def)
qed

end
