(* ===== verification/Logger.thy ===== *)
theory Logger
  imports Go_Prelude
begin

text \<open>
  The logger (\<open>internal/logger\<close>) over the part of \<open>log/slog\<close> and \<open>context\<close> it uses. A logger is its
  handler (format, level, writer) and the attributes given with \<open>With\<close>; a context is the list of the
  values put in it, the innermost first; the program-wide default logger is passed along. Writing a
  line is the emitted record, \<open>None\<close> when the level of the handler suppresses it.
\<close>

section \<open>slog\<close>

datatype log_arg = AStr string | AErr string | AInt int | AAttr string log_arg

type_synonym log_attr = "string \<times> log_arg"

record slog_Logger =
  sl_json :: bool
  sl_level :: int
  sl_out :: string
  sl_attrs :: "log_attr list"

record log_line =
  ll_level :: int
  ll_msg :: string
  ll_attrs :: "log_attr list"

text \<open>
  \<open>argsToAttr\<close> of \<open>slog\<close>: a string is the key of the next argument, an attribute stands for itself,
  anything else gets the key of a bad argument.
\<close>

fun argsToAttrs :: "log_arg list \<Rightarrow> log_attr list" where
  "argsToAttrs [] = []"
| "argsToAttrs [AStr k] = [(''!BADKEY'', AStr k)]"
| "argsToAttrs (AStr k # v # args) = (k, v) # argsToAttrs args"
| "argsToAttrs (AAttr k v # args) = (k, v) # argsToAttrs args"
| "argsToAttrs (AErr e # args) = (''!BADKEY'', AErr e) # argsToAttrs args"
| "argsToAttrs (AInt n # args) = (''!BADKEY'', AInt n) # argsToAttrs args"

definition slog_With :: "log_arg list \<Rightarrow> slog_Logger \<Rightarrow> slog_Logger" where
  "slog_With args l = l\<lparr>sl_attrs := sl_attrs l @ argsToAttrs args\<rparr>"

definition slog_Log :: "int \<Rightarrow> string \<Rightarrow> log_arg list \<Rightarrow> slog_Logger \<Rightarrow> log_line option" where
  "slog_Log level msg args l =
     (if sl_level l \<le> level then Some \<lparr>ll_level = level, ll_msg = msg, ll_attrs = sl_attrs l @ argsToAttrs args\<rparr>
      else None)"

definition LevelDebug :: int where "LevelDebug = -4"
definition LevelInfo :: int where "LevelInfo = 0"
definition LevelWarn :: int where "LevelWarn = 4"
definition LevelError :: int where "LevelError = 8"

section \<open>The package\<close>

text \<open>\<open>lc_Output\<close> is \<open>None\<close> for a nil writer.\<close>

record logger_Config =
  lc_Service :: string
  lc_Env :: string
  lc_Level :: int
  lc_Output :: "string option"

text \<open>The logger that \<open>New\<close> returns and the new default logger of the program.\<close>

definition logger_New :: "logger_Config \<Rightarrow> slog_Logger \<times> slog_Logger" where
  "logger_New cfg =
     (let out = (case lc_Output cfg of None \<Rightarrow> ''stdout'' | Some out \<Rightarrow> out);
          h = \<lparr>sl_json = (lc_Env cfg = ''prod''), sl_level = lc_Level cfg, sl_out = out, sl_attrs = []\<rparr>;
          l = slog_With [AStr ''service'', AStr (lc_Service cfg), AStr ''env'', AStr (lc_Env cfg)] h
      in (l, l))"

text \<open>The values of a context under \<open>loggerKey\<close> and under the keys of other packages.\<close>

datatype ctx_value = LoggerValue "slog_Logger option" | OtherValue string

type_synonym log_ctx = "ctx_value list"

fun loggerValue :: "log_ctx \<Rightarrow> slog_Logger option option" where
  "loggerValue [] = None"
| "loggerValue (LoggerValue l # ctx) = Some l"
| "loggerValue (OtherValue _ # ctx) = loggerValue ctx"

definition WithContext :: "log_ctx \<Rightarrow> slog_Logger option \<Rightarrow> log_ctx" where
  "WithContext ctx lg = LoggerValue lg # ctx"

text \<open>The result is \<open>None\<close> when the nil pointer was stored: the type assertion succeeds for it.\<close>

definition FromContext :: "slog_Logger \<Rightarrow> log_ctx \<Rightarrow> slog_Logger option" where
  "FromContext dflt ctx = (case loggerValue ctx of Some v \<Rightarrow> v | None \<Rightarrow> Some dflt)"

text \<open>A method of the nil logger panics: the outer \<open>None\<close>.\<close>

definition WithTrace :: "slog_Logger \<Rightarrow> log_ctx \<Rightarrow> string \<Rightarrow> log_ctx option" where
  "WithTrace dflt ctx traceID =
     map_option (\<lambda>l. WithContext ctx (Some (slog_With [AStr ''trace_id'', AStr traceID] l))) (FromContext dflt ctx)"

definition log_Debug :: "slog_Logger \<Rightarrow> log_ctx \<Rightarrow> string \<Rightarrow> log_arg list \<Rightarrow> log_line option option" where
  "log_Debug dflt ctx msg args = map_option (slog_Log LevelDebug msg args) (FromContext dflt ctx)"

definition log_Info :: "slog_Logger \<Rightarrow> log_ctx \<Rightarrow> string \<Rightarrow> log_arg list \<Rightarrow> log_line option option" where
  "log_Info dflt ctx msg args = map_option (slog_Log LevelInfo msg args) (FromContext dflt ctx)"

definition log_Warn :: "slog_Logger \<Rightarrow> log_ctx \<Rightarrow> string \<Rightarrow> log_arg list \<Rightarrow> log_line option option" where
  "log_Warn dflt ctx msg args = map_option (slog_Log LevelWarn msg args) (FromContext dflt ctx)"

definition log_Error ::
  "slog_Logger \<Rightarrow> log_ctx \<Rightarrow> string \<Rightarrow> string option \<Rightarrow> log_arg list \<Rightarrow> log_line option option" where
  "log_Error dflt ctx msg err args =
     (let lg = FromContext dflt ctx
      in case err of
           None \<Rightarrow> map_option (slog_Log LevelError msg args) lg
         | Some e \<Rightarrow>
             let finalArgs = [AStr ''error'', AErr e] @ args
             in map_option (slog_Log LevelError msg finalArgs) lg)"

definition log_Duration :: "int \<Rightarrow> int \<Rightarrow> log_arg" where
  "log_Duration now start = AAttr ''elapsed'' (AInt (now - start))"

section \<open>What a line carries\<close>

lemmas logger_defs = logger_New_def slog_With_def slog_Log_def FromContext_def WithContext_def WithTrace_def Let_def

lemma FromContext_WithContext [simp]: "FromContext dflt (WithContext ctx lg) = lg"
  by (simp add: logger_defs)

text \<open>
  In a context made by \<open>WithTrace\<close> under the default logger of \<open>New\<close>, an error at or above the level is written once, with the
  service, the environment, the trace and the error before the arguments of the call, in this order.
\<close>

theorem log_Error_line:
  assumes "lc_Level cfg \<le> LevelError" "WithTrace (snd (logger_New cfg)) [] traceID = Some ctx"
  shows "log_Error dflt ctx msg (Some e) args =
    Some (Some \<lparr>ll_level = LevelError, ll_msg = msg,
      ll_attrs = [(''service'', AStr (lc_Service cfg)), (''env'', AStr (lc_Env cfg)), (''trace_id'', AStr traceID),
        (''error'', AErr e)] @ argsToAttrs args\<rparr>)"
  using assms by (auto simp: log_Error_def logger_defs)

text \<open>A nil error adds no attribute, and lines below the level of the configuration are not written.\<close>

lemma log_Error_nil:
  assumes "FromContext dflt ctx = Some l" "sl_level l \<le> LevelError"
  shows "log_Error dflt ctx msg None args =
    Some (Some \<lparr>ll_level = LevelError, ll_msg = msg, ll_attrs = sl_attrs l @ argsToAttrs args\<rparr>)"
  using assms by (simp add: log_Error_def logger_defs)

lemma suppressed_below_level:
  assumes "LevelWarn < lc_Level cfg"
  shows "log_Debug (snd (logger_New cfg)) [] msg args = Some None" "log_Info (snd (logger_New cfg)) [] msg args = Some None"
    "log_Warn (snd (logger_New cfg)) [] msg args = Some None"
  using assms
  by (simp_all add: log_Debug_def log_Info_def log_Warn_def logger_defs LevelDebug_def LevelInfo_def LevelWarn_def)

text \<open>The calls of the server pass attributes only, so no argument ends up under the key of a bad one.\<close>

lemma argsToAttrs_attrs: "argsToAttrs (map (\<lambda>(k, v). AAttr k v) kvs) = kvs"
  by (induction kvs) auto

end
