(* ===== verification/Spec2Isabelle.thy ===== *)
theory Spec2Isabelle
  imports Server_Shutdown Mempool_Roundtrip Ingestion_Initial Gas_Histogram_Props Logger
begin

text \<open>
  \<^bold>\<open>Verification library of the Ethereum fee monitoring server\<close> (the Go program under \<open>src/\<close>).

  \<^bold>\<open>The program.\<close> \<open>main\<close> reads the configuration, connects to the nodes and to the gRPC server, builds
  the components and starts their goroutines. The subscriber (\<open>internal/network/ingestion\<close>) receives new
  block headers and pending transaction hashes of Ethereum nodes over WebSockets, and changes the
  provider when a stream fails. The coordinator (\<open>internal/coordinator\<close>) queues both: the block pipeline puts the
  headers in order, the pending pipeline batches the hashes. Both call the block processor
  (\<open>internal/processor\<close>), which asks the nodes for transactions and receipts through the RPC manager
  (\<open>internal/network/rpcManager\<close>), keeps the pool of pending transactions (\<open>internal/mempool\<close>) and the
  last blocks (\<open>internal/blockstore\<close>), and hands block data to the gas analyzer
  (\<open>internal/gasanalyzer\<close>). Every two seconds the analyzer predicts tips from a snapshot of the pool;
  predictions and fee statistics go to a web server through the gRPC client
  (\<open>internal/network/grpcClient\<close>), whose calls carry an access token (\<open>internal/network/auth\<close>). Counters
  are in \<open>internal/report\<close>.

  \<^bold>\<open>Theories and code.\<close>
  \<^item> \<open>Go_Prelude\<close>: machine integers as words, a panic as \<open>None\<close>, conversions of \<open>big.Int\<close>, the order of a
    map range (locale \<open>go_range\<close>), buffered channels (locale \<open>bounded_queue\<close>).
    \<open>Go_Float64\<close>: binary64 numbers as rationals with round-to-nearest-even, infinities and NaN (locale
    \<open>rounding\<close>); the sign of zero is not kept, since no operation of the program can see it.
  \<^item> \<open>Block_Store\<close>: \<open>blockstore/store.go\<close>; locale \<open>bounded_history\<close>.
  \<^item> \<open>Mempool\<close> (\<open>mempool/pool.go\<close>; transactions live in an explicit heap, the three indexes hold
    pointers), \<open>Mempool_Inv\<close> (the invariant of the indexes), \<open>Mempool_Refine\<close> (the abstract pool: a map
    from sender and nonce to a transaction), \<open>Mempool_Props\<close> (locale \<open>pending_pool\<close>, statistics),
    \<open>Mempool_Snapshot\<close>, \<open>Mempool_Claims\<close>, \<open>Mempool_Roundtrip\<close> (the life of one transaction).
  \<^item> \<open>Gas_Fee\<close> (\<open>gasanalyzer/fee.go\<close>), \<open>Gas_Percentile\<close> and \<open>Gas_Percentile_Props\<close> (\<open>util.go\<close>; locale
    \<open>tip_sort\<close>), \<open>Gas_Prediction\<close>, \<open>Gas_Claims\<close>, \<open>Gas_Analyzer\<close> and \<open>Gas_Analyzer_Props\<close>
    (\<open>analyzer.go\<close>), \<open>Gas_Histogram\<close> and \<open>Gas_Histogram_Props\<close> (\<open>histogram.go\<close>, \<open>gasOracle.go\<close>).
  \<^item> \<open>Rpc_Manager\<close>: \<open>rpcManager/{manager,client,type}.go\<close>.
    \<open>Grpc_Client\<close>, \<open>Grpc_Client_Props\<close>: \<open>grpcClient/client.go\<close>; locale \<open>latest_queue\<close>.
    \<open>Report\<close>: \<open>report/*.go\<close>.
  \<^item> \<open>Eth_Processor\<close>: \<open>processor/*.go\<close>. The record \<open>Process\<close> holds the states of all components and of the
    world outside. \<open>Eth_Processor_Props\<close>: one block, resync. \<open>Processor_Invariant\<close>: the step relation of
    all goroutines that share the processor. \<open>Processor_Stats\<close>: batches, costs, fee statistics.
  \<^item> \<open>Block_Pipeline\<close> (\<open>coordinator/blockPipeline.go\<close>), \<open>Block_Pipeline_Props\<close> (locale \<open>block_processor\<close>: what
    the pipeline relies on), \<open>Pipeline_Server\<close> (its interpretation on the processor, the step relation of
    the server), \<open>Block_Pipeline_Live\<close> (termination, runs of blocks), \<open>Block_Pipeline_Gap\<close> (gaps, retries).
    \<open>Pending_Pipeline\<close>: \<open>pendingPipeline.go\<close> and \<open>coordinator.go\<close>.
  \<^item> \<open>Auth_Token\<close>: \<open>auth/*.go\<close>, with the transport credentials, the cached token and the interceptors.
    \<open>Ingestion\<close>: \<open>ingestion/*.go\<close>; \<open>Ingestion_Props\<close> (header stream, failover, deduplication),
    \<open>Ingestion_Sessions\<close> (pending sessions and their handover), \<open>Ingestion_Initial\<close>
    (\<open>connectInitialHeader\<close>). \<open>Logger\<close>: \<open>logger/logger.go\<close>.
  \<^item> \<open>Server_Main\<close>: \<open>config/config.go\<close>, \<open>NewGasPredictClient\<close> and \<open>cmd/server/main.go\<close> up to the running
    server; every exit and panic of the start is an error value. \<open>Server_Interference\<close>: the block pipeline
    when other goroutines work between its calls of the processor (an instance of the locale
    \<open>block_processor\<close> again). \<open>Server_System\<close>: the step relation \<open>sys_step\<close> of all goroutines and of \<open>main\<close>
    until it returns, and its invariant. \<open>Server_Shutdown\<close>: safety of every reachable state, the shutdown.

  \<^bold>\<open>What is shown.\<close> Safety of the server under every interleaving of its goroutines: blocks are stored
  once and in order, the pool's indexes stay consistent, channels stay within their buffers, the active
  provider exists. Functional correctness of each component against an abstract specification: the pool
  as a replace-by-fee map, the block history as a list prefix, the base fee as the EIP-1559 rule, each
  percentile as the first crossing of the cumulative weight, failover as the first success in cyclic
  order, batching as a partition of the input. Atomicity of failures: a failed block or resync changes
  no component. Progress: the main loop ends once the nodes agree on a chain, and never stops with an
  unfilled gap unless a node call failed. The exact conditions of every panic that was found. The streams: each
  header and each new hash reaches the coordinator once, a silent stream ends, providers are used round
  robin, exactly one pending session is live, a broken one is replaced. Calls: none leaves without a
  token that was valid when it was read or has just been issued. Start: when \<open>main\<close> gets past its set-up
  the server is in a state that the invariants of the components speak about, and they hold from there to
  the return. Shutdown: \<open>main\<close> can always return once it was asked to, and nothing moves afterwards but the
  goroutines it does not wait for. Round trip: a transaction pushed and then included leaves the pool as
  it was.

  \<^bold>\<open>Granularity.\<close> A method that holds its component's lock is one step. An iteration of a goroutine's
  loop is one step on the components; where code may run between two \<open>select\<close> statements the model has
  a number for what happens meanwhile (\<open>k1\<close>, \<open>k2\<close> of the gRPC client). In \<open>sys_step\<close> one iteration of a
  block loop is one step in which, before every call of the processor, the other goroutines may have run
  (\<open>quiet\<close>): the batches of the workers, the ticks of the analyzer, the gRPC workers, the reporter, calls
  to the nodes and the clean-up of failed blocks. The loop of the failed blocks is also given in pieces,
  with block processing in between. Only the block loop calls \<open>ProcessBlock\<close> and \<open>Resync\<close>, so no two run
  at the same time. The channels of the block pipeline are exchanged with the other goroutines between
  iterations: a failed block that is dropped in the model for a full channel may fit in the code when the
  other loop was fast.

  \<^bold>\<open>Bounds and fuel.\<close> No definition has fuel. Loops over lists are structural or have a measure (the
  hashes left in \<open>getTxLoop\<close>, the messages left in \<open>processStream\<close>, the attempts left in \<open>retryLoop\<close> and
  \<open>feeAttempts\<close>). \<open>procAvailable\<close> may run forever against a node that reports one reorganisation after the
  other: it is a \<open>partial_function (option)\<close> whose \<open>None\<close> is not returning, and
  \<open>procAvailable_terminates\<close> shows that it returns when the nodes are stable. \<open>reconnectPending\<close> tries
  providers until one answers and is defined the same way; \<open>pending_reconnects\<close> shows that it returns.
  The endless loop of \<open>runHeaderSub\<close> is given by its first \<open>n\<close> iterations, for every \<open>n\<close>, and the
  streams and the loop of \<open>runPendingSub\<close> by the list of what they receive.

  \<^bold>\<open>Arguments and hypotheses.\<close> Code outside the repository is an argument: the ethclient calls
  (\<open>eth_api\<close>), the limiter, clock and dialer (\<open>rpc_env\<close>), the gRPC service (\<open>stream_env\<close>,
  \<open>unary_env\<close>, \<open>conn_env\<close>), dialling and subscribing over WebSockets (\<open>ingest_env\<close>, \<open>session_env\<close>), the
  LRU cache, certificates and TLS (\<open>tls_env\<close>), the JWT parser and \<open>singleflight\<close> (\<open>auth_env\<close>), viper
  (\<open>viper_env\<close>), the signer of a transaction, \<open>math.Exp\<close>, the sort routine (\<open>is_tip_sort\<close>), the order of map
  ranges (\<open>is_range_order\<close>), out-of-range float conversions (\<open>oor\<close>). Hypotheses on the nodes: a
  transaction hash determines sender and nonce (\<open>chain_law\<close>), a header fetched by number has that number
  (\<open>node_law\<close>), the limiter refuses requests above its burst (\<open>burst_law\<close>). On other packages: a cache
  below its capacity keeps its keys (\<open>lru_law\<close>), a single flight returns the result of a run of the
  function (\<open>flight_law\<close>). \<open>restless\<close> describes a network in which every stream ends sooner or later.

  \<^bold>\<open>Not modelled.\<close> The lines that the components log (\<open>Logger\<close> models the package, the components do not
  carry its output); the generated protobuf code and the mocks; the Go interfaces of the processor, which
  only name methods; functions that only close connections (\<open>Close\<close>).
\<close>

end
